(* ===== verification/Prelude.thy ===== *)
theory Prelude
  imports Main "HOL-Library.Word" "HOL-Library.Signed_Division" "HOL-Library.Multiset"
begin

text \<open>
  Shared vocabulary of the development: the fixed-width integer types of
  \<open>08.kernel-mm/kernel/include/types.h\<close>, the result type of operations that can end in
  \<open>kernel_panic\<close>, the collections the component proofs use, and generic facts about words
  that stand for addresses and about lists updated by index.
\<close>

unbundle bit_operations_syntax

subsection \<open>Machine integers\<close>

type_synonym u8 = "8 word"
type_synonym u16 = "16 word"
type_synonym u32 = "32 word"
type_synonym u64 = "64 word"

text \<open>
  Byte-addressed memory of the 32-bit address space, little endian as on i386.
\<close>

type_synonym ram = "u32 \<Rightarrow> u8"

subsection \<open>Operations that may panic\<close>

text \<open>
  \<open>kernel_panic\<close> never returns. An operation that may reach it has a result of type
  \<open>'s + 'a\<close>: \<open>Inl s\<close> is the machine halted by the panic, \<open>Inr\<close> is a normal return.
\<close>

type_synonym ('s, 'a) outcome = "'s + 'a"

definition seq_bind :: "('s, 'a) outcome \<Rightarrow> ('a \<Rightarrow> ('s, 'b) outcome) \<Rightarrow> ('s, 'b) outcome" where
  "seq_bind r k = (case r of Inl p \<Rightarrow> Inl p | Inr x \<Rightarrow> k x)"

lemma seq_bind_simps [simp]:
  "seq_bind (Inl p) k = Inl p"
  "seq_bind (Inr x) k = k x"
  by (simp_all add: seq_bind_def)

lemma seq_bind_eq_Inr: "seq_bind r k = Inr y \<longleftrightarrow> (\<exists>x. r = Inr x \<and> k x = Inr y)"
  by (cases r) simp_all

subsection \<open>Collections\<close>

named_theorems addr_simps \<open>facts that move address arithmetic from words to naturals\<close>
named_theorems mem_frame \<open>what a store leaves unchanged\<close>

subsection \<open>Words as addresses\<close>

lemma unat_of_nat_u32 [addr_simps]: "a < 4294967296 \<Longrightarrow> unat (word_of_nat a :: u32) = a"
  by (simp add: unat_of_nat take_bit_nat_eq_self)

lemma of_nat_u32_eq_iff [addr_simps]:
  "a < 4294967296 \<Longrightarrow> b < 4294967296 \<Longrightarrow> (word_of_nat a :: u32) = word_of_nat b \<longleftrightarrow> a = b"
  by (metis unat_of_nat_u32)

lemma of_nat_u32_less_iff [addr_simps]:
  "a < 4294967296 \<Longrightarrow> b < 4294967296 \<Longrightarrow> (word_of_nat a :: u32) < word_of_nat b \<longleftrightarrow> a < b"
  by (simp add: word_less_nat_alt unat_of_nat_u32)

lemma of_nat_u32_le_iff [addr_simps]:
  "a < 4294967296 \<Longrightarrow> b < 4294967296 \<Longrightarrow> (word_of_nat a :: u32) \<le> word_of_nat b \<longleftrightarrow> a \<le> b"
  by (simp add: word_le_nat_alt unat_of_nat_u32)

lemma unat_u32_bound: "unat (w :: u32) < 4294967296"
  using unsigned_less [of w] by simp

lemma unat_add_u32: "unat a + unat b < 4294967296 \<Longrightarrow> unat (a + b :: u32) = unat a + unat b"
  by (subst unat_add_lem [THEN iffD1]) simp_all

lemma unat_inc_u32: "a < b \<Longrightarrow> unat (a + 1 :: u32) = Suc (unat a)"
  using unat_u32_bound [of b] by (simp add: word_less_nat_alt unat_word_ariths)

lemma unat_dec_u32: "a < b \<Longrightarrow> unat (b - 1 :: u32) = unat b - 1"
proof -
  assume "a < b"
  then have "b \<noteq> 0" by auto
  then show ?thesis by (simp add: unat_minus_one)
qed

lemma unat_sub_u32: "unat b \<le> unat a \<Longrightarrow> unat (a - b :: u32) = unat a - unat b"
  by (simp add: unat_sub word_le_nat_alt)

lemma unat_less_Suc_dec:
  "n < 4294967296 \<Longrightarrow> unat (y :: u32) < Suc n \<longleftrightarrow> y = 0 \<or> unat (y - 1) < n"
proof (cases "y = 0")
  case False
  then have "0 < unat y" by (simp add: unat_gt_0)
  with False show ?thesis by (auto simp: unat_minus_one)
qed simp

lemma unat_neg_u32: "y \<noteq> 0 \<Longrightarrow> unat (- y :: u32) = 4294967296 - unat y"
  using unat_sub_if' [of 0 y] by (simp add: unat_gt_0)

lemma unat_swap_u32: "a \<noteq> b \<Longrightarrow> unat (a - b :: u32) = 4294967296 - unat (b - a)"
  using unat_neg_u32 [of "b - a"] by simp

lemma unat_rev_index:
  assumes "len \<noteq> 0"
  shows "unat (len - 1 - y :: u32) < unat len \<longleftrightarrow> unat y < unat len"
proof -
  have "0 < unat len" using assms by (simp add: unat_gt_0)
  moreover have "unat (len - 1) = unat len - 1" using assms by (simp add: unat_minus_one)
  ultimately show ?thesis
    using unat_sub_if' [of "len - 1" y] unat_u32_bound [of y] unat_u32_bound [of len] by auto
qed

subsection \<open>Differences of bytes as C integers\<close>

lemma uint_u8_bound: "0 \<le> uint (a :: u8)" "uint (a :: u8) < 256"
  using uint_lt2p [of a] by simp_all

lemma sint_byte_diff: "sint (ucast (a :: u8) - ucast (b :: u8) :: u32) = uint a - uint b"
proof -
  have "ucast a - ucast b = (word_of_int (uint a - uint b) :: u32)"
    by (simp only: ucast_eq of_int_diff)
  then have "sint (ucast a - ucast b :: u32) = signed_take_bit 31 (uint a - uint b)"
    by (simp only: signed_of_int) simp
  also have "\<dots> = uint a - uint b"
  proof (rule signed_take_bit_int_eq_self)
    have two: "(2 :: int) ^ 31 = 2147483648" by simp
    show "- (2 ^ 31) \<le> uint a - uint b"
      using uint_u8_bound [of a] uint_u8_bound [of b] two by linarith
    show "uint a - uint b < 2 ^ 31"
      using uint_u8_bound [of a] uint_u8_bound [of b] two by linarith
  qed
  finally show ?thesis .
qed

lemma byte_diff_eq_0: "ucast (a :: u8) - ucast (b :: u8) = (0 :: u32) \<longleftrightarrow> a = b"
proof
  assume "ucast a - ucast b = (0 :: u32)"
  with sint_byte_diff [of a b] show "a = b" by (simp add: word_uint_eq_iff)
qed simp

lemma byte_diff_neg: "sint (ucast (a :: u8) - ucast (b :: u8) :: u32) < 0 \<longleftrightarrow> a < b"
  by (simp add: sint_byte_diff word_less_alt)

subsection \<open>Bytes and half-words\<close>

lemma unat_inc_u8: "unat (a :: u8) < 255 \<Longrightarrow> unat (a + 1) = Suc (unat a)"
  by (simp add: unat_word_ariths)

lemma unat_dec_u8: "(a :: u8) > 0 \<Longrightarrow> unat (a - 1) = unat a - 1"
  by (simp add: unat_minus_one word_gt_0)

lemma unat_ucast_u8_u32 [simp]: "unat (ucast (b :: u8) :: u32) = unat b"
proof -
  have "unat b < 256" using unsigned_less [of b] by simp
  then show ?thesis by (simp add: unsigned_ucast_eq take_bit_nat_eq_self)
qed

lemma u16_bytes: "256 * unat (ucast (drop_bit 8 (w :: u16)) :: u8) + unat (ucast w :: u8) = unat w"
proof -
  have "unat w < 65536" using unsigned_less [of w] by simp
  then have "unat w div 256 mod 256 = unat w div 256" by simp
  then show ?thesis
    by (simp add: unsigned_ucast_eq unsigned_drop_bit_eq take_bit_eq_mod drop_bit_eq_div unat_div)
qed

lemma u8_sign_bit: "bit (b :: u8) 7 \<longleftrightarrow> 128 \<le> b"
proof -
  have "odd (n div 128) \<longleftrightarrow> 128 \<le> n" if "n < 256" for n :: nat
  proof (cases "n < 128")
    case False
    with that have "n div 128 = 1" by (intro div_nat_eqI) auto
    with False show ?thesis by simp
  qed simp
  moreover have "unat b < 256" using unsigned_less [of b] by simp
  ultimately have "odd (unat b div 128) \<longleftrightarrow> 128 \<le> unat b" by blast
  moreover have "bit b 7 \<longleftrightarrow> odd (unat b div 128)"
    using bit_unsigned_iff [of b 7, where 'a = nat] by (simp add: bit_iff_odd)
  ultimately show ?thesis by (simp add: word_le_nat_alt)
qed

text \<open>A loop keeps what its body keeps.\<close>

lemma fold_keeps: "(\<And>x s. f (g x s) = f s) \<Longrightarrow> f (fold g xs s) = f s"
  by (induction xs arbitrary: s) auto

end
