(* ===== verification/Mathlib.thy ===== *)
theory Mathlib
  imports Prelude "HOL-Library.Signed_Division"
begin

text \<open>
  \<open>08.kernel-mm/kernel/lib/math.c\<close>: unsigned minimum and maximum, and the division and
  modulus that are meant to round towards minus infinity. \<open>int32_t\<close> values are 32-bit words
  read by \<open>sint\<close>; C's \<open>/\<close> and \<open>%\<close> truncate towards zero and are \<open>sdiv\<close> and \<open>smod\<close>. The result
  is \<open>None\<close> where C leaves it undefined: a division by zero, or a signed result out of range.
\<close>

definition max_u32 :: "u32 \<Rightarrow> u32 \<Rightarrow> u32" where
  "max_u32 x y = (if x > y then x else y)"

definition min_u32 :: "u32 \<Rightarrow> u32 \<Rightarrow> u32" where
  "min_u32 x y = (if x < y then x else y)"

definition int32 :: "int \<Rightarrow> u32 option" where
  "int32 i = (if - 2147483648 \<le> i \<and> i < 2147483648 then Some (word_of_int i) else None)"

definition c_quot :: "u32 \<Rightarrow> u32 \<Rightarrow> u32 option" where
  "c_quot a b = (if b = 0 then None else int32 (sint a sdiv sint b))"

definition c_rem :: "u32 \<Rightarrow> u32 \<Rightarrow> u32 option" where
  "c_rem a b = (if c_quot a b = None then None else int32 (sint a smod sint b))"

definition div_i32 :: "u32 \<Rightarrow> u32 \<Rightarrow> u32 option" where
  "div_i32 x N =
     (if sint x \<ge> 0 then c_quot x N
      else Option.bind (int32 (sint x - sint N)) (\<lambda>d.
           Option.bind (int32 (sint d + 1)) (\<lambda>d. c_quot d N)))"

definition mod_i32 :: "u32 \<Rightarrow> u32 \<Rightarrow> u32 option" where
  "mod_i32 x N =
     Option.bind (c_rem x N) (\<lambda>r. Option.bind (int32 (sint r + sint N)) (\<lambda>t. c_rem t N))"

lemma max_u32_eq: "max_u32 x y = max x y"
  by (auto simp: max_u32_def max_def)

lemma min_u32_eq: "min_u32 x y = min x y"
  by (auto simp: min_u32_def min_def)

lemma sint_word_of_int_u32: "- 2147483648 \<le> i \<Longrightarrow> i < 2147483648 \<Longrightarrow> sint (word_of_int i :: u32) = i"
  by (simp add: sint_sbintrunc' signed_take_bit_int_eq_self)

lemma int32_exact: "- 2147483648 \<le> i \<Longrightarrow> i < 2147483648 \<Longrightarrow> \<exists>w. int32 i = Some w \<and> sint w = i"
  by (simp add: int32_def sint_word_of_int_u32)

lemma sint_u32_range: "- 2147483648 \<le> sint (w :: u32)" "sint (w :: u32) < 2147483648"
  using sint_ge [of w] sint_lt [of w] by simp_all

lemma sdiv_pos: "0 < (n :: int) \<Longrightarrow> i sdiv n = (if i < 0 then - (\<bar>i\<bar> div n) else \<bar>i\<bar> div n)"
  by (cases "i = 0") (simp_all add: signed_divide_int_def)

lemma small_quot:
  assumes "0 < (n :: int)" "- 2147483648 \<le> i" "i < 2147483648"
  shows "- 2147483648 \<le> i sdiv n" "i sdiv n < 2147483648"
proof -
  have "\<bar>i\<bar> div n \<le> \<bar>i\<bar>" "0 \<le> \<bar>i\<bar> div n"
    using assms(1) int_div_le_self [of "\<bar>i\<bar>" n] by (cases "i = 0", simp_all add: pos_imp_zdiv_nonneg_iff)
  moreover have "i sdiv n = (if i < 0 then - (\<bar>i\<bar> div n) else \<bar>i\<bar> div n)" using assms(1) by (rule sdiv_pos)
  ultimately show "- 2147483648 \<le> i sdiv n" "i sdiv n < 2147483648" using assms(2,3) by (auto split: if_splits)
qed

lemma c_quot_exact:
  assumes "0 < sint N"
  shows "\<exists>q. c_quot x N = Some q \<and> sint q = sint x sdiv sint N"
proof -
  have "N \<noteq> 0" using assms by auto
  then show ?thesis
    using int32_exact [OF small_quot [OF assms sint_u32_range]] by (simp add: c_quot_def)
qed

lemma smod_pos:
  assumes "0 < (n :: int)"
  shows "i smod n = (if i < 0 then - (- i mod n) else i mod n)"
  using assms by (cases "i = 0") (simp_all add: signed_modulo_int_def)

lemma smod_bounds:
  assumes "0 < (n :: int)"
  shows "- n < i smod n" "i smod n < n"
proof -
  have "0 \<le> i mod n" "i mod n < n" "0 \<le> - i mod n" "- i mod n < n" using assms by simp_all
  then show "- n < i smod n" "i smod n < n"
    using assms unfolding smod_pos [OF assms] by (cases "i < 0"; simp only: if_True if_False; linarith)+
qed

lemma c_rem_exact:
  assumes "0 < sint N"
  shows "\<exists>r. c_rem x N = Some r \<and> sint r = sint x smod sint N"
proof -
  have "- 2147483648 \<le> sint x smod sint N" "sint x smod sint N < 2147483648"
    using sint_u32_range(2) [of N] smod_bounds [OF assms, of "sint x"] by linarith+
  from int32_exact [OF this] show ?thesis using c_quot_exact [OF assms, of x] by (auto simp: c_rem_def)
qed

lemma neg_floor:
  assumes "0 < (n :: int)"
  shows "- ((n - 1 - x) div n) = x div n"
proof -
  define q r where "q = x div n" and "r = x mod n"
  have x: "x = n * q + r" by (simp add: q_def r_def)
  have "0 \<le> r" "r < n" using assms by (simp_all add: r_def)
  then have "(n - 1 - r) div n = 0" by simp
  moreover have "n - 1 - x = (n - 1 - r) + - q * n" unfolding x by (simp add: algebra_simps)
  moreover have "((n - 1 - r) + - q * n) div n = - q + (n - 1 - r) div n"
    using assms by (intro div_mult_self1) simp
  ultimately have "(n - 1 - x) div n = - q" by (simp only: add_0_right)
  then show ?thesis by (simp add: q_def)
qed

text \<open>
  For a positive divisor, and away from the ends of the range, the two functions are the
  flooring division and its remainder.
\<close>

theorem div_mod_floor:
  assumes N: "0 < sint N" "sint N \<le> 1073741824" and x: "sint N - 2147483648 \<le> sint x"
  shows "\<exists>q r. div_i32 x N = Some q \<and> mod_i32 x N = Some r \<and>
     sint q = sint x div sint N \<and> sint r = sint x mod sint N"
proof -
  obtain q where q: "div_i32 x N = Some q" "sint q = sint x div sint N"
  proof (cases "sint x \<ge> 0")
    case True
    then show ?thesis using that c_quot_exact [OF N(1), of x] N(1) by (auto simp: div_i32_def sdiv_pos)
  next
    case False
    obtain d where d: "int32 (sint x - sint N) = Some d" "sint d = sint x - sint N"
      using int32_exact [of "sint x - sint N"] False N x by auto
    obtain e where e: "int32 (sint d + 1) = Some e" "sint e = sint x - sint N + 1"
      using int32_exact [of "sint d + 1"] False N x d(2) by auto
    have "sint e sdiv sint N = - ((sint N - 1 - sint x) div sint N)"
      using False N(1) unfolding e(2) sdiv_pos [OF N(1)] by (simp add: algebra_simps)
    then show ?thesis using that c_quot_exact [OF N(1), of e] False d(1) e(1) neg_floor [OF N(1)]
      by (auto simp: div_i32_def)
  qed
  obtain r where r: "c_rem x N = Some r" "sint r = sint x smod sint N" using c_rem_exact [OF N(1)] by blast
  have b: "- sint N < sint r" "sint r < sint N" using smod_bounds [OF N(1)] r(2) by simp_all
  obtain t where t: "int32 (sint r + sint N) = Some t" "sint t = sint r + sint N"
    using int32_exact [of "sint r + sint N"] b N by auto
  have "sint t smod sint N = sint x mod sint N"
    using b N(1) unfolding t(2) smod_pos [OF N(1)] r(2) by (auto simp: mod_minus_eq)
  then show ?thesis using q r(1) t(1) c_rem_exact [OF N(1), of t] by (auto simp: mod_i32_def)
qed

end
