(* ===== verification/Bitmap.thy ===== *)
theory Bitmap
  imports Prelude
begin

text \<open>
  The inline operations of \<open>08.kernel-mm/kernel/include/bitmap.h\<close>, over the array of words behind
  \<open>bits\<close>. No source file uses them, and \<open>bitmap_init\<close> and \<open>bitmap_find_and_set_first_free\<close> are
  declared there but defined nowhere.
\<close>

record bitmap =
  bm_bits :: "nat \<Rightarrow> u32"
  bm_size :: u32

definition bitmap_set_bit :: "bitmap \<Rightarrow> u32 \<Rightarrow> bitmap" where
  "bitmap_set_bit m i =
     m\<lparr>bm_bits := (bm_bits m)(unat (i div 32) := bm_bits m (unat (i div 32)) OR push_bit (unat (i mod 32)) 1)\<rparr>"

definition bitmap_clear_bit :: "bitmap \<Rightarrow> u32 \<Rightarrow> bitmap" where
  "bitmap_clear_bit m i =
     m\<lparr>bm_bits := (bm_bits m)(unat (i div 32) := bm_bits m (unat (i div 32)) AND NOT (push_bit (unat (i mod 32)) 1))\<rparr>"

definition bitmap_test_bit :: "bitmap \<Rightarrow> u32 \<Rightarrow> bool" where
  "bitmap_test_bit m i \<longleftrightarrow> bm_bits m (unat (i div 32)) AND push_bit (unat (i mod 32)) 1 \<noteq> 0"

lemma bit_index:
  "unat (i div 32 :: u32) = unat i div 32" "unat (i mod 32 :: u32) = unat i mod 32"
  by (simp_all add: unat_div unat_mod)

lemma bitmap_test_bit_eq: "bitmap_test_bit m i \<longleftrightarrow> bit (bm_bits m (unat i div 32)) (unat i mod 32)"
  by (simp add: bitmap_test_bit_def bit_index bit_iff_and_push_bit_not_eq_0)

lemma same_bit: "i = j \<longleftrightarrow> unat i div 32 = unat j div 32 \<and> unat i mod 32 = unat (j :: u32) mod 32"
  by (metis div_mult_mod_eq word_unat_eq_iff)

text \<open>The three operations keep a set of numbers.\<close>

theorem bitmap_operations:
  "bitmap_test_bit (bitmap_set_bit m i) j \<longleftrightarrow> j = i \<or> bitmap_test_bit m j"
  "bitmap_test_bit (bitmap_clear_bit m i) j \<longleftrightarrow> j \<noteq> i \<and> bitmap_test_bit m j"
proof -
  have "unat j mod 32 < 32" by simp
  then show "bitmap_test_bit (bitmap_set_bit m i) j \<longleftrightarrow> j = i \<or> bitmap_test_bit m j"
    "bitmap_test_bit (bitmap_clear_bit m i) j \<longleftrightarrow> j \<noteq> i \<and> bitmap_test_bit m j"
    by (auto simp: bitmap_test_bit_eq bitmap_set_bit_def bitmap_clear_bit_def bit_index same_bit bit_simps)
qed

end
