(* ===== verification/Ram.thy ===== *)
theory Ram
  imports Prelude
begin

text \<open>
  Typed access to the byte-addressed memory: \<open>uint32_t\<close> loads and stores at any address (the
  packed structures of the heap are not aligned), little endian, with the store/load laws and
  the frame laws the heap and the ordered array rest on. Addresses are words; the laws are
  stated over naturals below \<open>2^32\<close>, where address arithmetic is plain arithmetic.
\<close>

definition load32 :: "ram \<Rightarrow> u32 \<Rightarrow> u32" where
  "load32 m a = ucast (m a) OR push_bit 8 (ucast (m (a + 1)))
     OR push_bit 16 (ucast (m (a + 2))) OR push_bit 24 (ucast (m (a + 3)))"

definition store32 :: "ram \<Rightarrow> u32 \<Rightarrow> u32 \<Rightarrow> ram" where
  "store32 m a v = m(a := ucast v, a + 1 := ucast (drop_bit 8 v),
     a + 2 := ucast (drop_bit 16 v), a + 3 := ucast (drop_bit 24 v))"

definition store8 :: "ram \<Rightarrow> u32 \<Rightarrow> u8 \<Rightarrow> ram" where
  "store8 m a v = m(a := v)"

lemma u32_bytes:
  "ucast (ucast v :: u8) OR push_bit 8 (ucast (ucast (drop_bit 8 v) :: u8))
     OR push_bit 16 (ucast (ucast (drop_bit 16 v) :: u8))
     OR push_bit 24 (ucast (ucast (drop_bit 24 v) :: u8)) = (v :: u32)"
proof (rule bit_word_eqI)
  fix n assume "n < LENGTH(32)"
  consider "n < 8" | "8 \<le> n" "n < 16" | "16 \<le> n" "n < 24" | "24 \<le> n"
    by linarith
  then show "bit (ucast (ucast v :: u8) OR push_bit 8 (ucast (ucast (drop_bit 8 v) :: u8))
     OR push_bit 16 (ucast (ucast (drop_bit 16 v) :: u8))
     OR push_bit 24 (ucast (ucast (drop_bit 24 v) :: u8)) :: u32) n \<longleftrightarrow> bit v n"
    by cases (use \<open>n < LENGTH(32)\<close> in \<open>auto simp: bit_simps\<close>)
qed

lemma load32_store32_same [simp]: "load32 (store32 m a v) a = v"
  using u32_bytes [of v] by (simp add: load32_def store32_def)

subsection \<open>Memory that agrees on a range of addresses\<close>

definition same_on :: "ram \<Rightarrow> ram \<Rightarrow> nat \<Rightarrow> nat \<Rightarrow> bool" where
  "same_on m m' lo hi \<longleftrightarrow> (\<forall>x. lo \<le> x \<longrightarrow> x < hi \<longrightarrow> m' (word_of_nat x) = m (word_of_nat x))"

lemma same_on_refl [simp]: "same_on m m lo hi"
  by (simp add: same_on_def)

lemma same_on_trans: "same_on m m' lo hi \<Longrightarrow> same_on m' m'' lo hi \<Longrightarrow> same_on m m'' lo hi"
  by (simp add: same_on_def)

lemma same_on_sub: "same_on m m' lo hi \<Longrightarrow> lo \<le> lo' \<Longrightarrow> hi' \<le> hi \<Longrightarrow> same_on m m' lo' hi'"
  by (simp add: same_on_def)

lemma same_on_byte: "same_on m m' lo hi \<Longrightarrow> lo \<le> x \<Longrightarrow> x < hi \<Longrightarrow> m' (word_of_nat x) = m (word_of_nat x)"
  by (simp add: same_on_def)

lemma load32_same_on:
  assumes "same_on m m' lo hi" "lo \<le> a" "a + 4 \<le> hi"
  shows "load32 m' (word_of_nat a) = load32 m (word_of_nat a)"
proof -
  have "m' (word_of_nat (a + i)) = m (word_of_nat (a + i))" if "i < 4" for i
    by (rule same_on_byte [OF assms(1)]) (use assms that in auto)
  from this [of 0] this [of 1] this [of 2] this [of 3] show ?thesis
    by (simp add: load32_def add.commute)
qed

lemma store32_byte_other:
  assumes "x < 4294967296" "a + 4 \<le> 4294967296" "x < a \<or> a + 4 \<le> x"
  shows "store32 m (word_of_nat a) v (word_of_nat x) = m (word_of_nat x)"
proof -
  have "(word_of_nat x :: u32) \<noteq> word_of_nat (a + i)" if "i < 4" for i
    using assms that by (subst of_nat_u32_eq_iff) auto
  from this [of 0] this [of 1] this [of 2] this [of 3] show ?thesis
    by (simp add: store32_def add.commute)
qed

lemma store32_same_on [mem_frame]:
  assumes "hi \<le> 4294967296" "a + 4 \<le> 4294967296" "hi \<le> a \<or> a + 4 \<le> lo"
  shows "same_on m (store32 m (word_of_nat a) v) lo hi"
  using assms by (auto simp: same_on_def intro!: store32_byte_other)

lemma store8_same_on [mem_frame]:
  assumes "hi \<le> 4294967296" "a < 4294967296" "hi \<le> a \<or> a < lo"
  shows "same_on m (store8 m (word_of_nat a) v) lo hi"
  using assms by (auto simp: same_on_def store8_def addr_simps)

lemma load32_store32_other [mem_frame]:
  assumes "b + 4 \<le> 4294967296" "a + 4 \<le> 4294967296" "b + 4 \<le> a \<or> a + 4 \<le> b"
  shows "load32 (store32 m (word_of_nat a) v) (word_of_nat b) = load32 m (word_of_nat b)"
  using assms by (intro load32_same_on [where lo = b and hi = "b + 4"] store32_same_on) auto

lemma load32_store8_other [mem_frame]:
  assumes "b + 4 \<le> 4294967296" "a < 4294967296" "b + 4 \<le> a \<or> a < b"
  shows "load32 (store8 m (word_of_nat a) v) (word_of_nat b) = load32 m (word_of_nat b)"
  using assms by (intro load32_same_on [where lo = b and hi = "b + 4"] store8_same_on) auto

lemma store8_same [simp]: "store8 m a v a = v"
  by (simp add: store8_def)

subsection \<open>Memory that differs on a set of addresses only\<close>

definition only_in :: "nat set \<Rightarrow> ram \<Rightarrow> ram \<Rightarrow> bool" where
  "only_in R m m' \<longleftrightarrow> (\<forall>x. unat x \<notin> R \<longrightarrow> m' x = m x)"

lemma only_in_refl [simp]: "only_in R m m"
  by (simp add: only_in_def)

lemma only_in_trans: "only_in R m m' \<Longrightarrow> only_in R m' m'' \<Longrightarrow> only_in R m m''"
  by (simp add: only_in_def)

lemma only_in_mono: "only_in R m m' \<Longrightarrow> R \<subseteq> R' \<Longrightarrow> only_in R' m m'"
  by (auto simp: only_in_def)

lemma only_in_trans_Un: "only_in R m m' \<Longrightarrow> only_in R' m' m'' \<Longrightarrow> only_in (R \<union> R') m m''"
  by (simp add: only_in_def)

lemma only_in_same_on:
  assumes "only_in R m m'" "{lo..<hi} \<inter> R = {}" "hi \<le> 4294967296"
  shows "same_on m m' lo hi"
  unfolding same_on_def
proof (intro allI impI)
  fix x assume x: "lo \<le> x" "x < hi"
  then have "unat (word_of_nat x :: u32) = x" using assms(3) by (intro unat_of_nat_u32) simp
  moreover have "x \<notin> R" using assms(2) x by auto
  ultimately show "m' (word_of_nat x) = m (word_of_nat x)" using assms(1) by (simp add: only_in_def)
qed

lemma only_in_byte:
  assumes "only_in R m m'" "x \<notin> R" "x < 4294967296"
  shows "m' (word_of_nat x) = m (word_of_nat x)"
  using assms by (simp add: only_in_def unat_of_nat_u32)

lemma only_in_load32:
  assumes "only_in R m m'" "{b..<b + 4} \<inter> R = {}" "b + 4 \<le> 4294967296"
  shows "load32 m' (word_of_nat b) = load32 m (word_of_nat b)"
  by (rule load32_same_on [OF only_in_same_on [OF assms]]) simp_all

lemma only_in_store32 [mem_frame]:
  assumes "only_in R m m'" "{a..<a + 4} \<subseteq> R" "a + 4 \<le> 4294967296"
  shows "only_in R m (store32 m' (word_of_nat a) v)"
  unfolding only_in_def
proof (intro allI impI)
  fix x :: u32 assume x: "unat x \<notin> R"
  then have "unat x < a \<or> a + 4 \<le> unat x" using assms(2) by (meson atLeastLessThan_iff not_le subsetD)
  then have "store32 m' (word_of_nat a) v (word_of_nat (unat x)) = m' (word_of_nat (unat x))"
    using assms(3) unat_u32_bound [of x] by (intro store32_byte_other) auto
  then show "store32 m' (word_of_nat a) v x = m x" using assms(1) x by (simp add: only_in_def)
qed

lemma only_in_store8 [mem_frame]:
  assumes "only_in R m m'" "a \<in> R" "a < 4294967296"
  shows "only_in R m (store8 m' (word_of_nat a) v)"
  using assms by (auto simp: only_in_def store8_def unat_of_nat_u32)

end
