(* ===== verification/Machine.thy ===== *)
theory Machine
  imports Ram
begin

text \<open>
  The i386 machine under the kernel: memory, I/O ports (\<open>include/io.h\<close>), the flags and control
  registers the kernel reads and writes, and the interrupt enable/disable wrappers of
  \<open>include/interrupt.h\<close>. Every component extends this record with its static variables, so the
  state of an operation is the state of the whole kernel below it.

  The value an input port returns and the word a \<open>va_arg\<close> past the passed arguments reads are
  not determined by the program: they are the fields \<open>in_port\<close> and \<open>stale_word\<close>, about which
  nothing is assumed.
\<close>

record machine =
  mem :: ram
  in_port :: "u16 \<Rightarrow> u8"
  stale_word :: u32
  io_log :: "(u16 \<times> u8) list"
  eflags :: u32
  cr2 :: u32
  cr3 :: u32

definition inb :: "u16 \<Rightarrow> 'a machine_scheme \<Rightarrow> u8" where
  "inb port s = in_port s port"

definition outb :: "u16 \<Rightarrow> u8 \<Rightarrow> 'a machine_scheme \<Rightarrow> 'a machine_scheme" where
  "outb port data s = s\<lparr>io_log := io_log s @ [(port, data)]\<rparr>"

text \<open>\<open>io_wait()\<close> is a write of 0 to \<open>IO_DELAY_PORT\<close>.\<close>

definition IO_DELAY_PORT :: u16 where [simp]: "IO_DELAY_PORT = 0x80"

definition io_wait :: "'a machine_scheme \<Rightarrow> 'a machine_scheme" where
  "io_wait s = outb IO_DELAY_PORT 0 s"

text \<open>IF is bit 9 of EFLAGS; \<open>sti\<close> and \<open>cli\<close> set and clear it.\<close>

definition enable_interrupts :: "'a machine_scheme \<Rightarrow> 'a machine_scheme" where
  "enable_interrupts s = s\<lparr>eflags := eflags s OR push_bit 9 1\<rparr>"

definition disable_interrupts :: "'a machine_scheme \<Rightarrow> 'a machine_scheme" where
  "disable_interrupts s = s\<lparr>eflags := eflags s AND NOT (push_bit 9 1)\<rparr>"

definition interrupts_enabled :: "'a machine_scheme \<Rightarrow> bool" where
  "interrupts_enabled s = bit (eflags s) 9"

lemma interrupts_enabled_simps [simp]:
  "interrupts_enabled (enable_interrupts s)"
  "\<not> interrupts_enabled (disable_interrupts s)"
  by (simp_all add: interrupts_enabled_def enable_interrupts_def disable_interrupts_def bit_simps)

end
