(* ===== verification/Vga.thy ===== *)
theory Vga
  imports Machine
begin

text \<open>
  \<open>08.kernel-mm/kernel/drivers/vga.c\<close>, the text screen: the 80x25 cell buffer at
  \<open>0xC00B8000\<close>, the cursor and colour, character output with wrapping and scrolling, and the
  hardware cursor. The number formatting and \<open>vga_printf\<close> are in the theory \<open>Printf\<close>.

  The buffer is a function from cell indices, so that a write outside the 2000 cells of the
  screen would be visible as a change of another cell.
\<close>

definition VGA_WIDTH :: nat where [simp]: "VGA_WIDTH = 80"
definition VGA_HEIGHT :: nat where [simp]: "VGA_HEIGHT = 25"

definition VGA_COLOR :: "u8 \<Rightarrow> u8 \<Rightarrow> u8" where
  "VGA_COLOR fg bg = push_bit 4 bg OR fg"

definition VGA_WHITE_ON_BLACK :: u8 where
  "VGA_WHITE_ON_BLACK = VGA_COLOR 15 0"

definition VGA_CRTC_ADDR :: u16 where [simp]: "VGA_CRTC_ADDR = 0x3D4"
definition VGA_CRTC_DATA :: u16 where [simp]: "VGA_CRTC_DATA = 0x3D5"
definition VGA_CRTC_CURSOR_LOC_HI :: u8 where [simp]: "VGA_CRTC_CURSOR_LOC_HI = 0x0E"
definition VGA_CRTC_CURSOR_LOC_LO :: u8 where [simp]: "VGA_CRTC_CURSOR_LOC_LO = 0x0F"

record vga_state = machine +
  VGA_BUF :: "nat \<Rightarrow> u16"
  cursor_row :: u8
  cursor_col :: u8
  current_color :: u8

definition vga_sync_cursor :: "'a vga_state_scheme \<Rightarrow> 'a vga_state_scheme" where
  "vga_sync_cursor s =
     (let cursorLocation = ucast (cursor_row s) * 80 + ucast (cursor_col s) :: u16;
          s = outb VGA_CRTC_ADDR VGA_CRTC_CURSOR_LOC_HI s;
          s = outb VGA_CRTC_DATA (ucast (drop_bit 8 cursorLocation)) s;
          s = outb VGA_CRTC_ADDR VGA_CRTC_CURSOR_LOC_LO s
      in outb VGA_CRTC_DATA (ucast cursorLocation) s)"

definition vga_move_cursor :: "u8 \<Rightarrow> u8 \<Rightarrow> 'a vga_state_scheme \<Rightarrow> 'a vga_state_scheme" where
  "vga_move_cursor row col s =
     (if unat row < VGA_HEIGHT \<and> unat col < VGA_WIDTH
      then vga_sync_cursor (s\<lparr>cursor_row := row, cursor_col := col\<rparr>) else s)"

text \<open>
  A cell holds the colour in its high byte; \<open>char\<close> is signed on i386, so the character is
  sign-extended before it is or-ed in.
\<close>

definition cell :: "u8 \<Rightarrow> char \<Rightarrow> u16" where
  "cell color c = push_bit 8 (ucast color) OR scast (of_char c :: u8)"

primrec fill_cells :: "nat \<Rightarrow> nat \<Rightarrow> u16 \<Rightarrow> (nat \<Rightarrow> u16) \<Rightarrow> nat \<Rightarrow> u16" where
  "fill_cells i 0 v buf = buf"
| "fill_cells i (Suc n) v buf = fill_cells (Suc i) n v (buf(i := v))"

primrec shift_cells :: "nat \<Rightarrow> nat \<Rightarrow> (nat \<Rightarrow> u16) \<Rightarrow> nat \<Rightarrow> u16" where
  "shift_cells i 0 buf = buf"
| "shift_cells i (Suc n) buf = shift_cells (Suc i) n (buf(i := buf (i + VGA_WIDTH)))"

definition vga_clear :: "'a vga_state_scheme \<Rightarrow> 'a vga_state_scheme" where
  "vga_clear s = vga_sync_cursor
     (s\<lparr>VGA_BUF := fill_cells 0 (VGA_WIDTH * VGA_HEIGHT) (cell (current_color s) CHR '' '') (VGA_BUF s),
        cursor_row := 0, cursor_col := 0\<rparr>)"

text \<open>The last part of \<open>vga_putc\<close>: scrolling when the cursor has left the last row.\<close>

definition vga_scroll :: "'a vga_state_scheme \<Rightarrow> 'a vga_state_scheme" where
  "vga_scroll s =
     (if unat (cursor_row s) \<ge> VGA_HEIGHT
      then s\<lparr>VGA_BUF := fill_cells ((VGA_HEIGHT - 1) * VGA_WIDTH) VGA_WIDTH
                (cell (current_color s) CHR '' '')
                (shift_cells 0 ((VGA_HEIGHT - 1) * VGA_WIDTH) (VGA_BUF s)),
             cursor_row := of_nat (VGA_HEIGHT - 1)\<rparr>
      else s)"

definition cursor_index :: "'a vga_state_scheme \<Rightarrow> nat" where
  "cursor_index s = unat (cursor_row s) * VGA_WIDTH + unat (cursor_col s)"

definition wrap_col :: "'a vga_state_scheme \<Rightarrow> 'a vga_state_scheme" where
  "wrap_col s =
     (if unat (cursor_col s) \<ge> VGA_WIDTH
      then s\<lparr>cursor_col := 0, cursor_row := cursor_row s + 1\<rparr> else s)"

text \<open>The character's effect on the buffer and the cursor, before scrolling.\<close>

definition vga_emit :: "char \<Rightarrow> 'a vga_state_scheme \<Rightarrow> 'a vga_state_scheme" where
  "vga_emit c s =
     (if c = CHR 0x0A then s\<lparr>cursor_row := cursor_row s + 1, cursor_col := 0\<rparr>
      else if c = CHR 0x0D then s\<lparr>cursor_col := 0\<rparr>
      else if c = CHR 0x09 then wrap_col (s\<lparr>cursor_col := (cursor_col s + 4) AND NOT 3\<rparr>)
      else if c = CHR 0x08 then
        (if cursor_col s > 0 then
           let s = s\<lparr>cursor_col := cursor_col s - 1\<rparr>
           in s\<lparr>VGA_BUF := (VGA_BUF s)(cursor_index s := cell (current_color s) CHR '' '')\<rparr>
         else s)
      else
        let s = s\<lparr>VGA_BUF := (VGA_BUF s)(cursor_index s := cell (current_color s) c)\<rparr>
        in wrap_col (s\<lparr>cursor_col := cursor_col s + 1\<rparr>))"

definition vga_putc :: "char \<Rightarrow> 'a vga_state_scheme \<Rightarrow> 'a vga_state_scheme" where
  "vga_putc c s = vga_sync_cursor (vga_scroll (vga_emit c s))"

text \<open>\<open>vga_write\<close> takes a pointer that may be NULL and stops at the first NUL.\<close>

fun vga_write_chars :: "string \<Rightarrow> 'a vga_state_scheme \<Rightarrow> 'a vga_state_scheme" where
  "vga_write_chars [] s = s"
| "vga_write_chars (c # cs) s = (if c = CHR 0x00 then s else vga_write_chars cs (vga_putc c s))"

definition vga_write :: "string option \<Rightarrow> 'a vga_state_scheme \<Rightarrow> 'a vga_state_scheme" where
  "vga_write p s = (case p of None \<Rightarrow> s | Some str \<Rightarrow> vga_write_chars str s)"

definition vga_set_color :: "u8 \<Rightarrow> 'a vga_state_scheme \<Rightarrow> 'a vga_state_scheme" where
  "vga_set_color color s = s\<lparr>current_color := color\<rparr>"

subsection \<open>The cursor stays on the screen\<close>

text \<open>The invariant of the driver: the cursor is on one of the 25 rows and 80 columns.\<close>

definition vga_ok :: "'a vga_state_scheme \<Rightarrow> bool" where
  "vga_ok s \<longleftrightarrow> unat (cursor_row s) < VGA_HEIGHT \<and> unat (cursor_col s) < VGA_WIDTH"

lemma vga_sync_cursor_simps [simp]:
  "cursor_row (vga_sync_cursor s) = cursor_row s"
  "cursor_col (vga_sync_cursor s) = cursor_col s"
  "VGA_BUF (vga_sync_cursor s) = VGA_BUF s"
  "current_color (vga_sync_cursor s) = current_color s"
  "vga_ok (vga_sync_cursor s) = vga_ok s"
  by (simp_all add: vga_sync_cursor_def outb_def Let_def vga_ok_def)

lemma fill_cells_nth: "fill_cells i n v buf j = (if i \<le> j \<and> j < i + n then v else buf j)"
  by (induction n arbitrary: i buf) auto

lemma shift_cells_nth: "shift_cells i n buf j = (if i \<le> j \<and> j < i + n then buf (j + VGA_WIDTH) else buf j)"
  by (induction n arbitrary: i buf) auto

lemma tab_cols: "\<forall>k \<in> set [0..<80]. unat ((word_of_nat k + 4 :: u8) AND NOT 3) = 4 * (k div 4) + 4"
  by code_simp

lemma tab_col: "unat (c :: u8) < 80 \<Longrightarrow> unat ((c + 4) AND NOT 3) = 4 * (unat c div 4) + 4"
  using tab_cols [THEN bspec, of "unat c"] by simp

text \<open>What \<open>vga_emit\<close> leaves: a cursor at most one row below the screen, and the same cells
  outside the screen.\<close>

lemma wrap_col_pre:
  "unat (cursor_row s) < 25 \<Longrightarrow> unat (cursor_col s) \<le> 80 \<Longrightarrow>
   unat (cursor_row (wrap_col s)) \<le> 25 \<and> unat (cursor_col (wrap_col s)) < 80
   \<and> VGA_BUF (wrap_col s) = VGA_BUF s"
  by (auto simp: wrap_col_def unat_inc_u8)

lemma vga_emit_pre:
  assumes "vga_ok s"
  shows "unat (cursor_row (vga_emit c s)) \<le> 25 \<and> unat (cursor_col (vga_emit c s)) < 80
    \<and> (\<forall>j \<ge> 2000. VGA_BUF (vga_emit c s) j = VGA_BUF s j)"
proof -
  have rc: "unat (cursor_row s) < 25" "unat (cursor_col s) < 80"
    using assms by (simp_all add: vga_ok_def)
  then have idx: "unat (cursor_row s) * 80 + unat (cursor_col s) < 2000"
    "unat (cursor_row s) * 80 + (unat (cursor_col s) - 1) < 2000"
    "unat (cursor_col s) - Suc 0 < 80" by linarith+
  have "4 * (n div 4) + 4 \<le> 80" if "n < 80" for n :: nat using that by presburger
  then have tab: "4 * (unat (cursor_col s) div 4) + 4 \<le> 80" using rc(2) by blast
  show ?thesis
    using rc idx tab wrap_col_pre [of "s\<lparr>cursor_col := (cursor_col s + 4) AND NOT 3\<rparr>"]
      wrap_col_pre [of "s\<lparr>VGA_BUF := (VGA_BUF s)(cursor_index s := cell (current_color s) c),
         cursor_col := cursor_col s + 1\<rparr>"]
    by (simp add: vga_emit_def Let_def unat_inc_u8 unat_dec_u8 tab_col [simplified] cursor_index_def)
qed

lemma vga_scroll_ok:
  assumes "unat (cursor_row s) \<le> 25" "unat (cursor_col s) < 80"
  shows "vga_ok (vga_scroll s)" "\<forall>j \<ge> 2000. VGA_BUF (vga_scroll s) j = VGA_BUF s j"
  using assms by (auto simp: vga_scroll_def vga_ok_def fill_cells_nth shift_cells_nth)

lemma vga_putc_ok: "vga_ok s \<Longrightarrow> vga_ok (vga_putc c s)"
  using vga_emit_pre [of s c] by (simp add: vga_putc_def vga_scroll_ok)

lemma vga_putc_bounds: "vga_ok s \<Longrightarrow> 2000 \<le> j \<Longrightarrow> VGA_BUF (vga_putc c s) j = VGA_BUF s j"
  using vga_emit_pre [of s c] by (simp add: vga_putc_def vga_scroll_ok)

lemma vga_write_chars_ok: "vga_ok s \<Longrightarrow> vga_ok (vga_write_chars str s)"
  by (induction str s rule: vga_write_chars.induct) (auto simp: vga_putc_ok)

lemma vga_write_chars_bounds:
  "vga_ok s \<Longrightarrow> 2000 \<le> j \<Longrightarrow> VGA_BUF (vga_write_chars str s) j = VGA_BUF s j"
  by (induction str s rule: vga_write_chars.induct) (auto simp: vga_putc_ok vga_putc_bounds)

subsection \<open>Scrolling\<close>

text \<open>The screen as a list of rows: scrolling drops the first and appends a blank one.\<close>

definition screen_row :: "'a vga_state_scheme \<Rightarrow> nat \<Rightarrow> u16 list" where
  "screen_row s r = map (\<lambda>c. VGA_BUF s (r * VGA_WIDTH + c)) [0..<VGA_WIDTH]"

definition screen_rows :: "'a vga_state_scheme \<Rightarrow> u16 list list" where
  "screen_rows s = map (screen_row s) [0..<VGA_HEIGHT]"

lemma vga_scroll_rows:
  assumes "unat (cursor_row s) = 25"
  shows "screen_rows (vga_scroll s) = tl (screen_rows s) @ [replicate 80 (cell (current_color s) CHR '' '')]"
proof (rule nth_equalityI)
  show "length (screen_rows (vga_scroll s)) = length (tl (screen_rows s) @ [replicate 80 (cell (current_color s) CHR '' '')])"
    by (simp add: screen_rows_def)
next
  fix r assume "r < length (screen_rows (vga_scroll s))"
  then have r: "r < 25" by (simp add: screen_rows_def)
  show "screen_rows (vga_scroll s) ! r = (tl (screen_rows s) @ [replicate 80 (cell (current_color s) CHR '' '')]) ! r"
  proof (cases "r < 24")
    case True
    then have "(tl (screen_rows s) @ [x]) ! r = screen_row s (Suc r)" for x
      by (simp add: screen_rows_def nth_append nth_tl del: upt_Suc)
    moreover have "screen_row (vga_scroll s) r = screen_row s (Suc r)"
      using True assms by (auto simp: screen_row_def vga_scroll_def fill_cells_nth shift_cells_nth algebra_simps)
    ultimately show ?thesis using r by (simp add: screen_rows_def)
  next
    case False
    with r have "r = 24" by simp
    moreover have "screen_row (vga_scroll s) 24 = replicate 80 (cell (current_color s) CHR '' '')"
      using assms by (intro nth_equalityI) (auto simp: screen_row_def vga_scroll_def fill_cells_nth)
    ultimately show ?thesis by (simp add: screen_rows_def nth_append del: upt_Suc)
  qed
qed

subsection \<open>The hardware cursor\<close>

text \<open>The cursor position that the last four port writes of a log program, if they do.\<close>

definition hw_cursor :: "(u16 \<times> u8) list \<Rightarrow> nat option" where
  "hw_cursor log = (case rev log of
      (p4, lo) # (p3, i4) # (p2, hi) # (p1, i2) # _ \<Rightarrow>
        if p1 = VGA_CRTC_ADDR \<and> i2 = VGA_CRTC_CURSOR_LOC_HI \<and> p2 = VGA_CRTC_DATA
           \<and> p3 = VGA_CRTC_ADDR \<and> i4 = VGA_CRTC_CURSOR_LOC_LO \<and> p4 = VGA_CRTC_DATA
        then Some (256 * unat hi + unat lo) else None
    | _ \<Rightarrow> None)"


lemma vga_sync_cursor_hw: "hw_cursor (io_log (vga_sync_cursor s)) = Some (cursor_index s)"
proof -
  have "unat (cursor_row s) < 256" "unat (cursor_col s) < 256"
    using unsigned_less [of "cursor_row s"] unsigned_less [of "cursor_col s"] by simp_all
  then have "unat (ucast (cursor_row s) * 80 + ucast (cursor_col s) :: u16) = cursor_index s"
    by (simp add: unat_word_ariths unsigned_ucast_eq take_bit_eq_mod cursor_index_def)
  then show ?thesis
    using u16_bytes [of "ucast (cursor_row s) * 80 + ucast (cursor_col s)"]
    by (simp add: hw_cursor_def vga_sync_cursor_def outb_def Let_def)
qed


subsection \<open>Cells\<close>

text \<open>
  An ASCII character keeps its colour; a byte from 128 on is sign-extended over it.
\<close>

lemma cell_high:
  assumes "128 \<le> (of_char c :: u8)"
  shows "drop_bit 8 (cell color c) = mask 8"
proof -
  have "bit (of_char c :: u8) 7" using assms by (simp add: u8_sign_bit)
  then show ?thesis
    by (intro bit_word_eqI) (auto simp: cell_def bit_simps min_def)
qed

lemma cell_low:
  assumes "(of_char c :: u8) < 128"
  shows "drop_bit 8 (cell color c) = ucast color \<and> (ucast (cell color c) :: u8) = of_char c"
proof -
  have no: "\<not> bit (of_char c :: u8) 7" using assms by (simp add: u8_sign_bit)
  have "drop_bit 8 (cell color c) = ucast color"
    by (rule bit_word_eqI) (use no in \<open>auto simp: cell_def bit_simps min_def dest: bit_imp_le_length\<close>)
  moreover have "(ucast (cell color c) :: u8) = of_char c"
  proof (rule bit_word_eqI)
    fix n assume "n < LENGTH(8)"
    then show "bit (ucast (cell color c) :: u8) n \<longleftrightarrow> bit (of_char c :: u8) n"
      by (cases "n = 7") (auto simp: cell_def bit_simps min_def)
  qed
  ultimately show ?thesis by simp
qed

subsection \<open>Text on one row\<close>

definition printable :: "char \<Rightarrow> bool" where
  "printable c \<longleftrightarrow> (32 :: nat) \<le> of_char c \<and> (of_char c :: nat) < 127"

lemma vga_putc_printable:
  assumes "printable c" "vga_ok s" "unat (cursor_col s) + 1 < 80"
  shows "cursor_row (vga_putc c s) = cursor_row s"
   "unat (cursor_col (vga_putc c s)) = unat (cursor_col s) + 1"
   "current_color (vga_putc c s) = current_color s"
   "VGA_BUF (vga_putc c s) = (VGA_BUF s)(cursor_index s := cell (current_color s) c)"
proof -
  have ne: "c \<noteq> CHR 0x0A" "c \<noteq> CHR 0x0D" "c \<noteq> CHR 0x09" "c \<noteq> CHR 0x08"
    using assms(1) by (auto simp: printable_def)
  have "unat (cursor_col s + 1) = unat (cursor_col s) + 1" using assms by (simp add: unat_inc_u8)
  then show "cursor_row (vga_putc c s) = cursor_row s"
   "unat (cursor_col (vga_putc c s)) = unat (cursor_col s) + 1"
   "current_color (vga_putc c s) = current_color s"
   "VGA_BUF (vga_putc c s) = (VGA_BUF s)(cursor_index s := cell (current_color s) c)"
    using ne assms by (auto simp: vga_putc_def vga_emit_def wrap_col_def vga_scroll_def vga_ok_def cursor_index_def Let_def)
qed

theorem vga_write_line:
  assumes "vga_ok s" "list_all printable str" "unat (cursor_col s) + length str < 80"
  shows "VGA_BUF (vga_write (Some str) s) j =
     (if cursor_index s \<le> j \<and> j < cursor_index s + length str
      then cell (current_color s) (str ! (j - cursor_index s)) else VGA_BUF s j)
    \<and> cursor_index (vga_write (Some str) s) = cursor_index s + length str"
proof -
  have "VGA_BUF (vga_write_chars str s) j =
     (if cursor_index s \<le> j \<and> j < cursor_index s + length str
      then cell (current_color s) (str ! (j - cursor_index s)) else VGA_BUF s j)
    \<and> cursor_index (vga_write_chars str s) = cursor_index s + length str"
    using assms
  proof (induction str arbitrary: s)
    case (Cons c str)
    have c: "printable c" "unat (cursor_col s) + 1 < 80" using Cons.prems by simp_all
    note p = vga_putc_printable [OF c(1) Cons.prems(1) c(2)]
    have ci: "cursor_index (vga_putc c s) = Suc (cursor_index s)" using p by (simp add: cursor_index_def)
    have "c \<noteq> CHR 0x00" using c by (auto simp: printable_def)
    with Cons.IH [of "vga_putc c s"] Cons.prems p ci show ?case
      by (auto simp: vga_putc_ok nth_Cons')
  qed auto
  then show ?thesis by (simp add: vga_write_def)
qed

end
