(* ===== verification/Printf.thy ===== *)
theory Printf
  imports Vga
begin

text \<open>
  The number formatting and \<open>vga_printf\<close> of \<open>08.kernel-mm/kernel/drivers/vga.c\<close>.

  A conversion routine fills a caller's buffer of \<open>buf_size\<close> bytes from the front and ends it
  with a NUL; the model is the string in the buffer (\<open>buf[0..p)\<close>), and \<open>length acc\<close> is the
  write pointer \<open>p\<close>. The last argument is the string the buffer holds before the call, which a
  call with \<open>buf_size = 0\<close> leaves. Proved: each routine prints the numeral of its argument,
  it never fills the byte of the terminating NUL, and \<open>vga_printf\<close> keeps the cursor on the
  screen.
\<close>

definition digit_char :: "nat \<Rightarrow> char" where
  "digit_char digit = (if digit < 10 then char_of (48 + digit) else char_of (97 + (digit - 10)))"

text \<open>The in-place reversal \<open>for (a = buf, b = p - 1; a < b; a++, b--)\<close>.\<close>

function reverse_loop :: "int \<Rightarrow> int \<Rightarrow> string \<Rightarrow> string" where
  "reverse_loop a b buf =
     (if a < b then reverse_loop (a + 1) (b - 1) (buf[nat a := buf ! nat b, nat b := buf ! nat a])
      else buf)"
  by pat_completeness auto
termination
  by (relation "measure (\<lambda>(a, b, buf). nat (b - a))") auto

declare reverse_loop.simps [simp del]

definition reverse_buf :: "string \<Rightarrow> string" where
  "reverse_buf buf = reverse_loop 0 (int (length buf) - 1) buf"

subsection \<open>Digit loops\<close>

text \<open>\<open>cap\<close> is \<open>buf_size - 1\<close>: the loop breaks when the write pointer has reached it.\<close>

function hex_loop :: "nat \<Rightarrow> 'a::len word \<Rightarrow> string \<Rightarrow> string" where
  "hex_loop cap value acc =
     (if length acc \<ge> cap then acc
      else let acc = acc @ [digit_char (unat (value AND 0xF))]; value' = drop_bit 4 value
           in if value' \<noteq> 0 then hex_loop cap value' acc else acc)"
  by pat_completeness auto
termination
  by (relation "measure (\<lambda>(cap, value, acc). cap - length acc)") auto

function dec_loop :: "nat \<Rightarrow> u32 \<Rightarrow> string \<Rightarrow> string" where
  "dec_loop cap value acc =
     (if length acc \<ge> cap then acc
      else let acc = acc @ [digit_char (unat (value mod 10))]; value' = value div 10
           in if value' \<noteq> 0 then dec_loop cap value' acc else acc)"
  by pat_completeness auto
termination
  by (relation "measure (\<lambda>(cap, value, acc). cap - length acc)") auto

declare hex_loop.simps [simp del] dec_loop.simps [simp del]

text \<open>
  The decimal digits of a 64-bit value are found by subtracting powers of ten from a table;
  with a power of 0 the subtraction would not end, and the table holds none.
\<close>

function sub_loop :: "u64 \<Rightarrow> u64 \<Rightarrow> nat \<Rightarrow> u64 \<times> nat" where
  "sub_loop pw value digit =
     (if pw \<noteq> 0 \<and> value \<ge> pw then sub_loop pw (value - pw) (Suc digit)
      else (value, digit))"
  by pat_completeness auto
termination
  by (relation "measure (\<lambda>(pw, value, digit). unat value)")
    (auto simp: unat_sub word_le_nat_alt simp flip: unat_gt_0)

declare sub_loop.simps [simp del]

definition powers :: "u64 list" where
  "powers = [10000000000000000000, 1000000000000000000, 100000000000000000,
     10000000000000000, 1000000000000000, 100000000000000, 10000000000000, 1000000000000,
     100000000000, 10000000000, 1000000000, 100000000, 10000000, 1000000, 100000, 10000,
     1000, 100, 10, 1]"

fun powers_loop :: "nat \<Rightarrow> u64 list \<Rightarrow> u64 \<Rightarrow> bool \<Rightarrow> string \<Rightarrow> string" where
  "powers_loop cap [] value leading_zero acc = acc"
| "powers_loop cap (pw # ps) value leading_zero acc =
     (if length acc \<ge> cap then acc
      else let (value', digit) = sub_loop pw value 0
           in if leading_zero \<and> digit = 0 then powers_loop cap ps value' leading_zero acc
              else powers_loop cap ps value' False (acc @ [char_of (48 + digit)]))"

subsection \<open>The conversion routines\<close>

definition vga_ulltoa :: "u64 \<Rightarrow> nat \<Rightarrow> nat \<Rightarrow> string \<Rightarrow> string" where
  "vga_ulltoa value base buf_size old =
     (if buf_size = 0 then old
      else let cap = buf_size - 1 in
        if base = 16 then
          reverse_buf (if value = 0 then (if 0 < cap then ''0'' else '''') else hex_loop cap value '''')
        else if base = 10 then
          (if value = 0 then (if 0 < cap then ''0'' else '''')
           else powers_loop cap powers value True '''')
        else (if 0 < cap then ''?'' else ''''))"

definition vga_utoa :: "u32 \<Rightarrow> nat \<Rightarrow> nat \<Rightarrow> string \<Rightarrow> string" where
  "vga_utoa value base buf_size old =
     (if buf_size = 0 then old
      else let cap = buf_size - 1 in
        if value = 0 then (if 0 < cap then ''0'' else '''')
        else reverse_buf
          (if base = 16 then hex_loop cap value ''''
           else if base = 10 then dec_loop cap value ''''
           else (if 0 < cap then ''?'' else '''')))"

text \<open>The right shift \<open>for (i = len; i > 0; i--) buf[i] = buf[i - 1]\<close> that makes room for the sign.\<close>

primrec shift_right :: "nat \<Rightarrow> string \<Rightarrow> string" where
  "shift_right 0 buf = buf"
| "shift_right (Suc i) buf = shift_right i (buf[Suc i := buf ! i])"

definition c_str :: "string \<Rightarrow> string" where
  "c_str buf = takeWhile (\<lambda>c. c \<noteq> CHR 0x00) buf"

definition vga_itoa :: "u32 \<Rightarrow> nat \<Rightarrow> nat \<Rightarrow> string \<Rightarrow> string" where
  "vga_itoa value base buf_size old =
     (if buf_size = 0 then old
      else let is_negative = (base = 10 \<and> sint value < 0);
               value = (if is_negative then - value else value);
               str = vga_utoa value base buf_size old;
               len = length str
           in if is_negative \<and> len + 1 < buf_size
              then c_str (((shift_right len (str @ [CHR 0x00, CHR 0x00]))[0 := CHR ''-''])
                            [len + 1 := CHR 0x00])
              else str)"

fun scale_loop :: "u64 \<Rightarrow> nat \<Rightarrow> nat \<Rightarrow> nat" where
  "scale_loop bytes i 0 = i"
| "scale_loop bytes i (Suc n) =
     (if bytes < push_bit (10 * (i + 1)) 1 then i else scale_loop bytes (i + 1) n)"

definition units :: string where
  "units = ''BKMGT''"

definition vga_human_size :: "u64 \<Rightarrow> nat \<Rightarrow> string" where
  "vga_human_size bytes buf_size =
     (let scale = scale_loop bytes 0 4;
          whole = drop_bit (scale * 10) bytes;
          remainder = bytes AND (push_bit (scale * 10) 1 - 1);
          frac = (if scale > 0 \<and> remainder > 0 then drop_bit (scale * 10) (remainder * 10) else 0);
          tmp = vga_ulltoa whole 10 32 '''';
          len = length tmp
      in if len \<ge> buf_size then ''''
         else let str = (if frac > 0 \<and> len + 3 < buf_size
                         then tmp @ [CHR ''.'', char_of (48 + unat frac)] else tmp)
              in if length str + 2 \<le> buf_size then str @ [units ! scale] else str)"

subsection \<open>Variable arguments\<close>

text \<open>
  On i386 the variable arguments are the 32-bit words above the format on the stack: a 64-bit
  argument is two of them, low word first. Reading past the arguments that were passed yields
  whatever the stack holds there (\<open>stale_word\<close>). String arguments are the strings they point
  to, or \<open>None\<close> for NULL; a \<open>%s\<close> whose argument is an integer is not modelled further than
  as NULL.
\<close>

datatype va = Word u32 | Str "string option"

definition va_long :: "u64 \<Rightarrow> va list" where
  "va_long v = [Word (ucast v), Word (ucast (drop_bit 32 v))]"

fun va_u32 :: "'a machine_scheme \<Rightarrow> va list \<Rightarrow> u32 \<times> va list" where
  "va_u32 s [] = (stale_word s, [])"
| "va_u32 s (Word w # args) = (w, args)"
| "va_u32 s (Str p # args) = (stale_word s, args)"

definition va_u64 :: "'a machine_scheme \<Rightarrow> va list \<Rightarrow> u64 \<times> va list" where
  "va_u64 s args =
     (let (lo, args) = va_u32 s args; (hi, args) = va_u32 s args
      in (ucast lo OR push_bit 32 (ucast hi), args))"

fun va_str :: "'a machine_scheme \<Rightarrow> va list \<Rightarrow> string option \<times> va list" where
  "va_str s [] = (None, [])"
| "va_str s (Word w # args) = (None, args)"
| "va_str s (Str p # args) = (p, args)"

subsection \<open>vga_printf\<close>

text \<open>
  One conversion: the characters after the \<open>%\<close>, the arguments and the state, giving the rest of
  the format, the rest of the arguments and the new state. \<open>None\<close> as the rest means that the
  loop's \<open>p++\<close> has stepped over the terminating NUL, after which the code goes on reading
  whatever follows the format in memory.
\<close>

definition print_u32 :: "u32 \<Rightarrow> nat \<Rightarrow> 'a vga_state_scheme \<Rightarrow> 'a vga_state_scheme" where
  "print_u32 v base s = vga_write (Some (vga_utoa v base 64 [])) s"

definition print_i32 :: "u32 \<Rightarrow> 'a vga_state_scheme \<Rightarrow> 'a vga_state_scheme" where
  "print_i32 v s = vga_write (Some (vga_itoa v 10 64 [])) s"

definition print_u64 :: "u64 \<Rightarrow> nat \<Rightarrow> 'a vga_state_scheme \<Rightarrow> 'a vga_state_scheme" where
  "print_u64 v base s = vga_write (Some (vga_ulltoa v base 64 [])) s"

type_synonym 'a printf_next = "string option \<times> va list \<times> 'a"

text \<open>The formats that start with \<open>%l\<close>.\<close>

definition printf_long ::
  "string \<Rightarrow> va list \<Rightarrow> 'a vga_state_scheme \<Rightarrow> 'a vga_state_scheme printf_next" where
  "printf_long ds args s =
     (case ds of
        [] \<Rightarrow> (None, args, vga_putc CHR ''l'' (vga_putc CHR ''%'' s))
      | e # es \<Rightarrow>
          if e = CHR ''l'' then
            (case es of
               [] \<Rightarrow> (None, args, vga_write (Some ''%ll'') s)
             | f # fs \<Rightarrow>
                 if f = CHR ''u'' \<or> f = CHR ''x'' \<or> f = CHR ''X'' then
                   let (v, args) = va_u64 s args
                   in (Some fs, args, print_u64 v (if f = CHR ''u'' then 10 else 16) s)
                 else if f = CHR ''d'' \<or> f = CHR ''i'' then
                   let (v, args) = va_u64 s args
                   in (Some fs, args,
                       if sint v < 0 then print_u64 (- v) 10 (vga_putc CHR ''-'' s)
                       else print_u64 v 10 s)
                 else (Some fs, args, vga_putc f (vga_write (Some ''%ll'') s)))
          else if e = CHR ''u'' \<or> e = CHR ''x'' \<or> e = CHR ''X'' then
            let (v, args) = va_u32 s args
            in (Some es, args, print_u32 v (if e = CHR ''u'' then 10 else 16) s)
          else if e = CHR ''d'' \<or> e = CHR ''i'' then
            let (v, args) = va_u32 s args in (Some es, args, print_i32 v s)
          else (Some es, args, vga_putc e (vga_putc CHR ''l'' (vga_putc CHR ''%'' s))))"

definition print_pointer :: "u32 \<Rightarrow> 'a vga_state_scheme \<Rightarrow> 'a vga_state_scheme" where
  "print_pointer v s =
     (let s = vga_write (Some ''0x'') s;
          buf = vga_utoa v 16 64 [];
          s = vga_write (Some (replicate (8 - length buf) CHR ''0'')) s
      in vga_write (Some buf) s)"

definition printf_conv ::
  "char \<Rightarrow> string \<Rightarrow> va list \<Rightarrow> 'a vga_state_scheme \<Rightarrow> 'a vga_state_scheme printf_next" where
  "printf_conv d ds args s =
     (if d = CHR ''c'' then
        let (v, args) = va_u32 s args in (Some ds, args, vga_putc (char_of (unat (ucast v :: u8))) s)
      else if d = CHR ''s'' then
        let (p, args) = va_str s args
        in (Some ds, args, vga_write (Some (case p of None \<Rightarrow> ''(null)'' | Some str \<Rightarrow> str)) s)
      else if d = CHR ''d'' \<or> d = CHR ''i'' then
        let (v, args) = va_u32 s args in (Some ds, args, print_i32 v s)
      else if d = CHR ''u'' then
        let (v, args) = va_u32 s args in (Some ds, args, print_u32 v 10 s)
      else if d = CHR ''x'' \<or> d = CHR ''X'' then
        let (v, args) = va_u32 s args in (Some ds, args, print_u32 v 16 s)
      else if d = CHR ''h'' then
        let (v, args) = va_u64 s args in (Some ds, args, vga_write (Some (vga_human_size v 64)) s)
      else if d = CHR ''l'' then printf_long ds args s
      else if d = CHR ''p'' then
        let (v, args) = va_u32 s args in (Some ds, args, print_pointer v s)
      else if d = CHR ''%'' then (Some ds, args, vga_putc CHR ''%'' s)
      else (Some ds, args, vga_putc d (vga_putc CHR ''%'' s)))"

text \<open>
  The loop over the format. The recursion consumes the format; the fuel is its length, which
  \<open>printf_loop_defined\<close> below shows to be enough.
\<close>

fun printf_loop ::
  "nat \<Rightarrow> string \<Rightarrow> va list \<Rightarrow> 'a vga_state_scheme \<Rightarrow> 'a vga_state_scheme option" where
  "printf_loop fuel [] args s = Some s"
| "printf_loop 0 (c # cs) args s = None"
| "printf_loop (Suc fuel) (c # cs) args s =
     (if c \<noteq> CHR ''%'' then printf_loop fuel cs args (vga_putc c s)
      else case cs of
        [] \<Rightarrow> Some s
      | d # ds \<Rightarrow>
          (case printf_conv d ds args s of
             (None, args, s) \<Rightarrow> None
           | (Some rest, args, s) \<Rightarrow> printf_loop fuel rest args s))"

definition vga_printf ::
  "string option \<Rightarrow> va list \<Rightarrow> 'a vga_state_scheme \<Rightarrow> 'a vga_state_scheme option" where
  "vga_printf fmt args s =
     (case fmt of None \<Rightarrow> Some s | Some str \<Rightarrow> printf_loop (length str) str args s)"

text \<open>
  The calls of the kernel pass literal formats, none of which ends in an unfinished \<open>%l\<close>.
\<close>

definition printk :: "string \<Rightarrow> va list \<Rightarrow> 'a vga_state_scheme \<Rightarrow> 'a vga_state_scheme" where
  "printk fmt args s = (case vga_printf (Some fmt) args s of None \<Rightarrow> s | Some s' \<Rightarrow> s')"

text \<open>The demonstration of the formats; \<open>dummy\<close> is the address of its local variable.\<close>

definition vga_test_printf :: "u32 \<Rightarrow> 'a vga_state_scheme \<Rightarrow> 'a vga_state_scheme" where
  "vga_test_printf dummy s =
     (let s = vga_clear s;
          s = vga_set_color VGA_WHITE_ON_BLACK s;
          s = vga_write (Some ''==== vga_printf Test Start ====\<newline>\<newline>'') s;
          s = vga_write (Some ''[1] Basic Types:\<newline>'') s;
          s = printk ''Char: %c\<newline>'' [Word (of_char CHR ''A'')] s;
          s = printk ''String: %s\<newline>'' [Str (Some ''Hello VGA!'')] s;
          s = printk ''Signed %%d: %d\<newline>'' [Word (- 12345)] s;
          s = printk ''Unsigned %%u: %u\<newline>'' [Word 12345] s;
          s = printk ''Hex %%x: %x\<newline>'' [Word 0xdeadbeef] s;
          s = printk ''Percent: %%\<newline>\<newline>'' [] s;
          s = vga_write (Some ''[2] Pointer %%p Test:\<newline>'') s;
          s = printk ''Pointer: %p\<newline>\<newline>'' [Word dummy] s;
          s = vga_write (Some ''[3] 64-bit Integer Test:\<newline>'') s;
          s = printk ''uint64 hex %%llx: %llx\<newline>'' (va_long 0x1234567887654321) s;
          s = printk ''uint64 dec %%llu: %llu\<newline>'' (va_long 0x1234567887654321) s;
          s = printk ''int64  dec %%lld: %lld\<newline>\<newline>'' (va_long (- 987654321012345)) s;
          s = vga_write (Some ''[4] Custom %%h Test:\<newline>'') s;
          s = printk ''512 B: %h\<newline>'' (va_long 512) s;
          s = printk ''4 KB: %h\<newline>'' (va_long 4096) s;
          s = printk ''6 MB: %h\<newline>'' (va_long (6 * 1024 * 1024)) s;
          s = printk ''3 GB: %h\<newline>'' (va_long (3 * 1024 * 1024 * 1024)) s;
          s = vga_write (Some ''\<newline>'') s;
          s = vga_write (Some ''[5] Control Chars:\<newline>'') s;
          s = printk (''TAB:'' @ [CHR 0x09] @ ''END\<newline>'') [] s;
          s = printk (''Backspace: ABC'' @ [CHR 0x08] @ ''D (should be ABD)\<newline>\<newline>'') [] s
      in vga_write (Some ''==== vga_printf Test End ====\<newline>'') s)"

subsection \<open>Numerals\<close>

text \<open>The reference: the numeral of a number in a base, most significant digit first.\<close>

fun numeral_of :: "nat \<Rightarrow> nat \<Rightarrow> string" where
  "numeral_of b n = (if b \<le> 1 \<or> n < b then [digit_char n] else numeral_of b (n div b) @ [digit_char (n mod b)])"

declare numeral_of.simps [simp del]

lemma num_small: "n < b \<Longrightarrow> numeral_of b n = [digit_char n]"
  by (simp add: numeral_of.simps)

lemma num_step: "1 < b \<Longrightarrow> b \<le> n \<Longrightarrow> numeral_of b n = numeral_of b (n div b) @ [digit_char (n mod b)]"
  by (subst numeral_of.simps) simp

lemma reverse_loop_mid:
  "reverse_loop (int (length xs)) (int (length xs + length mid) - 1) (xs @ mid @ ys) = xs @ rev mid @ ys"
proof (induction mid arbitrary: xs ys rule: length_induct)
  case (1 mid)
  consider "mid = []" | x where "mid = [x]" | x m y where "mid = x # m @ [y]"
    by (metis list.exhaust rev_exhaust)
  then show ?case
  proof cases
    case (3 x m y)
    have swap: "(xs @ (x # m @ [y]) @ ys)[length xs := y, length xs + length m + 1 := x]
        = (xs @ [y]) @ m @ (x # ys)"
      by (simp add: list_update_append)
    have IH: "reverse_loop (int (length (xs @ [y]))) (int (length (xs @ [y]) + length m) - 1)
        ((xs @ [y]) @ m @ (x # ys)) = (xs @ [y]) @ rev m @ (x # ys)"
      using 1 [rule_format, of m "xs @ [y]" "x # ys"] 3 by simp
    have idx: "nat (int (length xs)) = length xs" "nat (int (length xs) + int (length m) + 1) = length xs + length m + 1"
      by simp_all
    have nths: "(xs @ (x # m @ [y]) @ ys) ! (length xs + length m + 1) = y"
      "(xs @ (x # m @ [y]) @ ys) ! length xs = x" by (simp_all add: nth_append)
    show ?thesis
      unfolding 3
      using swap IH nths idx by (subst reverse_loop.simps) (simp add: algebra_simps)
  qed (simp_all add: reverse_loop.simps)
qed

lemma reverse_buf_rev [simp]: "reverse_buf buf = rev buf"
  using reverse_loop_mid [of "[]" buf "[]"] by (simp add: reverse_buf_def)

lemma dec_loop_spec:
  "length acc \<le> cap \<Longrightarrow> dec_loop cap v acc = take cap (acc @ rev (numeral_of 10 (unat v)))"
proof (induction cap v acc rule: dec_loop.induct)
  case (1 cap v acc)
  show ?case
  proof (cases "length acc = cap")
    case False
    with 1 have lt: "length acc < cap" by simp
    have v': "unat (v div 10) = unat v div 10" "unat (v mod 10) = unat v mod 10"
      by (simp_all add: unat_div unat_mod)
    show ?thesis
    proof (cases "v div 10 = 0")
      case True
      then have "unat v div 10 = 0" using v'(1) by simp
      then have "unat v < 10" by simp
      then show ?thesis using lt True v'
        by (simp add: dec_loop.simps [of cap v acc] num_small)
    next
      case False
      then have "unat v div 10 \<noteq> 0" using v'(1) by (metis unat_eq_0)
      then have "10 \<le> unat v" by simp
      then show ?thesis using lt False v' 1
        by (simp add: dec_loop.simps [of cap v acc] num_step)
    qed
  qed (simp add: dec_loop.simps [of cap v acc])
qed

lemma hex_loop_spec:
  fixes v :: "'a::len word"
  assumes "4 \<le> LENGTH('a)"
  shows "length acc \<le> cap \<Longrightarrow> hex_loop cap v acc = take cap (acc @ rev (numeral_of 16 (unat v)))"
proof (induction cap v acc rule: hex_loop.induct)
  case (1 cap v acc)
  show ?case
  proof (cases "length acc = cap")
    case False
    with 1 have lt: "length acc < cap" by simp
    have "v AND 0xF = take_bit 4 v" by (simp add: take_bit_eq_mask mask_eq_exp_minus_1)
    then have "unat (v AND 0xF) = take_bit 4 (unat v)" by (simp only: unsigned_take_bit_eq)
    moreover have "unat (drop_bit 4 v) = drop_bit 4 (unat v)" by (rule unat_drop_bit_eq)
    ultimately have v': "unat (drop_bit 4 v) = unat v div 16" "unat (v AND 0xF) = unat v mod 16"
      by (simp_all only: drop_bit_eq_div take_bit_eq_mod) simp_all
    show ?thesis
    proof (cases "drop_bit 4 v = 0")
      case True
      then have "unat v div 16 = 0" using v'(1) by simp
      then have "unat v < 16" by simp
      then show ?thesis using lt True v'
        by (simp add: hex_loop.simps [of cap v acc] num_small)
    next
      case False
      then have "unat v div 16 \<noteq> 0" using v'(1) by (metis unat_eq_0)
      then have "16 \<le> unat v" by simp
      then show ?thesis using lt False v' 1
        by (simp add: hex_loop.simps [of cap v acc] num_step)
    qed
  qed (simp add: hex_loop.simps [of cap v acc])
qed

lemma length_num: "1 < b \<Longrightarrow> n < b ^ k \<Longrightarrow> 0 < k \<Longrightarrow> length (numeral_of b n) \<le> k"
proof (induction k arbitrary: n)
  case (Suc k)
  show ?case
  proof (cases "n < b")
    case False
    with Suc.prems have "n div b < b ^ k" "0 < k"
      by (simp_all add: less_mult_imp_div_less mult.commute) (cases k; simp)
    with Suc.IH [of "n div b"] False Suc.prems show ?thesis by (simp add: num_step)
  qed (use Suc in \<open>simp add: num_small\<close>)
qed simp

lemma num_pos: "numeral_of b n \<noteq> []"
  by (subst numeral_of.simps) simp

lemma set_num: "2 \<le> b \<Longrightarrow> set (numeral_of b n) \<subseteq> digit_char ` {..<b}"
proof (induction b n rule: numeral_of.induct)
  case (1 b n)
  then show ?case
    by (cases "n < b") (auto simp: num_small num_step)
qed

lemma digit_char_nz: "d < 16 \<Longrightarrow> digit_char d \<noteq> CHR 0x00"
proof -
  assume "d < 16"
  then have "of_char (digit_char d) \<noteq> (0 :: nat)"
    by (auto simp: digit_char_def)
  then show ?thesis by auto
qed

lemma digit_char_0 [simp]: "digit_char 0 = CHR ''0''"
  by code_simp

lemma vga_utoa_dec:
  assumes "0 < bs"
  shows "vga_utoa v 10 bs old = rev (take (bs - 1) (rev (numeral_of 10 (unat v))))"
proof -
  obtain n where "bs = Suc n" using assms by (cases bs) auto
  then show ?thesis
    by (cases "v = 0") (auto simp: vga_utoa_def Let_def dec_loop_spec num_small)
qed

lemma vga_utoa_hex:
  assumes "0 < bs"
  shows "vga_utoa v 16 bs old = rev (take (bs - 1) (rev (numeral_of 16 (unat v))))"
proof -
  obtain n where "bs = Suc n" using assms by (cases bs) auto
  then show ?thesis
    by (cases "v = 0") (auto simp: vga_utoa_def Let_def hex_loop_spec num_small)
qed

lemma vga_ulltoa_hex:
  assumes "0 < bs"
  shows "vga_ulltoa v 16 bs old = rev (take (bs - 1) (rev (numeral_of 16 (unat v))))"
proof -
  obtain n where "bs = Suc n" using assms by (cases bs) auto
  then show ?thesis
    by (cases "v = 0") (auto simp: vga_ulltoa_def Let_def hex_loop_spec num_small)
qed

lemma sub_loop_spec: "pw \<noteq> 0 \<Longrightarrow> sub_loop pw v d = (v mod pw, d + unat (v div pw))"
proof (induction pw v d rule: sub_loop.induct)
  case (1 pw v d)
  show ?case
  proof (cases "pw \<le> v")
    case True
    have "unat pw \<noteq> 0" by (metis "1.prems" unat_eq_0)
    moreover have "unat pw \<le> unat v" using True by (simp add: word_le_nat_alt)
    ultimately have "unat (v div pw) = Suc (unat ((v - pw) div pw))" "(v - pw) mod pw = v mod pw"
      using True by (simp_all add: unat_div unat_mod unat_sub word_unat_eq_iff le_div_geq le_mod_geq)
    with 1 True show ?thesis by (simp add: sub_loop.simps [of pw v d])
  next
    case False
    then have "unat v < unat pw" by (simp add: word_le_nat_alt not_le)
    then have "unat (v div pw) = 0" "v mod pw = v"
      by (simp_all add: unat_div unat_mod word_unat_eq_iff)
    with False show ?thesis by (simp add: sub_loop.simps [of pw v d])
  qed
qed

primrec padded :: "nat \<Rightarrow> nat \<Rightarrow> string" where
  "padded 0 n = []"
| "padded (Suc k) n = digit_char (n div 10 ^ k) # padded k (n mod 10 ^ k)"

lemma pad_snoc: "n < 10 ^ Suc k \<Longrightarrow> padded (Suc k) n = padded k (n div 10) @ [digit_char (n mod 10)]"
proof (induction k arbitrary: n)
  case (Suc k)
  have "n mod 10 ^ Suc k < 10 ^ Suc k" by simp
  from Suc.IH [OF this]
  have "padded (Suc k) (n mod 10 ^ Suc k) = padded k (n mod 10 ^ Suc k div 10) @ [digit_char (n mod 10 ^ Suc k mod 10)]" .
  moreover have "n mod 10 ^ Suc k div 10 = n div 10 mod 10 ^ k" "n mod 10 ^ Suc k mod 10 = n mod 10"
    by (simp_all add: mod_mult2_eq  mod_mod_cancel)
  moreover have "n div 10 ^ Suc k = n div 10 div 10 ^ k" by (simp add: div_mult2_eq)
  ultimately show ?case by (simp del: power_Suc)
qed simp

lemma num_pad: "10 ^ k \<le> n \<Longrightarrow> n < 10 ^ Suc k \<Longrightarrow> numeral_of 10 n = padded (Suc k) n"
proof (induction k arbitrary: n)
  case (Suc k)
  have "10 * 1 \<le> 10 * (10 :: nat) ^ k" by (intro mult_le_mono2) simp
  then have "10 \<le> n" using Suc.prems(1) unfolding power_Suc by linarith
  moreover have "10 ^ k \<le> n div 10" "n div 10 < 10 ^ Suc k"
    using Suc.prems by (simp_all add: less_eq_div_iff_mult_less_eq)
  ultimately have "10 ^ k \<le> n div 10" "n div 10 < 10 ^ Suc k" "10 \<le> n" by auto
  with Suc show ?case by (simp add: num_step pad_snoc del: padded.simps)
qed (simp add: num_small)

definition pow_list :: "nat \<Rightarrow> u64 list" where
  "pow_list k = map (\<lambda>i. 10 ^ i) (rev [0..<k])"

lemma powers_eq: "powers = pow_list 20"
  by code_simp

lemma pow_list_Suc: "pow_list (Suc k) = 10 ^ k # pow_list k"
  by (simp add: pow_list_def)

lemma unat_pow10: "k < 20 \<Longrightarrow> unat (10 ^ k :: u64) = 10 ^ k"
proof -
  assume "k < 20"
  then have "(10 :: nat) ^ k \<le> 10 ^ 19" by (intro power_increasing) auto
  then have "(10 :: nat) ^ k < 2 ^ 64" by (rule le_less_trans) simp
  then have "unat (word_of_nat (10 ^ k) :: u64) = 10 ^ k"
    by (simp only: unat_of_nat) simp
  then show ?thesis by simp
qed

lemma powers_loop_pad:
  "k \<le> 20 \<Longrightarrow> unat v < 10 ^ k \<Longrightarrow> length acc + k \<le> cap \<Longrightarrow>
   powers_loop cap (pow_list k) v False acc = acc @ padded k (unat v)"
proof (induction k arbitrary: v acc)
  case (Suc k)
  have p: "unat (10 ^ k :: u64) = 10 ^ k" using Suc.prems by (intro unat_pow10) simp
  then have "10 ^ k \<noteq> (0 :: u64)" by (metis power_eq_0_iff unat_0 zero_neq_numeral)
  then have sub: "sub_loop (10 ^ k) v 0 = (v mod 10 ^ k, unat v div 10 ^ k)"
    by (simp add: sub_loop_spec unat_div p)
  have d: "unat v div 10 ^ k < 10" using Suc.prems by (simp add: less_mult_imp_div_less)
  have "powers_loop cap (pow_list k) (v mod 10 ^ k) False (acc @ [digit_char (unat v div 10 ^ k)])
     = (acc @ [digit_char (unat v div 10 ^ k)]) @ padded k (unat (v mod 10 ^ k))"
    using Suc.prems by (intro Suc.IH) (simp_all add: unat_mod p)
  then show ?case
    using Suc.prems d by (simp add: pow_list_Suc sub unat_mod p digit_char_def)
qed (simp add: pow_list_def)

lemma powers_loop_num:
  "k \<le> 20 \<Longrightarrow> unat v < 10 ^ k \<Longrightarrow> k \<le> cap \<Longrightarrow> v \<noteq> 0 \<Longrightarrow>
   powers_loop cap (pow_list k) v True [] = numeral_of 10 (unat v)"
proof (induction k)
  case 0
  then show ?case by (simp add: unat_eq_0)
next
  case (Suc k)
  have p: "unat (10 ^ k :: u64) = 10 ^ k" using Suc.prems by (intro unat_pow10) simp
  then have "10 ^ k \<noteq> (0 :: u64)" by (metis power_eq_0_iff unat_0 zero_neq_numeral)
  then have sub: "sub_loop (10 ^ k) v 0 = (v mod 10 ^ k, unat v div 10 ^ k)"
    by (simp add: sub_loop_spec unat_div p)
  have d: "unat v div 10 ^ k < 10" using Suc.prems by (simp add: less_mult_imp_div_less)
  show ?case
  proof (cases "unat v < 10 ^ k")
    case True
    then have "v mod 10 ^ k = v" by (simp add: word_unat_eq_iff unat_mod p)
    with Suc True sub show ?thesis by (simp add: pow_list_Suc)
  next
    case False
    then have "unat v div 10 ^ k \<noteq> 0" by (simp add: div_eq_0_iff)
    moreover have "powers_loop cap (pow_list k) (v mod 10 ^ k) False [digit_char (unat v div 10 ^ k)]
       = [digit_char (unat v div 10 ^ k)] @ padded k (unat (v mod 10 ^ k))"
      using Suc.prems by (intro powers_loop_pad) (simp_all add: unat_mod p)
    ultimately show ?thesis
      using Suc.prems d False num_pad [of k "unat v"]
      by (simp add: pow_list_Suc sub unat_mod p digit_char_def)
  qed
qed

lemma vga_ulltoa_dec:
  assumes "20 < bs"
  shows "vga_ulltoa v 10 bs old = numeral_of 10 (unat v)"
proof -
  have "unat v < 18446744073709551616" using unsigned_less [of v] by simp
  then have "unat v < 10 ^ 20" by simp
  then show ?thesis
    using assms powers_loop_num [of 20 v "bs - 1"]
    by (cases "v = 0") (simp_all add: vga_ulltoa_def powers_eq num_small)
qed

lemma shift_right_nth:
  "n < length buf \<Longrightarrow> length (shift_right n buf) = length buf \<and>
    (j < length buf \<longrightarrow> shift_right n buf ! j = (if 1 \<le> j \<and> j \<le> n then buf ! (j - 1) else buf ! j))"
  by (induction n arbitrary: buf) (auto simp: nth_list_update le_Suc_eq)

lemma sint_u32_cases:
  "sint (v :: u32) < 0 \<Longrightarrow> unat (- v) = nat (- sint v)"
  "0 \<le> sint (v :: u32) \<Longrightarrow> unat v = nat (sint v)"
proof -
  have eq: "uint v = sint v + (if sint v < 0 then 4294967296 else 0)"
  proof -
    have "uint v = sint v mod 4294967296"
      using uint_sint [of v] by (simp add: take_bit_eq_mod)
    also have "\<dots> = sint v + (if sint v < 0 then 4294967296 else 0)"
    proof (cases "sint v < 0")
      case True
      have "sint v mod 4294967296 = (sint v + 4294967296) mod 4294967296"
        by (simp only: mod_add_self2)
      also have "\<dots> = sint v + 4294967296"
        using True sint_ge [of v] by (intro mod_pos_pos_trivial) auto
      finally show ?thesis using True by simp
    next
      case False
      then show ?thesis using sint_lt [of v] by (simp add: mod_pos_pos_trivial)
    qed
    finally show ?thesis .
  qed
  show "unat (- v) = nat (- sint v)" if "sint v < 0"
  proof -
    have "v \<noteq> 0" using that by auto
    then have "unat (- v) = 4294967296 - unat v" by (rule unat_neg_u32)
    moreover have "unat v = nat (sint v + 4294967296)"
      using eq that by (simp only: unat_eq_nat_uint if_True)
    moreover have "- 4294967296 \<le> sint v" using sint_ge [of v] by simp
    ultimately show ?thesis by linarith
  qed
  show "unat v = nat (sint v)" if "0 \<le> sint v"
    using that eq by (simp only: unat_eq_nat_uint) simp
qed

lemma itoa_shift:
  assumes "CHR 0x00 \<notin> set str"
  shows "c_str (((shift_right (length str) (str @ [CHR 0x00, CHR 0x00]))[0 := CHR ''-''])
     [length str + 1 := CHR 0x00]) = CHR ''-'' # str"
proof -
  let ?buf = "str @ [CHR 0x00, CHR 0x00]"
  have "((shift_right (length str) ?buf)[0 := CHR ''-''])[length str + 1 := CHR 0x00]
    = CHR ''-'' # str @ [CHR 0x00]" (is "?l = ?r")
  proof (rule nth_equalityI)
    show "length ?l = length ?r" using shift_right_nth [of "length str" ?buf] by simp
    fix j assume "j < length ?l"
    then have "j < length ?buf" using shift_right_nth [of "length str" ?buf] by simp
    then show "?l ! j = ?r ! j"
      using shift_right_nth [of "length str" ?buf j]
      by (cases j) (auto simp: nth_list_update nth_append)
  qed
  moreover have "takeWhile (\<lambda>c. c \<noteq> CHR 0x00) (str @ [CHR 0x00]) = str"
    using assms by (subst takeWhile_append2) auto
  ultimately show ?thesis by (simp add: c_str_def)
qed

lemma num_no_nul: "2 \<le> b \<Longrightarrow> b \<le> 16 \<Longrightarrow> CHR 0x00 \<notin> set (numeral_of b n)"
proof
  assume b: "2 \<le> b" "b \<le> 16" and "CHR 0x00 \<in> set (numeral_of b n)"
  then obtain d where "d < b" "digit_char d = CHR 0x00" using set_num [of b n] by auto
  with b show False using digit_char_nz [of d] by simp
qed

lemma vga_itoa_dec:
  assumes "11 < bs"
  shows "vga_itoa v 10 bs old =
    (if sint v < 0 then CHR ''-'' # numeral_of 10 (nat (- sint v)) else numeral_of 10 (nat (sint v)))"
proof -
  have len: "length (numeral_of 10 (unat w)) \<le> 10" for w :: u32
    using unat_u32_bound [of w] by (intro length_num) auto
  have str: "vga_utoa w 10 bs old = numeral_of 10 (unat w)" for w
    using assms len [of w] by (simp add: vga_utoa_dec)
  have "length (numeral_of 10 (unat w)) + 1 < bs" for w :: u32
    using len [of w] assms by simp
  then show ?thesis
    using assms itoa_shift [OF num_no_nul, of 10 "unat (- v)"]
    by (auto simp: vga_itoa_def Let_def str sint_u32_cases)
qed

text \<open>Reading a decimal numeral back.\<close>

definition parse_num :: "string \<Rightarrow> nat" where
  "parse_num cs = foldl (\<lambda>n c. 10 * n + (of_char c - 48)) 0 cs"

lemma parse_num_num: "parse_num (numeral_of 10 n) = n"
proof (induction "10 :: nat" n rule: numeral_of.induct)
  case (1 n)
  have d: "d < 10 \<Longrightarrow> of_char (digit_char d) = 48 + d" for d :: nat
    by (simp add: digit_char_def)
  show ?case
  proof (cases "n < 10")
    case False
    with 1 d [of "n mod 10"] show ?thesis by (simp add: num_step parse_num_def)
  qed (simp add: num_small parse_num_def d)
qed

subsection \<open>Everything printed stays on the screen\<close>

lemma printf_conv_rest:
  "printf_conv d ds args s = (Some rest, args', s') \<Longrightarrow> length rest \<le> length ds"
  by (auto simp: printf_conv_def printf_long_def Let_def split: if_splits prod.splits list.splits)

lemma vga_write_ok: "vga_ok s \<Longrightarrow> vga_ok (vga_write p s)"
  by (cases p) (simp_all add: vga_write_def vga_write_chars_ok)

lemma vga_write_bounds: "vga_ok s \<Longrightarrow> 2000 \<le> j \<Longrightarrow> VGA_BUF (vga_write p s) j = VGA_BUF s j"
  by (cases p) (simp_all add: vga_write_def vga_write_chars_bounds)

definition vga_safe :: "'a vga_state_scheme \<Rightarrow> 'a vga_state_scheme \<Rightarrow> bool" where
  "vga_safe s s' \<longleftrightarrow> vga_ok s' \<and> (\<forall>j \<ge> VGA_WIDTH * VGA_HEIGHT. VGA_BUF s' j = VGA_BUF s j)"

lemma vga_safe_refl: "vga_ok s \<Longrightarrow> vga_safe s s"
  by (simp add: vga_safe_def)

lemma vga_safe_putc: "vga_safe s s' \<Longrightarrow> vga_safe s (vga_putc c s')"
  by (simp add: vga_safe_def vga_putc_ok vga_putc_bounds)

lemma vga_safe_write: "vga_safe s s' \<Longrightarrow> vga_safe s (vga_write p s')"
  by (simp add: vga_safe_def vga_write_ok vga_write_bounds)

lemmas vga_safe_intros = vga_safe_putc vga_safe_write

lemma print_pointer_safe: "vga_safe s s' \<Longrightarrow> vga_safe s (print_pointer v s')"
  by (simp add: print_pointer_def Let_def vga_safe_intros)

lemma printf_long_safe:
  "printf_long ds args s' = (rest, args', s'') \<Longrightarrow> vga_safe s s' \<Longrightarrow> vga_safe s s''"
  by (auto simp: printf_long_def Let_def print_u32_def print_i32_def print_u64_def
      intro!: vga_safe_intros split: if_splits prod.splits list.splits)

lemma printf_conv_safe:
  "printf_conv d ds args s' = (rest, args', s'') \<Longrightarrow> vga_safe s s' \<Longrightarrow> vga_safe s s''"
  by (auto simp: printf_conv_def Let_def print_u32_def print_i32_def
      intro!: vga_safe_intros print_pointer_safe dest: printf_long_safe
      split: if_splits prod.splits)

lemma printf_loop_safe:
  "printf_loop fuel fmt args s' = Some s'' \<Longrightarrow> vga_safe s s' \<Longrightarrow> vga_safe s s''"
proof (induction fuel fmt args s' rule: printf_loop.induct)
  case (3 fuel c cs args s')
  show ?case
  proof (cases "c = CHR ''%''")
    case False
    with 3 show ?thesis by (simp add: vga_safe_putc)
  next
    case True
    show ?thesis
    proof (cases cs)
      case (Cons d ds)
      obtain rest args' t where conv: "printf_conv d ds args s' = (rest, args', t)"
        by (metis prod_cases3)
      then have "vga_safe s t" using 3(4) by (rule printf_conv_safe)
      with 3 True Cons conv show ?thesis by (auto split: option.splits)
    qed (use 3 True in simp)
  qed
qed auto

lemma vga_printf_safe: "vga_ok s \<Longrightarrow> vga_printf fmt args s = Some s' \<Longrightarrow> vga_safe s s'"
  by (auto simp: vga_printf_def vga_safe_refl intro: printf_loop_safe split: option.splits)

lemma printk_safe: "vga_ok s \<Longrightarrow> vga_safe s (printk fmt args s)"
  by (auto simp: printk_def vga_safe_refl intro: vga_printf_safe split: option.splits)

lemma printk_safe_trans: "vga_safe s s' \<Longrightarrow> vga_safe s (printk fmt args s')"
  using printk_safe [of s' fmt args] by (simp add: vga_safe_def)

lemma vga_test_printf_safe: "vga_safe s (vga_test_printf dummy s)"
proof -
  have "vga_safe s (vga_set_color VGA_WHITE_ON_BLACK (vga_clear s))"
    by (simp add: vga_safe_def vga_set_color_def vga_ok_def vga_clear_def fill_cells_nth)
  then show ?thesis
    unfolding vga_test_printf_def Let_def by (intro printk_safe_trans vga_safe_write)
qed

text \<open>\<open>dangling fmt\<close>: scanning the format reaches its end inside a \<open>%l\<close>.\<close>

fun dangling :: "string \<Rightarrow> bool" where
  "dangling [] = False"
| "dangling [c] = False"
| "dangling (c # d # ds) =
     (if c \<noteq> CHR ''%'' then dangling (d # ds)
      else if d \<noteq> CHR ''l'' then dangling ds
      else ds = [] \<or> ds = [CHR ''l''] \<or>
        dangling (if hd ds = CHR ''l'' then tl (tl ds) else tl ds))"

lemma printf_long_rest:
  "ds \<noteq> [] \<Longrightarrow> ds \<noteq> [CHR ''l''] \<Longrightarrow>
   fst (printf_long ds args s) = Some (if hd ds = CHR ''l'' then tl (tl ds) else tl ds)"
  by (auto simp: printf_long_def Let_def split: list.splits prod.splits)

lemma printf_conv_rest_short: "d \<noteq> CHR ''l'' \<Longrightarrow> fst (printf_conv d ds args s) = Some ds"
  by (auto simp: printf_conv_def Let_def split: prod.splits)

lemma printf_conv_rest_long: "fst (printf_conv CHR ''l'' ds args s) = fst (printf_long ds args s)"
  by (simp add: printf_conv_def)

lemma printf_loop_defined:
  "\<not> dangling fmt \<Longrightarrow> length fmt \<le> fuel \<Longrightarrow> \<exists>s'. printf_loop fuel fmt args s = Some s'"
proof (induction fuel arbitrary: fmt args s)
  case (Suc fuel)
  show ?case
  proof (cases fmt rule: dangling.cases)
    case (3 c d ds)
    obtain rest args' t where conv: "printf_conv d ds args s = (rest, args', t)"
      by (metis prod_cases3)
    have "\<exists>r. rest = Some r \<and> \<not> dangling r \<and> length r \<le> fuel" if "c = CHR ''%''"
    proof (cases "d = CHR ''l''")
      case True
      then have "ds \<noteq> []" "ds \<noteq> [CHR ''l'']" using Suc.prems 3 that by auto
      with printf_long_rest [OF this, of args s] printf_conv_rest_long [of ds args s] conv True
      show ?thesis using Suc.prems 3 that by auto
    next
      case False
      with printf_conv_rest_short [OF False, of ds args s] conv that 3 Suc.prems show ?thesis by auto
    qed
    then show ?thesis using 3 conv Suc by (cases "c = CHR ''%''") fastforce+
  qed (use Suc in auto)
qed auto

text \<open>C39: vga_ulltoa, which avoids 64-bit division by subtracting powers of ten, prints the
  decimal numeral of the value, and reading the numeral gives the value back.\<close>

theorem vga_ulltoa_reads_back:
  assumes "20 < bs"
  shows "vga_ulltoa v 10 bs old = numeral_of 10 (unat v) \<and> parse_num (vga_ulltoa v 10 bs old) = unat v"
  using assms by (simp add: vga_ulltoa_dec parse_num_num)


text \<open>C38: vga_printf returns on every format string that does not end inside a long conversion:
  it never reads past the terminating NUL.\<close>

theorem vga_printf_defined: "\<not> dangling fmt \<Longrightarrow> \<exists>s'. vga_printf (Some fmt) args s = Some s'"
  by (simp add: vga_printf_def printf_loop_defined)

theorem vga_printf_reads_past_end: "vga_printf (Some ''%l'') args s = None"
  by (simp add: vga_printf_def printf_conv_def printf_long_def)

subsection \<open>Sizes\<close>

lemma unat_push_bit_1024: "i < 6 \<Longrightarrow> unat (push_bit (10 * i) 1 :: u64) = 1024 ^ i"
proof -
  assume "i < 6"
  then have "i = 0 \<or> i = 1 \<or> i = 2 \<or> i = 3 \<or> i = 4 \<or> i = 5" by linarith
  then show ?thesis by (elim disjE) simp_all
qed

lemma scale_loop_bounds:
  "i + n < 6 \<Longrightarrow> (let k = scale_loop bytes i n in i \<le> k \<and> k \<le> i + n \<and>
     (\<forall>j. i \<le> j \<and> j < k \<longrightarrow> 1024 ^ (j + 1) \<le> unat bytes) \<and> (k < i + n \<longrightarrow> unat bytes < 1024 ^ (k + 1)))"
proof (induction n arbitrary: i)
  case 0
  then show ?case by simp
next
  case (Suc n)
  have "unat (push_bit (10 * (i + 1)) 1 :: u64) = 1024 ^ (i + 1)"
    using Suc.prems by (intro unat_push_bit_1024) simp
  then have "bytes < push_bit (10 * (i + 1)) 1 \<longleftrightarrow> unat bytes < 1024 ^ (i + 1)"
    by (simp add: word_less_nat_alt)
  then show ?case
    using Suc.IH [of "i + 1"] Suc.prems
    by (auto simp: Let_def not_less le_Suc_eq Suc_le_eq  dest: le_neq_implies_less)
qed

lemma unat_mul10_u64: "10 * unat (x :: u64) < 18446744073709551616 \<Longrightarrow> unat (x * 10) = 10 * unat x"
  by (simp add: unat_word_ariths mult.commute)

lemma vga_human_size_spec:
  assumes "25 \<le> bs"
  shows "\<exists>k \<le> 4. (k = 4 \<or> unat bytes < 1024 ^ (k + 1)) \<and> (k = 0 \<or> 1024 ^ k \<le> unat bytes) \<and>
    vga_human_size bytes bs =
      (let f = 10 * (unat bytes mod 1024 ^ k) div 1024 ^ k
       in numeral_of 10 (unat bytes div 1024 ^ k) @ (if f = 0 then [] else [CHR ''.'', digit_char f])
            @ [''BKMGT'' ! k])"
proof -
  define k where "k = scale_loop bytes 0 4"
  define b where "b = unat bytes"
  have kb: "k \<le> 4" "\<And>j. j < k \<Longrightarrow> 1024 ^ (j + 1) \<le> b" "k < 4 \<Longrightarrow> b < 1024 ^ (k + 1)"
    using scale_loop_bounds [of 0 4 bytes] by (auto simp: k_def b_def Let_def)
  have b64: "b < 2 ^ 64" using unsigned_less [of bytes] by (simp add: b_def)
  have lo: "k = 0 \<or> 1024 ^ k \<le> b" using kb(2) [of "k - 1"] by (cases k) auto
  have pk: "unat (push_bit (k * 10) 1 :: u64) = 1024 ^ k"
    using unat_push_bit_1024 [of k] kb(1) by (simp add: mult.commute)
  have p1024: "(1024 :: nat) ^ k = 2 ^ (k * 10)"
    using power_mult [of "2 :: nat" 10 k] by (simp add: mult.commute)
  have whole: "unat (drop_bit (k * 10) bytes) = b div 1024 ^ k"
    unfolding unat_drop_bit_eq b_def p1024 by (simp only: drop_bit_eq_div)
  have "(push_bit (k * 10) 1 :: u64) - 1 = mask (k * 10)"
    by (simp add: mask_eq_exp_minus_1 push_bit_eq_mult)
  then have "bytes AND (push_bit (k * 10) 1 - 1) = take_bit (k * 10) bytes"
    by (simp only: take_bit_eq_mask)
  then have rem: "unat (bytes AND (push_bit (k * 10) 1 - 1)) = b mod 1024 ^ k"
    by (simp only: unsigned_take_bit_eq b_def p1024) (simp only: take_bit_eq_mod)
  have rlt: "b mod 1024 ^ k < 1024 ^ k" by simp
  have klt: "(1024 :: nat) ^ k \<le> 1099511627776"
    using kb(1) power_increasing [of k 4 "1024 :: nat"] by simp
  have r10: "unat ((bytes AND (push_bit (k * 10) 1 - 1)) * 10) = 10 * (b mod 1024 ^ k)"
  proof -
    have "10 * (b mod 1024 ^ k) < 18446744073709551616" using rlt klt by linarith
    then show ?thesis by (subst unat_mul10_u64) (simp_all only: rem)
  qed
  have frac: "unat (drop_bit (k * 10) ((bytes AND (push_bit (k * 10) 1 - 1)) * 10))
      = 10 * (b mod 1024 ^ k) div 1024 ^ k"
    unfolding unat_drop_bit_eq r10 by (simp only: drop_bit_eq_div p1024)
  define f where "f = 10 * (b mod 1024 ^ k) div 1024 ^ k"
  have f10: "f < 10" using rlt by (simp add: f_def less_mult_imp_div_less)
  define fr where "fr = (if k > 0 \<and> bytes AND (push_bit (k * 10) 1 - 1) > 0
    then drop_bit (k * 10) ((bytes AND (push_bit (k * 10) 1 - 1)) * 10) else 0)"
  have fr: "unat fr = f"
  proof (cases "k > 0 \<and> bytes AND (push_bit (k * 10) 1 - 1) > 0")
    case False
    then have "b mod 1024 ^ k = 0" using rem by (auto simp: word_gt_0)
    with False show ?thesis by (simp only: fr_def f_def if_False) simp
  qed (use frac in \<open>simp add: fr_def f_def\<close>)
  then have "fr > 0 \<longleftrightarrow> f \<noteq> 0" by (simp add: word_gt_0 unat_eq_0 [symmetric])
  have "b div 1024 ^ k < 10 ^ 20" using b64 by (simp add: div_less_dividend le_less_trans [OF div_le_dividend])
  then have len: "length (numeral_of 10 (b div 1024 ^ k)) \<le> 20" by (intro length_num) auto
  have tmp: "vga_ulltoa (drop_bit (k * 10) bytes) 10 32 [] = numeral_of 10 (b div 1024 ^ k)"
    by (simp only: vga_ulltoa_dec whole)
  have "vga_human_size bytes bs = numeral_of 10 (b div 1024 ^ k) @
      (if f = 0 then [] else [CHR ''.'', digit_char f]) @ [units ! k]"
    unfolding vga_human_size_def Let_def k_def [symmetric] fr_def [symmetric] tmp
    using len assms f10 fr \<open>fr > 0 \<longleftrightarrow> f \<noteq> 0\<close> by (simp add: digit_char_def)
  moreover have "k = 4 \<or> b < 1024 ^ (k + 1)" using kb(1,3) by (cases "k = 4") auto
  ultimately show ?thesis
    using kb(1) lo unfolding b_def f_def Let_def units_def by (intro exI [of _ k]) auto
qed

subsection \<open>Printing touches the screen only\<close>

text \<open>
  \<open>device_io\<close> is the port log without the writes to the cursor registers. Every field of a
  component that extends the screen's record is in \<open>vga_state.more\<close>.
\<close>

definition device_io :: "'a machine_scheme \<Rightarrow> (u16 \<times> u8) list" where
  "device_io s = filter (\<lambda>(port, data). port \<noteq> VGA_CRTC_ADDR \<and> port \<noteq> VGA_CRTC_DATA) (io_log s)"

definition screen_only :: "'a vga_state_scheme \<Rightarrow> 'a vga_state_scheme \<Rightarrow> bool" where
  "screen_only s s' \<longleftrightarrow> mem s' = mem s \<and> in_port s' = in_port s \<and> stale_word s' = stale_word s
     \<and> eflags s' = eflags s \<and> cr2 s' = cr2 s \<and> cr3 s' = cr3 s \<and> current_color s' = current_color s
     \<and> device_io s' = device_io s \<and> vga_state.more s' = vga_state.more s"

lemma screen_only_trans [trans]: "screen_only s s' \<Longrightarrow> screen_only s' s'' \<Longrightarrow> screen_only s s''"
  by (simp add: screen_only_def)

lemma screen_only_refl [simp]: "screen_only s s"
  by (simp add: screen_only_def)

lemma screen_only_sync: "screen_only s (vga_sync_cursor s)"
  by (simp add: screen_only_def vga_sync_cursor_def outb_def Let_def device_io_def)

lemma screen_only_scroll: "screen_only s (vga_scroll s)"
  by (simp add: screen_only_def vga_scroll_def device_io_def)

lemma screen_only_emit: "screen_only s (vga_emit c s)"
  by (simp add: screen_only_def vga_emit_def wrap_col_def Let_def device_io_def)

lemma screen_only_putc: "screen_only s (vga_putc c s)"
  unfolding vga_putc_def
  by (rule screen_only_trans [OF screen_only_emit screen_only_trans [OF screen_only_scroll screen_only_sync]])

lemma screen_only_chars: "screen_only s (vga_write_chars str s)"
proof (induction str s rule: vga_write_chars.induct)
  case (2 c cs s)
  then show ?case by (auto intro: screen_only_trans [OF screen_only_putc])
qed simp

lemma screen_only_write: "screen_only s (vga_write p s)"
  by (cases p) (simp_all add: vga_write_def screen_only_chars)

lemmas screen_only_intros =
  screen_only_trans [OF _ screen_only_putc] screen_only_trans [OF _ screen_only_write]

lemma screen_only_long:
  "printf_long ds args s' = (rest, args', s'') \<Longrightarrow> screen_only s s' \<Longrightarrow> screen_only s s''"
  by (auto simp: printf_long_def Let_def print_u32_def print_i32_def print_u64_def
      intro!: screen_only_intros split: if_splits prod.splits list.splits)

lemma screen_only_conv:
  "printf_conv d ds args s' = (rest, args', s'') \<Longrightarrow> screen_only s s' \<Longrightarrow> screen_only s s''"
  by (auto simp: printf_conv_def Let_def print_u32_def print_i32_def print_pointer_def
      intro!: screen_only_intros dest: screen_only_long split: if_splits prod.splits)

lemma screen_only_loop:
  "printf_loop fuel fmt args s' = Some s'' \<Longrightarrow> screen_only s s' \<Longrightarrow> screen_only s s''"
proof (induction fuel fmt args s' rule: printf_loop.induct)
  case (3 fuel c cs args s')
  show ?case
  proof (cases "c = CHR ''%''")
    case False
    with 3 show ?thesis by (simp add: screen_only_intros)
  next
    case True
    show ?thesis
    proof (cases cs)
      case (Cons d ds)
      obtain rest args' t where conv: "printf_conv d ds args s' = (rest, args', t)"
        by (metis prod_cases3)
      then have "screen_only s t" using 3(4) by (rule screen_only_conv)
      with 3 True Cons conv show ?thesis by (auto split: option.splits)
    qed (use 3 True in simp)
  qed
qed auto

lemma printk_screen_only: "screen_only s (printk fmt args s)"
  by (auto simp: printk_def vga_printf_def intro: screen_only_loop split: option.splits)

lemma printk_simps [simp]:
  "mem (printk fmt args s) = mem s"
  "in_port (printk fmt args s) = in_port s"
  "stale_word (printk fmt args s) = stale_word s"
  "eflags (printk fmt args s) = eflags s"
  "cr2 (printk fmt args s) = cr2 s"
  "cr3 (printk fmt args s) = cr3 s"
  "device_io (printk fmt args s) = device_io s"
  "vga_state.more (printk fmt args s) = vga_state.more s"
  using printk_screen_only [of s fmt args] by (simp_all add: screen_only_def)

end
