(* ===== verification/Panic.thy ===== *)
theory Panic
  imports Printf
begin

text \<open>
  \<open>kernel_panic\<close> and \<open>ASSERT\<close> of \<open>08.kernel-mm/kernel/include/kernel.h\<close>. A panic disables the
  interrupts, prints where it happened and halts: its result is \<open>Inl\<close> of the machine it leaves,
  whatever type a normal return would have.
\<close>

definition kernel_panic ::
  "string \<Rightarrow> string \<Rightarrow> nat \<Rightarrow> 'a vga_state_scheme \<Rightarrow> ('a vga_state_scheme, 'b) outcome" where
  "kernel_panic file func line s =
     (let s = disable_interrupts s;
          s = printk ''KERNEL PANIC !!!\<newline> '' [] s;
          s = printk '' %s, %s(), line %d\<newline>'' [Str (Some file), Str (Some func), Word (of_nat line)] s
      in Inl (printk ''System halted.\<newline>'' [] s))"

definition ASSERT ::
  "bool \<Rightarrow> string \<Rightarrow> string \<Rightarrow> nat \<Rightarrow> 'a vga_state_scheme \<Rightarrow> ('a vga_state_scheme, 'a vga_state_scheme) outcome"
  where "ASSERT condition file func line s = (if condition then Inr s else kernel_panic file func line s)"

lemma kernel_panic_Inr [simp]: "kernel_panic file func line s \<noteq> Inr x"
  by (simp add: kernel_panic_def Let_def)

lemma kernel_panic_isl [simp]: "isl (kernel_panic file func line s)"
  by (simp add: kernel_panic_def Let_def)

lemma ASSERT_eq_Inr [simp]: "ASSERT c file func line s = Inr s' \<longleftrightarrow> c \<and> s' = s"
  by (auto simp: ASSERT_def)

lemma ASSERT_True [simp]: "ASSERT True file func line s = Inr s"
  by (simp add: ASSERT_def)

lemma kernel_panic_halted:
  "kernel_panic file func line s = Inl p \<Longrightarrow> \<not> interrupts_enabled p"
  by (auto simp: kernel_panic_def Let_def interrupts_enabled_def disable_interrupts_def bit_simps)

end
