(* ===== verification/Interrupt.thy ===== *)
theory Interrupt
  imports Panic
begin

text \<open>
  \<open>08.kernel-mm/kernel/interrupt/interrupt.c\<close> with \<open>include/interrupt.h\<close> and the assembly stubs
  of \<open>interrupt/interrupt.S\<close>: the interrupt descriptor table, the two 8259 interrupt
  controllers, the table of registered handlers and the dispatch of exceptions and IRQs.

  Handlers are code addresses, as in the C table. What the code at an address does is the
  argument \<open>code\<close> of the dispatchers; the addresses the linker gives to the stubs and tables are
  the record \<open>symbols\<close>.
\<close>

record symbols =
  isr_sym :: "nat \<Rightarrow> u32"
  irq_sym :: "nat \<Rightarrow> u32"
  idt_sym :: u32
  gdt_sym :: u32
  tss_sym :: u32
  timer_callback_sym :: u32
  page_fault_handler_sym :: u32

record idt_entry =
  offset_low :: u16
  selector :: u16
  reserved :: u8
  type_attr :: u8
  offset_high :: u16

record idt_ptr =
  idt_limit :: u16
  idt_base :: u32

record interrupt_frame =
  f_gs :: u32
  f_fs :: u32
  f_es :: u32
  f_ds :: u32
  f_edi :: u32
  f_esi :: u32
  f_ebp :: u32
  f_esp_dummy :: u32
  f_ebx :: u32
  f_edx :: u32
  f_ecx :: u32
  f_eax :: u32
  f_int_no :: u32
  f_err_code :: u32
  f_eip :: u32
  f_cs :: u32
  f_eflags :: u32
  f_useresp :: u32
  f_ss :: u32

definition IDT_ENTRIES :: nat where [simp]: "IDT_ENTRIES = 256"

definition IDT_MAKE_ATTR :: "bool \<Rightarrow> u8 \<Rightarrow> u8 \<Rightarrow> u8" where
  "IDT_MAKE_ATTR present dpl type = (if present then 0x80 else 0) OR dpl OR (type AND 0x0F)"

text \<open>\<open>lidt\<close> loads \<open>idtr\<close> from \<open>idt_ptr\<close>.\<close>

record intr_state = vga_state +
  interrupt_handlers :: "nat \<Rightarrow> u32"
  idt :: "u8 \<Rightarrow> idt_entry"
  the_idt_ptr :: idt_ptr
  idtr :: "idt_ptr option"
  in_interrupt_context :: bool

definition idt_set_gate ::
  "u8 \<Rightarrow> u32 \<Rightarrow> u16 \<Rightarrow> u8 \<Rightarrow> 'a intr_state_scheme \<Rightarrow> 'a intr_state_scheme" where
  "idt_set_gate num base sel flags s =
     s\<lparr>idt := (idt s)(num := \<lparr>offset_low = ucast (base AND 0xFFFF), selector = sel, reserved = 0,
        type_attr = flags, offset_high = ucast (drop_bit 16 base AND 0xFFFF)\<rparr>)\<rparr>"

definition exception_names :: "string list" where
  "exception_names =
    [''Divide Error (#DE)'',
     ''Debug (#DB)'',
     ''Non-Maskable Interrupt (NMI)'',
     ''Breakpoint (#BP)'',
     ''Overflow (#OF)'',
     ''Bound Range Exceeded (#BR)'',
     ''Invalid Opcode (#UD)'',
     ''Device Not Available (#NM)'',
     ''Double Fault (#DF)'',
     ''Coprocessor Segment Overrun (reserved)'',
     ''Invalid TSS (#TS)'',
     ''Segment Not Present (#NP)'',
     ''Stack-Segment Fault (#SS)'',
     ''General Protection Fault (#GP)'',
     ''Page Fault (#PF)'',
     ''Reserved'',
     ''x87 Floating-Point Exception (#MF)'',
     ''Alignment Check (#AC)'',
     ''Machine Check (#MC)'',
     ''SIMD Floating-Point Exception (#XF)'',
     ''Virtualization Exception (#VE)'',
     ''Control Protection Exception (#CP)'',
     ''Reserved'', ''Reserved'', ''Reserved'', ''Reserved'', ''Reserved'',
     ''Reserved'', ''Reserved'', ''Reserved'', ''Reserved'', ''Reserved'']"

subsection \<open>The interrupt controllers\<close>

definition PIC1_CMD :: u16 where [simp]: "PIC1_CMD = 0x20"
definition PIC1_DATA :: u16 where [simp]: "PIC1_DATA = 0x21"
definition PIC2_CMD :: u16 where [simp]: "PIC2_CMD = 0xA0"
definition PIC2_DATA :: u16 where [simp]: "PIC2_DATA = 0xA1"
definition PIC_EOI :: u8 where [simp]: "PIC_EOI = 0x20"
definition PIC_ICW1_ICW4 :: u8 where [simp]: "PIC_ICW1_ICW4 = 0x01"
definition PIC_ICW1_INIT :: u8 where [simp]: "PIC_ICW1_INIT = 0x10"
definition PIC_MASTER_ICW3_IRQ2 :: u8 where [simp]: "PIC_MASTER_ICW3_IRQ2 = 0x04"
definition PIC_SLAVE_ICW3_ID :: u8 where [simp]: "PIC_SLAVE_ICW3_ID = 0x02"
definition PIC_ICW4_8086_MODE :: u8 where [simp]: "PIC_ICW4_8086_MODE = 0x01"
definition PIC1_VECTOR_OFFSET :: u8 where [simp]: "PIC1_VECTOR_OFFSET = 0x20"
definition PIC2_VECTOR_OFFSET :: u8 where [simp]: "PIC2_VECTOR_OFFSET = 0x28"

definition pic_init :: "u8 \<Rightarrow> u8 \<Rightarrow> 'a vga_state_scheme \<Rightarrow> 'a vga_state_scheme" where
  "pic_init offset_vector_master offset_vector_slave s =
     (let mask1 = inb PIC1_DATA s;
          mask2 = inb PIC2_DATA s;
          s = io_wait (outb PIC1_CMD (PIC_ICW1_INIT OR PIC_ICW1_ICW4) s);
          s = io_wait (outb PIC2_CMD (PIC_ICW1_INIT OR PIC_ICW1_ICW4) s);
          s = io_wait (outb PIC1_DATA offset_vector_master s);
          s = io_wait (outb PIC2_DATA offset_vector_slave s);
          s = io_wait (outb PIC1_DATA PIC_MASTER_ICW3_IRQ2 s);
          s = io_wait (outb PIC2_DATA PIC_SLAVE_ICW3_ID s);
          s = io_wait (outb PIC1_DATA PIC_ICW4_8086_MODE s);
          s = io_wait (outb PIC2_DATA PIC_ICW4_8086_MODE s);
          s = outb PIC1_DATA mask1 s;
          s = outb PIC2_DATA mask2 s
      in printk ''[PIC] Initialized: master offset=0x%x, slave offset=0x%x\<newline>''
           [Word (ucast offset_vector_master), Word (ucast offset_vector_slave)] s)"

definition pic_send_eoi :: "u8 \<Rightarrow> 'a machine_scheme \<Rightarrow> 'a machine_scheme" where
  "pic_send_eoi irq s =
     (let s = (if irq \<ge> 8 then outb PIC2_CMD PIC_EOI s else s) in outb PIC1_CMD PIC_EOI s)"

subsection \<open>The descriptor table\<close>

definition GDT_KERNEL_CODE_SEL :: u16 where [simp]: "GDT_KERNEL_CODE_SEL = 0x08"

definition IDT_GATE_ATTR :: u8 where
  "IDT_GATE_ATTR = IDT_MAKE_ATTR True 0x00 0x0E"

definition SET_ISR :: "symbols \<Rightarrow> nat \<Rightarrow> 'a intr_state_scheme \<Rightarrow> 'a intr_state_scheme" where
  "SET_ISR syms n s = idt_set_gate (of_nat n) (isr_sym syms n) GDT_KERNEL_CODE_SEL IDT_GATE_ATTR s"

definition SET_IRQ :: "symbols \<Rightarrow> nat \<Rightarrow> 'a intr_state_scheme \<Rightarrow> 'a intr_state_scheme" where
  "SET_IRQ syms n s =
     idt_set_gate (of_nat (32 + n)) (irq_sym syms n) GDT_KERNEL_CODE_SEL IDT_GATE_ATTR s"

definition clear_gate :: "nat \<Rightarrow> 'a intr_state_scheme \<Rightarrow> 'a intr_state_scheme" where
  "clear_gate i s = idt_set_gate (of_nat i) 0 0 0 s"

definition idt_init :: "symbols \<Rightarrow> 'a intr_state_scheme \<Rightarrow> 'a intr_state_scheme" where
  "idt_init syms s =
     (let s = s\<lparr>the_idt_ptr := \<lparr>idt_limit = of_nat (8 * IDT_ENTRIES - 1), idt_base = idt_sym syms\<rparr>\<rparr>;
          s = fold clear_gate [0..<IDT_ENTRIES] s;
          s = fold (SET_ISR syms) [0..<32] s;
          s = fold (SET_IRQ syms) [0..<16] s;
          s = pic_init PIC1_VECTOR_OFFSET PIC2_VECTOR_OFFSET s;
          s = s\<lparr>idtr := Some (the_idt_ptr s)\<rparr>
      in printk ''[IDT] Initialized with %d entries.\<newline>'' [Word (of_nat IDT_ENTRIES)] s)"

subsection \<open>Handlers and dispatch\<close>

definition register_interrupt_handler ::
  "u8 \<Rightarrow> u32 \<Rightarrow> 'a intr_state_scheme \<Rightarrow> 'a intr_state_scheme" where
  "register_interrupt_handler vector handler s =
     (let s = (if interrupt_handlers s (unat vector) \<noteq> 0
               then printk ''[WARN] Overwriting handler for vector %d, value: %p \<newline>''
                      [Word (ucast vector), Word (interrupt_handlers s (unat vector))] s
               else s)
      in if unat vector < IDT_ENTRIES
         then s\<lparr>interrupt_handlers := (interrupt_handlers s)(unat vector := handler)\<rparr> else s)"

type_synonym ('s) code_map = "u32 \<Rightarrow> interrupt_frame \<Rightarrow> 's \<Rightarrow> ('s, 's) outcome"

text \<open>An exception without a handler; the \<open>cli; hlt\<close> of the critical ones stops the machine.\<close>

definition isr_unhandled ::
  "interrupt_frame \<Rightarrow> 'a intr_state_scheme \<Rightarrow> ('a intr_state_scheme, 'a intr_state_scheme) outcome"
  where
  "isr_unhandled frame s =
     (if f_int_no frame < 32 then
        let s = printk ''\<newline>Unhandled Exception: %s (0x%x)\<newline>''
                  [Str (Some (exception_names ! unat (f_int_no frame))), Word (f_int_no frame)] s;
            s = printk ''Error Code: 0x%x\<newline>'' [Word (f_err_code frame)] s;
            s = printk ''EIP: 0x%x, CS: 0x%x, EFLAGS: 0x%x\<newline>''
                  [Word (f_eip frame), Word (f_cs frame), Word (f_eflags frame)] s
        in if f_int_no frame = 8 \<or> f_int_no frame = 13 \<or> f_int_no frame = 14
           then Inl (disable_interrupts
                  (printk ''System halted due to critical exception.\<newline>'' [] s))
           else Inr s
      else Inr (printk ''\<newline>Unhandled Interrupt: 0x%x\<newline>'' [Word (f_int_no frame)] s))"

definition isr_handler ::
  "'a intr_state_scheme code_map \<Rightarrow> interrupt_frame \<Rightarrow> 'a intr_state_scheme \<Rightarrow>
     ('a intr_state_scheme, 'a intr_state_scheme) outcome" where
  "isr_handler code frame s =
     (let s = s\<lparr>in_interrupt_context := True\<rparr>;
          handler = interrupt_handlers s (unat (f_int_no frame))
      in seq_bind (if handler \<noteq> 0 then code handler frame s else isr_unhandled frame s)
           (\<lambda>s. Inr (s\<lparr>in_interrupt_context := False\<rparr>)))"

definition irq_handler ::
  "'a intr_state_scheme code_map \<Rightarrow> interrupt_frame \<Rightarrow> 'a intr_state_scheme \<Rightarrow>
     ('a intr_state_scheme, 'a intr_state_scheme) outcome" where
  "irq_handler code frame s =
     (let s = s\<lparr>in_interrupt_context := True\<rparr>;
          irq = ucast (f_int_no frame - 32) :: u8;
          s = pic_send_eoi irq s;
          handler = interrupt_handlers s (unat (f_int_no frame))
      in seq_bind (if handler \<noteq> 0 then code handler frame s
                   else Inr (printk ''\<newline>Unhandled IRQ: 0x%x\<newline>'' [Word (f_int_no frame)] s))
           (\<lambda>s. Inr (s\<lparr>in_interrupt_context := False\<rparr>)))"

definition is_in_interrupt_context :: "'a intr_state_scheme \<Rightarrow> bool" where
  "is_in_interrupt_context s = in_interrupt_context s"

subsection \<open>Frame laws\<close>

text \<open>Printing leaves the fields of this component alone.\<close>

lemma intr_more_eqD:
  assumes "vga_state.more s' = vga_state.more (s :: 'a intr_state_scheme)"
  shows "interrupt_handlers s' = interrupt_handlers s" "idt s' = idt s"
    "the_idt_ptr s' = the_idt_ptr s" "idtr s' = idtr s"
    "in_interrupt_context s' = in_interrupt_context s" "intr_state.more s' = intr_state.more s"
  using assms by (cases s; cases s'; simp)+

lemma intr_printk [simp]:
  "interrupt_handlers (printk fmt args s) = interrupt_handlers s"
  "idt (printk fmt args s) = idt s"
  "the_idt_ptr (printk fmt args s) = the_idt_ptr s"
  "idtr (printk fmt args s) = idtr s"
  "in_interrupt_context (printk fmt args s) = in_interrupt_context s"
  "intr_state.more (printk fmt args s) = intr_state.more s"
  by (rule intr_more_eqD, simp)+

lemma device_io_outb [simp]:
  "device_io (outb port data s) = device_io s @
     (if port = VGA_CRTC_ADDR \<or> port = VGA_CRTC_DATA then [] else [(port, data)])"
  by (auto simp: device_io_def outb_def)

lemma io_wait_eq: "io_wait s = outb 0x80 0 s"
  by (simp add: io_wait_def)

subsection \<open>The 8259 as a state machine\<close>

text \<open>
  The reference for \<open>pic_init\<close>: an 8259 interprets the writes to its two ports. A command with
  bit 4 set is ICW1; it is followed on the data port by ICW2 (vector offset), by ICW3 unless
  ICW1 has the \<open>SINGLE\<close> bit, and by ICW4 if ICW1 asks for it. After that a data write sets the
  interrupt mask.
\<close>

datatype pic_phase = Ready | Want_ICW2 | Want_ICW3 | Want_ICW4

record pic =
  pic_phase :: pic_phase
  pic_icw1 :: u8
  pic_offset :: u8
  pic_cascade :: u8
  pic_mode :: u8
  pic_mask :: u8

definition pic_after_icw3 :: "pic \<Rightarrow> pic" where
  "pic_after_icw3 p = p\<lparr>pic_phase := (if bit (pic_icw1 p) 0 then Want_ICW4 else Ready)\<rparr>"

definition pic_data :: "u8 \<Rightarrow> pic \<Rightarrow> pic" where
  "pic_data d p =
     (case pic_phase p of
        Want_ICW2 \<Rightarrow> (if bit (pic_icw1 p) 1 then pic_after_icw3 (p\<lparr>pic_offset := d\<rparr>)
                      else p\<lparr>pic_offset := d, pic_phase := Want_ICW3\<rparr>)
      | Want_ICW3 \<Rightarrow> pic_after_icw3 (p\<lparr>pic_cascade := d\<rparr>)
      | Want_ICW4 \<Rightarrow> p\<lparr>pic_mode := d, pic_phase := Ready\<rparr>
      | Ready \<Rightarrow> p\<lparr>pic_mask := d\<rparr>)"

definition pic_write :: "u16 \<Rightarrow> u16 \<Rightarrow> u16 \<times> u8 \<Rightarrow> pic \<Rightarrow> pic" where
  "pic_write cmd dat w p =
     (if fst w = cmd then (if bit (snd w) 4 then p\<lparr>pic_icw1 := snd w, pic_phase := Want_ICW2\<rparr> else p)
      else if fst w = dat then pic_data (snd w) p else p)"

definition pic_run :: "u16 \<Rightarrow> u16 \<Rightarrow> (u16 \<times> u8) list \<Rightarrow> pic \<Rightarrow> pic" where
  "pic_run cmd dat log p = fold (pic_write cmd dat) log p"

lemma pic_init_log:
  "device_io (pic_init m v s) = device_io s @
     [(0x20, 0x11), (0x80, 0), (0xA0, 0x11), (0x80, 0), (0x21, m), (0x80, 0), (0xA1, v), (0x80, 0),
      (0x21, 4), (0x80, 0), (0xA1, 2), (0x80, 0), (0x21, 1), (0x80, 0), (0xA1, 1), (0x80, 0),
      (0x21, in_port s 0x21), (0xA1, in_port s 0xA1)]"
  by (simp add: pic_init_def Let_def io_wait_eq inb_def)

lemma pic_init_programs:
  "pic_run PIC1_CMD PIC1_DATA (device_io (pic_init m v s)) p =
     \<lparr>pic_phase = Ready, pic_icw1 = 0x11, pic_offset = m, pic_cascade = 4, pic_mode = 1,
      pic_mask = in_port s PIC1_DATA\<rparr>"
  "pic_run PIC2_CMD PIC2_DATA (device_io (pic_init m v s)) p =
     \<lparr>pic_phase = Ready, pic_icw1 = 0x11, pic_offset = v, pic_cascade = 2, pic_mode = 1,
      pic_mask = in_port s PIC2_DATA\<rparr>"
  unfolding pic_run_def pic_init_log fold_append
  by (simp_all add: pic_write_def pic_data_def pic_after_icw3_def)

subsection \<open>Gates\<close>

definition gate_offset :: "idt_entry \<Rightarrow> u32" where
  "gate_offset e = push_bit 16 (ucast (offset_high e)) OR ucast (offset_low e)"

definition gate_ok :: "idt_entry \<Rightarrow> u32 \<Rightarrow> bool" where
  "gate_ok e base \<longleftrightarrow> gate_offset e = base \<and> selector e = 0x08 \<and> reserved e = 0 \<and> type_attr e = 0x8E"

lemma mask16_u32: "(0xFFFF :: u32) = mask 16"
  by (simp add: mask_eq_exp_minus_1)

lemma split_u32:
  "push_bit 16 (ucast (ucast (drop_bit 16 w AND 0xFFFF :: u32) :: u16)) OR
     ucast (ucast (w AND 0xFFFF :: u32) :: u16) = (w :: u32)"
  unfolding mask16_u32
proof (rule bit_word_eqI)
  fix n assume n: "n < LENGTH(32)"
  show "bit (push_bit 16 (ucast (ucast (drop_bit 16 w AND mask 16 :: u32) :: u16)) OR
     ucast (ucast (w AND mask 16 :: u32) :: u16) :: u32) n \<longleftrightarrow> bit w n"
  proof (cases "n < 16")
    case True
    with n show ?thesis by (simp add: bit_simps)
  next
    case False
    with n show ?thesis by (auto simp: bit_simps)
  qed
qed

lemma idt_set_gate_simps [simp]:
  "interrupt_handlers (idt_set_gate n b sel fl s) = interrupt_handlers s"
  "the_idt_ptr (idt_set_gate n b sel fl s) = the_idt_ptr s"
  "idtr (idt_set_gate n b sel fl s) = idtr s"
  "in_port (idt_set_gate n b sel fl s) = in_port s"
  by (simp_all add: idt_set_gate_def)

definition mk_gate :: "u32 \<Rightarrow> u16 \<Rightarrow> u8 \<Rightarrow> idt_entry" where
  "mk_gate base sel flags = \<lparr>offset_low = ucast (base AND 0xFFFF), selector = sel, reserved = 0,
     type_attr = flags, offset_high = ucast (drop_bit 16 base AND 0xFFFF)\<rparr>"

lemma mk_gate_ok: "gate_ok (mk_gate base GDT_KERNEL_CODE_SEL IDT_GATE_ATTR) base"
  by (simp add: gate_ok_def gate_offset_def mk_gate_def split_u32 IDT_GATE_ATTR_def IDT_MAKE_ATTR_def)

text \<open>Setting the gates \<open>k, ..., k + n - 1\<close> one after the other.\<close>

definition set_gates :: "nat \<Rightarrow> (nat \<Rightarrow> u32) \<Rightarrow> u16 \<Rightarrow> u8 \<Rightarrow> nat \<Rightarrow> 'a intr_state_scheme \<Rightarrow> 'a intr_state_scheme" where
  "set_gates k b sel fl n = fold (\<lambda>i. idt_set_gate (of_nat (k + i)) (b i) sel fl) [0..<n]"

lemma set_gates_Suc:
  "set_gates k b sel fl (Suc n) s = idt_set_gate (of_nat (k + n)) (b n) sel fl (set_gates k b sel fl n s)"
  by (simp add: set_gates_def)

lemma set_gates_idt:
  "k + n \<le> 256 \<Longrightarrow> idt (set_gates k b sel fl n s) v =
     (if k \<le> unat v \<and> unat v < k + n then mk_gate (b (unat v - k)) sel fl else idt s v)"
proof (induction n)
  case (Suc n)
  have "unat (word_of_nat (k + n) :: u8) = k + n"
    using Suc.prems by (simp only: unat_of_nat) simp
  then have "v = word_of_nat (k + n) \<longleftrightarrow> unat v = k + n" by (simp add: word_unat_eq_iff)
  with Suc show ?case
    by (auto simp: set_gates_Suc idt_set_gate_def mk_gate_def [symmetric])
qed (auto simp: set_gates_def)

lemma set_gates_frame [simp]:
  "interrupt_handlers (set_gates k b sel fl n s) = interrupt_handlers s"
  "the_idt_ptr (set_gates k b sel fl n s) = the_idt_ptr s"
  "device_io (set_gates k b sel fl n s) = device_io s"
  "in_port (set_gates k b sel fl n s) = in_port s"
  by (induction n) (simp_all add: set_gates_Suc, simp_all add: set_gates_def idt_set_gate_def device_io_def)

lemma idt_init_folds:
  "fold clear_gate [0..<n] = set_gates 0 (\<lambda>i. 0) 0 0 n"
  "fold (SET_ISR syms) [0..<n] = set_gates 0 (isr_sym syms) GDT_KERNEL_CODE_SEL IDT_GATE_ATTR n"
  "fold (SET_IRQ syms) [0..<n] = set_gates 32 (irq_sym syms) GDT_KERNEL_CODE_SEL IDT_GATE_ATTR n"
  by (simp_all add: set_gates_def clear_gate_def [abs_def] SET_ISR_def [abs_def] SET_IRQ_def [abs_def])

lemma intr_pic_init [simp]:
  "interrupt_handlers (pic_init m v s) = interrupt_handlers s"
  "idt (pic_init m v s) = idt s"
  "the_idt_ptr (pic_init m v s) = the_idt_ptr s"
  by (simp_all add: pic_init_def Let_def io_wait_eq outb_def)

lemma idt_init_loads:
  "idtr (idt_init syms s) = Some \<lparr>idt_limit = 2047, idt_base = idt_sym syms\<rparr>"
  "interrupt_handlers (idt_init syms s) = interrupt_handlers s"
  by (simp_all add: idt_init_def Let_def idt_init_folds)

text \<open>C27: idt_init points vectors 0 to 31 at the exception stubs and 32 to 47 at the IRQ stubs,
  as present ring-0 interrupt gates in the kernel code segment, clears every other gate, loads
  the table with its real limit and base, and keeps the registered handlers.\<close>

theorem idt_init_table:
  "(\<forall>v. (if unat v < 32 then gate_ok (idt (idt_init syms s) v) (isr_sym syms (unat v))
        else if unat v < 48 then gate_ok (idt (idt_init syms s) v) (irq_sym syms (unat v - 32))
        else idt (idt_init syms s) v = mk_gate 0 0 0))
   \<and> idtr (idt_init syms s) = Some \<lparr>idt_limit = 2047, idt_base = idt_sym syms\<rparr>
   \<and> interrupt_handlers (idt_init syms s) = interrupt_handlers s"
proof -
  have "unat v < 256" for v :: u8 using unsigned_less [of v] by simp
  then show ?thesis
    by (simp add: idt_init_def Let_def idt_init_folds set_gates_idt mk_gate_ok [simplified])
qed

text \<open>C28: The bytes idt_init writes take both 8259 controllers through the whole initialisation
  sequence: vectors at 0x20 and 0x28, cascade on line 2, 8086 mode, and the interrupt masks
  that were read before it restored.\<close>

theorem idt_init_pics:
  "pic_run PIC1_CMD PIC1_DATA (device_io (idt_init syms s)) p =
     \<lparr>pic_phase = Ready, pic_icw1 = 0x11, pic_offset = 0x20, pic_cascade = 4, pic_mode = 1,
      pic_mask = in_port s PIC1_DATA\<rparr>
   \<and> pic_run PIC2_CMD PIC2_DATA (device_io (idt_init syms s)) p =
     \<lparr>pic_phase = Ready, pic_icw1 = 0x11, pic_offset = 0x28, pic_cascade = 2, pic_mode = 1,
      pic_mask = in_port s PIC2_DATA\<rparr>"
proof -
  have "device_io (s\<lparr>idtr := x\<rparr>) = device_io s" "device_io (s\<lparr>the_idt_ptr := y\<rparr>) = device_io s"
    for s :: "'a intr_state_scheme" and x y by (simp_all add: device_io_def)
  then show ?thesis
    by (simp add: idt_init_def Let_def idt_init_folds pic_init_programs [simplified])
qed

subsection \<open>Dispatch\<close>

lemma register_interrupt_handler_table:
  "interrupt_handlers (register_interrupt_handler v h s) = (interrupt_handlers s)(unat v := h)"
proof -
  have "unat v < 256" using unsigned_less [of v] by simp
  then show ?thesis by (simp add: register_interrupt_handler_def Let_def)
qed

theorem isr_handler_registered:
  assumes "h \<noteq> 0" "f_int_no frame = ucast v"
  shows "isr_handler code frame (register_interrupt_handler v h s) =
     seq_bind (code h frame ((register_interrupt_handler v h s)\<lparr>in_interrupt_context := True\<rparr>))
       (\<lambda>s'. Inr (s'\<lparr>in_interrupt_context := False\<rparr>))"
  using assms by (simp add: isr_handler_def Let_def register_interrupt_handler_table)

lemma intr_pic_send_eoi [simp]:
  "interrupt_handlers (pic_send_eoi irq s) = interrupt_handlers s"
  by (simp add: pic_send_eoi_def outb_def Let_def)

lemma pic_send_eoi_log:
  "io_log (pic_send_eoi irq s) = io_log s @ (if irq \<ge> 8 then [(PIC2_CMD, PIC_EOI)] else []) @ [(PIC1_CMD, PIC_EOI)]"
  by (simp add: pic_send_eoi_def outb_def Let_def)

text \<open>C29: irq_handler acknowledges the interrupt at the slave controller, when it came from
  there, and at the master before it runs the registered handler, which runs with the
  interrupt-context flag set; the flag is cleared when the handler returns.\<close>

theorem irq_handler_registered:
  assumes "h \<noteq> 0" "n < 16" "interrupt_handlers s (32 + n) = h" "f_int_no frame = of_nat (32 + n)"
  shows "\<exists>s1. irq_handler code frame s = seq_bind (code h frame s1) (\<lambda>s'. Inr (s'\<lparr>in_interrupt_context := False\<rparr>))
    \<and> in_interrupt_context s1
    \<and> io_log s1 = io_log s @ (if 8 \<le> n then [(PIC2_CMD, PIC_EOI)] else []) @ [(PIC1_CMD, PIC_EOI)]
    \<and> s1 = s\<lparr>in_interrupt_context := True, io_log := io_log s1\<rparr>"
proof -
  let ?s1 = "pic_send_eoi (of_nat n) (s\<lparr>in_interrupt_context := True\<rparr>)"
  have n: "unat (f_int_no frame) = 32 + n" using assms unat_of_nat_u32 [of "32 + n"] by simp
  have "ucast (f_int_no frame - 32 :: u32) = (of_nat n :: u8)"
    using assms by (simp add: unsigned_of_nat take_bit_nat_eq_self)
  moreover have "(8 :: u8) \<le> of_nat n \<longleftrightarrow> 8 \<le> n"
    using assms(2) by (simp add: word_le_nat_alt unat_of_nat take_bit_nat_eq_self)
  moreover have "?s1 = s\<lparr>in_interrupt_context := True, io_log := io_log ?s1\<rparr>"
    by (simp add: pic_send_eoi_def outb_def Let_def)
  ultimately show ?thesis using assms n
    by (intro exI [of _ ?s1]) (simp add: irq_handler_def Let_def pic_send_eoi_log pic_send_eoi_def outb_def)
qed

definition critical :: "u32 \<Rightarrow> bool" where
  "critical n \<longleftrightarrow> n = 8 \<or> n = 13 \<or> n = 14"

lemma screen_only_context:
  assumes "screen_only t t'"
  shows "screen_only (t\<lparr>in_interrupt_context := b\<rparr>) (t'\<lparr>in_interrupt_context := b\<rparr>)"
  using assms by (cases t; cases t') (simp add: screen_only_def device_io_def)

lemma screen_only_unhandled:
  "isr_unhandled frame s = Inr s' \<Longrightarrow> screen_only s s'"
  by (auto simp: isr_unhandled_def Let_def split: if_splits
      intro: printk_screen_only screen_only_trans [OF screen_only_trans [OF printk_screen_only printk_screen_only] printk_screen_only])

text \<open>C30: An exception without a handler halts the machine with interrupts disabled when it is a
  double fault, a protection fault or a page fault; otherwise it only prints and returns.\<close>

theorem isr_handler_unhandled:
  assumes "interrupt_handlers s (unat (f_int_no frame)) = 0"
  shows "if critical (f_int_no frame)
    then \<exists>p. isr_handler code frame s = Inl p \<and> \<not> interrupts_enabled p
    else \<exists>s'. isr_handler code frame s = Inr s' \<and> screen_only (s\<lparr>in_interrupt_context := False\<rparr>) s'"
proof (cases "critical (f_int_no frame)")
  case True
  with assms show ?thesis
    by (auto simp: critical_def isr_handler_def isr_unhandled_def Let_def)
next
  case False
  let ?s = "s\<lparr>in_interrupt_context := True\<rparr>"
  from False have "\<exists>s'. isr_unhandled frame ?s = Inr s'"
    by (auto simp: critical_def isr_unhandled_def Let_def)
  then obtain s' where s': "isr_unhandled frame ?s = Inr s'" ..
  then have "screen_only (?s\<lparr>in_interrupt_context := False\<rparr>) (s'\<lparr>in_interrupt_context := False\<rparr>)"
    by (intro screen_only_context screen_only_unhandled)
  with False assms s' show ?thesis by (simp add: isr_handler_def Let_def)
qed

subsection \<open>The assembly stubs\<close>

text \<open>
  The stack is the list of its words, the top first. The processor pushes EFLAGS, CS and EIP (no
  change of privilege in this kernel) and an error code for some exceptions; \<open>ISR_NOERR\<close> pushes
  a 0 in its place, \<open>ISR_ERR\<close> and \<open>IRQ\<close> push the vector only.
\<close>

record cpu =
  r_gs :: u32
  r_fs :: u32
  r_es :: u32
  r_ds :: u32
  r_edi :: u32
  r_esi :: u32
  r_ebp :: u32
  r_ebx :: u32
  r_edx :: u32
  r_ecx :: u32
  r_eax :: u32
  r_eip :: u32
  r_cs :: u32
  r_eflags :: u32

definition KERNEL_DS :: u32 where [simp]: "KERNEL_DS = 0x10"

definition has_err_code :: "nat \<Rightarrow> bool" where
  "has_err_code n \<longleftrightarrow> n \<in> {8, 10, 11, 12, 13, 14, 17}"

definition cpu_push :: "cpu \<Rightarrow> u32 option \<Rightarrow> u32 list \<Rightarrow> u32 list" where
  "cpu_push c err st = (case err of None \<Rightarrow> [] | Some e \<Rightarrow> [e]) @ [r_eip c, r_cs c, r_eflags c] @ st"

definition isr_push :: "nat \<Rightarrow> u32 list \<Rightarrow> u32 list" where
  "isr_push n st = (if has_err_code n then of_nat n # st else of_nat n # 0 # st)"

definition irq_push :: "nat \<Rightarrow> u32 list \<Rightarrow> u32 list" where
  "irq_push n st = of_nat (32 + n) # st"

text \<open>\<open>pusha\<close> and the four segment registers; \<open>esp\<close> is the value of ESP that \<open>pusha\<close> stores.\<close>

definition stub_save :: "cpu \<Rightarrow> u32 \<Rightarrow> u32 list \<Rightarrow> u32 list" where
  "stub_save c esp st =
     [r_gs c, r_fs c, r_es c, r_ds c, r_edi c, r_esi c, r_ebp c, esp, r_ebx c, r_edx c, r_ecx c, r_eax c] @ st"

definition frame_at :: "u32 list \<Rightarrow> interrupt_frame" where
  "frame_at st = \<lparr>f_gs = st ! 0, f_fs = st ! 1, f_es = st ! 2, f_ds = st ! 3, f_edi = st ! 4,
     f_esi = st ! 5, f_ebp = st ! 6, f_esp_dummy = st ! 7, f_ebx = st ! 8, f_edx = st ! 9,
     f_ecx = st ! 10, f_eax = st ! 11, f_int_no = st ! 12, f_err_code = st ! 13, f_eip = st ! 14,
     f_cs = st ! 15, f_eflags = st ! 16, f_useresp = st ! 17, f_ss = st ! 18\<rparr>"

text \<open>The exit: the pops, \<open>popa\<close>, dropping \<open>drop\<close> words, and \<open>iret\<close>.\<close>

definition stub_restore :: "nat \<Rightarrow> u32 list \<Rightarrow> cpu \<times> u32 list" where
  "stub_restore n st =
     (let rest = drop (12 + n) st
      in (\<lparr>r_gs = st ! 0, r_fs = st ! 1, r_es = st ! 2, r_ds = st ! 3, r_edi = st ! 4, r_esi = st ! 5,
           r_ebp = st ! 6, r_ebx = st ! 8, r_edx = st ! 9, r_ecx = st ! 10, r_eax = st ! 11,
           r_eip = rest ! 0, r_cs = rest ! 1, r_eflags = rest ! 2\<rparr>, drop 3 rest))"

definition isr_entry :: "nat \<Rightarrow> u32 \<Rightarrow> cpu \<Rightarrow> u32 \<Rightarrow> u32 list \<Rightarrow> u32 list" where
  "isr_entry n err c esp st =
     stub_save c esp (isr_push n (cpu_push c (if has_err_code n then Some err else None) st))"

definition irq_entry :: "nat \<Rightarrow> cpu \<Rightarrow> u32 \<Rightarrow> u32 list \<Rightarrow> u32 list" where
  "irq_entry n c esp st = stub_save c esp (irq_push n (cpu_push c None st))"

definition isr_exit :: "u32 list \<Rightarrow> cpu \<times> u32 list" where
  "isr_exit st = stub_restore 2 st"

definition irq_exit :: "u32 list \<Rightarrow> cpu \<times> u32 list" where
  "irq_exit st = stub_restore 1 st"

lemma nth_numeral_Cons [simp]: "(x # xs) ! numeral v = xs ! (numeral v - 1)"
  by (simp add: nth_Cons')

theorem stub_roundtrip:
  "isr_exit (isr_entry n err c esp st) = (c, st) \<and> irq_exit (irq_entry n c esp st) = (c, st)"
  by (simp add: isr_exit_def isr_entry_def irq_exit_def irq_entry_def stub_restore_def stub_save_def
      isr_push_def irq_push_def cpu_push_def)

theorem isr_frame:
  "let f = frame_at (isr_entry n err c esp st) in
     f_int_no f = of_nat n \<and> f_err_code f = (if has_err_code n then err else 0) \<and>
     f_eip f = r_eip c \<and> f_cs f = r_cs c \<and> f_eflags f = r_eflags c \<and> f_eax f = r_eax c"
  by (simp add: Let_def frame_at_def isr_entry_def stub_save_def isr_push_def cpu_push_def)

theorem irq_frame:
  "let f = frame_at (irq_entry n c esp st) in
     f_int_no f = of_nat (32 + n) \<and> f_err_code f = r_eip c \<and> f_eip f = r_cs c \<and> f_cs f = r_eflags c"
  by (simp add: Let_def frame_at_def irq_entry_def stub_save_def irq_push_def cpu_push_def)

subsection \<open>Delivery\<close>

text \<open>
  The delivery of IRQ \<open>n\<close> to a processor with registers \<open>c\<close> and stack \<open>st\<close>: it is held back while
  interrupts are disabled; otherwise the gate disables interrupts, the stub pushes the frame,
  the C dispatcher runs, and the exit of the stub restores the registers with \<open>EFLAGS\<close>.
\<close>

definition deliver_irq ::
  "(interrupt_frame \<Rightarrow> 'a machine_scheme \<Rightarrow> ('a machine_scheme, 'a machine_scheme) outcome) \<Rightarrow> nat \<Rightarrow> cpu \<times> u32 \<times> u32 list \<Rightarrow>
     'a machine_scheme \<Rightarrow> ('a machine_scheme, 'a machine_scheme) outcome" where
  "deliver_irq dispatch n = (\<lambda>(c, esp, st) s.
     if interrupts_enabled s then
       let stack = irq_entry n (c\<lparr>r_eflags := eflags s\<rparr>) esp st
       in seq_bind (dispatch (frame_at stack) (disable_interrupts s))
            (\<lambda>s. Inr (s\<lparr>eflags := r_eflags (fst (irq_exit stack))\<rparr>))
     else Inr s)"

primrec deliver_irqs ::
  "(interrupt_frame \<Rightarrow> 'a machine_scheme \<Rightarrow> ('a machine_scheme, 'a machine_scheme) outcome) \<Rightarrow> nat \<Rightarrow>
     (cpu \<times> u32 \<times> u32 list) list \<Rightarrow> 'a machine_scheme \<Rightarrow> ('a machine_scheme, 'a machine_scheme) outcome" where
  "deliver_irqs dispatch n [] s = Inr s"
| "deliver_irqs dispatch n (x # xs) s = seq_bind (deliver_irq dispatch n x s) (deliver_irqs dispatch n xs)"

lemma stub_restores: "fst (irq_exit (irq_entry n c esp st)) = c"
  by (simp add: irq_exit_def irq_entry_def stub_restore_def stub_save_def irq_push_def cpu_push_def)

lemma irq_vector: "f_int_no (frame_at (irq_entry n c esp st)) = of_nat (32 + n)"
  by (simp add: frame_at_def irq_entry_def stub_save_def irq_push_def)

end
