(* ===== verification/Timer.thy ===== *)
theory Timer
  imports Interrupt
begin

text \<open>
  \<open>08.kernel-mm/kernel/interrupt/timer.c\<close>: the tick counter and the programming of the
  interval timer. A division by zero raises \<open>#DE\<close>; the result of \<open>init_timer\<close> is then \<open>None\<close>.
\<close>

definition TIMER_FREQUENCY :: u32 where "TIMER_FREQUENCY = 50"
definition INT_IRQ0 :: u8 where [simp]: "INT_IRQ0 = 32"
definition PIT_CH0 :: u16 where [simp]: "PIT_CH0 = 0x40"
definition PIT_CMD :: u16 where [simp]: "PIT_CMD = 0x43"
definition PIT_CHANNEL0 :: u8 where [simp]: "PIT_CHANNEL0 = 0x00"
definition PIT_ACCESS_BOTH :: u8 where [simp]: "PIT_ACCESS_BOTH = 0x30"
definition PIT_MODE3 :: u8 where [simp]: "PIT_MODE3 = 0x06"
definition PIT_BCD :: u8 where [simp]: "PIT_BCD = 0x01"

record timer_state = intr_state +
  tick :: u32

definition getTick :: "'a timer_state_scheme \<Rightarrow> u32" where
  "getTick s = tick s"

definition timer_callback :: "interrupt_frame \<Rightarrow> 'a timer_state_scheme \<Rightarrow> 'a timer_state_scheme" where
  "timer_callback regs s = s\<lparr>tick := tick s + 1\<rparr>"

definition program_pit :: "u32 \<Rightarrow> 'a machine_scheme \<Rightarrow> 'a machine_scheme" where
  "program_pit divisor s =
     (let s = outb PIT_CMD (PIT_CHANNEL0 OR PIT_MODE3 OR PIT_ACCESS_BOTH OR PIT_BCD) s;
          l = ucast (divisor AND 0xFF) :: u8;
          h = ucast (drop_bit 8 divisor AND 0xFF) :: u8;
          s = outb PIT_CH0 l s
      in outb PIT_CH0 h s)"

definition init_timer :: "symbols \<Rightarrow> u32 \<Rightarrow> 'a timer_state_scheme \<Rightarrow> 'a timer_state_scheme option" where
  "init_timer syms frequency s =
     (let s = register_interrupt_handler INT_IRQ0 (timer_callback_sym syms) s
      in if frequency = 0 then None else Some (program_pit (1193180 div frequency) s))"

lemma timer_more_eqD: "vga_state.more t = vga_state.more (s :: 'a timer_state_scheme) \<Longrightarrow> tick t = tick s"
  by (cases s; cases t; simp)

lemma timer_printk [simp]: "tick (printk fmt args s) = tick (s :: 'a timer_state_scheme)"
  by (rule timer_more_eqD) simp

subsection \<open>The interval timer as a state machine\<close>

text \<open>
  Channel 0 of the 8254: a control word selects the access mode, the counting mode and binary or
  BCD counting; with access mode 3 the next two writes are the low and the high byte of the
  reload value.
\<close>

record pit =
  pit_low_next :: bool
  pit_mode :: u8
  pit_bcd :: bool
  pit_reload :: u16

definition pit_write :: "u16 \<times> u8 \<Rightarrow> pit \<Rightarrow> pit" where
  "pit_write w p =
     (if fst w = PIT_CMD \<and> snd w AND 0xF0 = 0x30 then
        p\<lparr>pit_low_next := True, pit_mode := snd w AND 0x0E, pit_bcd := bit (snd w) 0\<rparr>
      else if fst w = PIT_CH0 then
        if pit_low_next p then p\<lparr>pit_reload := ucast (snd w), pit_low_next := False\<rparr>
        else p\<lparr>pit_reload := pit_reload p OR push_bit 8 (ucast (snd w)), pit_low_next := True\<rparr>
      else p)"

definition pit_run :: "(u16 \<times> u8) list \<Rightarrow> pit \<Rightarrow> pit" where
  "pit_run log p = fold pit_write log p"

lemma program_pit_log:
  "io_log (program_pit d s) = io_log s @
     [(0x43, 0x37), (0x40, ucast (d AND 0xFF)), (0x40, ucast (drop_bit 8 d AND 0xFF))]"
  by (simp add: program_pit_def outb_def Let_def)

lemma reload_bytes:
  "(ucast (ucast (d AND 0xFF :: u32) :: u8) :: u16) OR
     push_bit 8 (ucast (ucast (drop_bit 8 d AND 0xFF :: u32) :: u8)) = ucast d"
proof -
  have m: "(0xFF :: u32) = mask 8" by (simp add: mask_eq_exp_minus_1)
  show ?thesis
    unfolding m
  proof (rule bit_word_eqI)
    fix n assume "n < LENGTH(16)"
    then show "bit ((ucast (ucast (d AND mask 8 :: u32) :: u8) :: u16) OR
       push_bit 8 (ucast (ucast (drop_bit 8 d AND mask 8 :: u32) :: u8))) n \<longleftrightarrow> bit (ucast d :: u16) n"
      by (cases "n < 8") (auto simp: bit_simps)
  qed
qed

lemma program_pit_programs:
  "pit_run (io_log (program_pit d s)) p =
     \<lparr>pit_low_next = True, pit_mode = PIT_MODE3, pit_bcd = True, pit_reload = ucast d\<rparr>"
  by (simp add: pit_run_def program_pit_log pit_write_def reload_bytes)


end
