(* ===== verification/Rand.thy ===== *)
theory Rand
  imports Timer
begin

text \<open>
  \<open>08.kernel-mm/kernel/lib/rand.c\<close>, the linear congruential generator. \<open>rand_range\<close> computes
  with a \<open>double\<close>; the kernel is compiled for the x87 (\<open>-m32\<close>, no SSE), whose registers have a
  64-bit significand. The product of a 31-bit and a 32-bit integer, scaled by \<open>2^-31\<close> and added
  to a 32-bit integer, is exact there, and the conversion back truncates. The model is therefore
  the integer formula.
\<close>

record rand_state = timer_state +
  seed :: u32

definition rand_a :: u32 where [simp]: "rand_a = 33550336"
definition rand_c :: u32 where [simp]: "rand_c = 8128"
definition rand_m :: u32 where [simp]: "rand_m = 0x80000000"

definition rand_seed :: "u32 \<Rightarrow> 'a rand_state_scheme \<Rightarrow> 'a rand_state_scheme" where
  "rand_seed new_seed s = s\<lparr>seed := new_seed\<rparr>"

definition rand_seed_with_time :: "'a rand_state_scheme \<Rightarrow> 'a rand_state_scheme" where
  "rand_seed_with_time s = rand_seed (getTick s) s"

definition rand :: "'a rand_state_scheme \<Rightarrow> u32 \<times> 'a rand_state_scheme" where
  "rand s =
     (let s = (if seed s = 0 then rand_seed_with_time s else s);
          s = s\<lparr>seed := (seed s * rand_a + rand_c) mod rand_m\<rparr>
      in (seed s, s))"

definition rand_range :: "u32 \<Rightarrow> u32 \<Rightarrow> 'a rand_state_scheme \<Rightarrow> u32 \<times> 'a rand_state_scheme" where
  "rand_range lo hi s =
     (let (r, s) = rand s
      in (of_nat (unat r * unat (hi - lo) div unat rand_m + unat lo), s))"

lemma unat_rand_step:
  "unat ((x * rand_a + rand_c) mod rand_m) = (unat x * 33550336 + 8128) mod 2147483648"
  by (simp add: unat_mod unat_word_ariths mod_mod_cancel mod_simps)

lemma rand_bound: "unat (fst (rand s)) < 2147483648"
  by (simp add: rand_def Let_def unat_rand_step del: rand_a_def rand_c_def rand_m_def)

lemma rand_range_in:
  assumes "lo < hi"
  shows "lo \<le> fst (rand_range lo hi s)" "fst (rand_range lo hi s) < hi"
proof -
  obtain r s' where r: "rand s = (r, s')" by (cases "rand s")
  have d: "unat (hi - lo) = unat hi - unat lo" "unat lo < unat hi"
    using assms by (simp_all add: unat_sub_u32 word_less_nat_alt word_le_nat_alt)
  have "unat r * unat (hi - lo) < 2147483648 * unat (hi - lo)"
    using rand_bound [of s] r d by simp
  then have "unat r * unat (hi - lo) div 2147483648 < unat (hi - lo)"
    by (simp add: div_less_iff_less_mult mult.commute)
  then have "unat r * unat (hi - lo) div 2147483648 + unat lo < unat hi" using d by simp
  moreover have "unat hi < 4294967296" by (rule unat_u32_bound)
  ultimately show "lo \<le> fst (rand_range lo hi s)" "fst (rand_range lo hi s) < hi"
    by (simp_all add: rand_range_def r word_le_nat_alt word_less_nat_alt unat_of_nat_u32 del: of_nat_add)
qed

theorem rand_range_bounds:
  assumes "lo < hi"
  shows "lo \<le> fst (rand_range lo hi s) \<and> fst (rand_range lo hi s) < hi"
  using rand_range_in [OF assms] by blast

text \<open>
  The multiplier is \<open>4096 * 8191\<close> and the modulus \<open>2^31\<close>, so the third power of the multiplier
  vanishes and the seed is forgotten after three steps.
\<close>

definition lcg :: "nat \<Rightarrow> nat" where
  "lcg x = (x * 33550336 + 8128) mod 2147483648"

lemma lcg_mod: "lcg (y mod 2147483648) = (y * 33550336 + 8128) mod 2147483648"
  unfolding lcg_def by (metis mod_add_left_eq mod_mult_left_eq)

lemma lcg_thrice: "lcg (lcg (lcg x)) = lcg (lcg (lcg 0))"
proof -
  have "((x * 33550336 + 8128) * 33550336 + 8128) * 33550336 + 8128
      = 2147483648 * (x * 17585744379872) + ((8128 * 33550336) + 8128) * 33550336 + (8128 :: nat)"
    by simp
  then have "(((x * 33550336 + 8128) * 33550336 + 8128) * 33550336 + 8128) mod 2147483648
      = (((8128 * 33550336) + 8128) * 33550336 + (8128 :: nat)) mod 2147483648"
    by (simp only: mod_mult_self4 add.assoc)
  then have "lcg ((x * 33550336 + 8128) * 33550336 + 8128) = lcg ((0 * 33550336 + 8128) * 33550336 + 8128)"
    by (simp only: lcg_def mult_zero_left add_0)
  then show ?thesis by (simp only: lcg_def [of x] lcg_def [of 0] lcg_mod) (simp only: lcg_def lcg_mod)
qed

lemma lcg_nonzero: "lcg x \<noteq> 0"
proof
  assume "lcg x = 0"
  then have "(x * 33550336 + 8128) mod 2147483648 mod 4096 = 0" by (simp add: lcg_def)
  then have "(x * 33550336 + 8128) mod 4096 = 0" using mod_mod_cancel [of 4096 2147483648 "x * 33550336 + 8128"] by simp
  moreover have "x * 33550336 + 8128 = 4032 + 4096 * (8191 * x + 1)" by simp
  ultimately have "(4032 + 4096 * (8191 * x + 1)) mod 4096 = 0" by (simp only:)
  then show False by (simp only: mod_mult_self2) simp
qed

lemma rand_lcg:
  "unat (seed (snd (rand s))) = lcg (unat (if seed s = 0 then tick s else seed s))"
  "fst (rand s) = seed (snd (rand s))"
  "seed (snd (rand s)) \<noteq> 0"
proof -
  show lcg: "unat (seed (snd (rand s))) = lcg (unat (if seed s = 0 then tick s else seed s))"
    by (simp add: rand_def Let_def rand_seed_with_time_def rand_seed_def getTick_def lcg_def
        unat_rand_step del: rand_a_def rand_c_def rand_m_def)
  show "fst (rand s) = seed (snd (rand s))" by (simp add: rand_def Let_def)
  show "seed (snd (rand s)) \<noteq> 0" using lcg lcg_nonzero by (metis unat_0)
qed

lemma rand_steps:
  "unat (seed (((snd \<circ> rand) ^^ n) (snd (rand s)))) = (lcg ^^ n) (unat (seed (snd (rand s))))
   \<and> seed (((snd \<circ> rand) ^^ n) (snd (rand s))) \<noteq> 0"
  by (induction n) (simp_all add: rand_lcg)

theorem rand_forgets_seed: "fst (rand (((snd \<circ> rand) ^^ (n + 2)) s)) = 1040457664"
proof -
  have fixp: "(lcg ^^ n) 1040457664 = 1040457664" for n by (induction n) (simp_all add: lcg_def)
  define x where "x = unat (if seed s = 0 then tick s else seed s)"
  have "fst (rand (((snd \<circ> rand) ^^ (n + 2)) s)) = seed (((snd \<circ> rand) ^^ (n + 2)) (snd (rand s)))"
    using funpow_swap1 [of "snd \<circ> rand" "n + 2" s] by (simp only: rand_lcg(2) o_apply)
  then have "unat (fst (rand (((snd \<circ> rand) ^^ (n + 2)) s))) = (lcg ^^ (n + 2)) (lcg x)"
    using rand_steps [of "n + 2" s] by (simp only: rand_lcg(1) x_def)
  also have "\<dots> = (lcg ^^ n) (lcg (lcg (lcg x)))" by (simp add: funpow_swap1)
  also have "\<dots> = 1040457664" using lcg_thrice [of x] fixp [of n] by (simp add: lcg_def)
  finally show ?thesis by (simp add: word_unat_eq_iff)
qed

end
