(* ===== verification/Gdt.thy ===== *)
theory Gdt
  imports Rand
begin

text \<open>
  \<open>08.kernel-mm/kernel/mem/gdt.c\<close>, \<open>include/gdt.h\<close> and \<open>mem/gdt.S\<close>: the segment descriptors, the
  task state segment, loading them, and the dump. The segment registers the dump reads are part
  of the state. \<open>gdt_flush\<close> loads the descriptor table from the address in EAX, whatever its stack
  argument is; the value of EAX at the call is an argument of \<open>gdt_init\<close>.
\<close>

definition GDT_ENTRY_COUNT :: nat where [simp]: "GDT_ENTRY_COUNT = 7"

definition GDT_CODE_KERNEL :: u8 where "GDT_CODE_KERNEL = 0x80 OR 0x00 OR 0x10 OR 0x0A"
definition GDT_DATA_KERNEL :: u8 where "GDT_DATA_KERNEL = 0x80 OR 0x00 OR 0x10 OR 0x02"
definition GDT_CODE_USER :: u8 where "GDT_CODE_USER = 0x80 OR 0x60 OR 0x10 OR 0x0A"
definition GDT_DATA_USER :: u8 where "GDT_DATA_USER = 0x80 OR 0x60 OR 0x10 OR 0x02"
definition GDT_TSS_AVAIL :: u8 where "GDT_TSS_AVAIL = 0x80 OR 0x00 OR 0x00 OR 0x09"
definition GDT_FLAGS_KERNEL :: u8 where "GDT_FLAGS_KERNEL = 0x80 OR 0x40"
definition GDT_FLAGS_USER :: u8 where "GDT_FLAGS_USER = 0x80 OR 0x40"
definition GDT_FLAGS_VEDIO :: u8 where "GDT_FLAGS_VEDIO = 0x00 OR 0x00"
definition GDT_FLAGS_TSS :: u8 where "GDT_FLAGS_TSS = 0x00 OR 0x40"

definition GDT_SELECTOR :: "u32 \<Rightarrow> u32 \<Rightarrow> u32" where
  "GDT_SELECTOR index rpl = push_bit 3 index OR (rpl AND 0x3)"

definition GDT_KERNEL_DATA_SEL :: u32 where "GDT_KERNEL_DATA_SEL = GDT_SELECTOR 2 0"
definition GDT_TSS_SEL :: u32 where "GDT_TSS_SEL = GDT_SELECTOR 6 0"
definition GDT_TSS_ESP0 :: u32 where "GDT_TSS_ESP0 = 0xF0000000 - 16"

record gdt_entry =
  limit_low :: u16
  base_low :: u16
  base_mid :: u8
  access :: u8
  granularity :: u8
  base_high :: u8

record gdt_ptr =
  gdt_limit :: u16
  gdt_base :: u32

record tss_struct =
  tss_prev_tss :: u32
  tss_esp0 :: u32
  tss_ss0 :: u32
  tss_esp1 :: u32
  tss_ss1 :: u32
  tss_esp2 :: u32
  tss_ss2 :: u32
  tss_cr3 :: u32
  tss_eip :: u32
  tss_eflags :: u32
  tss_eax :: u32
  tss_ecx :: u32
  tss_edx :: u32
  tss_ebx :: u32
  tss_esp :: u32
  tss_ebp :: u32
  tss_esi :: u32
  tss_edi :: u32
  tss_es :: u32
  tss_cs :: u32
  tss_ss :: u32
  tss_ds :: u32
  tss_fs :: u32
  tss_gs :: u32
  tss_ldt :: u32
  tss_trap :: u16
  tss_iomap_base :: u16

text \<open>The size of the packed structure: 25 double words and two words.\<close>

definition sizeof_tss :: nat where [simp]: "sizeof_tss = 104"

definition empty_tss :: tss_struct where
  "empty_tss = \<lparr>tss_prev_tss = 0, tss_esp0 = 0, tss_ss0 = 0, tss_esp1 = 0, tss_ss1 = 0,
     tss_esp2 = 0, tss_ss2 = 0, tss_cr3 = 0, tss_eip = 0, tss_eflags = 0, tss_eax = 0,
     tss_ecx = 0, tss_edx = 0, tss_ebx = 0, tss_esp = 0, tss_ebp = 0, tss_esi = 0, tss_edi = 0,
     tss_es = 0, tss_cs = 0, tss_ss = 0, tss_ds = 0, tss_fs = 0, tss_gs = 0, tss_ldt = 0,
     tss_trap = 0, tss_iomap_base = 0\<rparr>"

definition empty_gdt_entry :: gdt_entry where
  "empty_gdt_entry = \<lparr>limit_low = 0, base_low = 0, base_mid = 0, access = 0, granularity = 0,
     base_high = 0\<rparr>"

record segments =
  seg_cs :: u16
  seg_ds :: u16
  seg_es :: u16
  seg_fs :: u16
  seg_gs :: u16
  seg_ss :: u16
  seg_tr :: u16

record gdt_state = rand_state +
  gdt :: "nat \<Rightarrow> gdt_entry"
  the_gdt_ptr :: gdt_ptr
  tss :: tss_struct
  gdtr :: "gdt_ptr option"
  segs :: segments

definition gdt_set_gate ::
  "nat \<Rightarrow> u32 \<Rightarrow> u32 \<Rightarrow> u8 \<Rightarrow> u8 \<Rightarrow> 'a gdt_state_scheme \<Rightarrow> 'a gdt_state_scheme" where
  "gdt_set_gate num base limit acc gran s =
     s\<lparr>gdt := (gdt s)(num := (gdt s num)\<lparr>
         base_low := ucast (base AND 0xFFFF),
         base_mid := ucast (drop_bit 16 base AND 0xFF),
         base_high := ucast (drop_bit 24 base AND 0xFF),
         limit_low := ucast (limit AND 0xFFFF),
         granularity := ucast (drop_bit 16 limit AND 0x0F) OR (gran AND 0xF0),
         access := acc\<rparr>)\<rparr>"

definition tss_set_stack :: "u32 \<Rightarrow> 'a gdt_state_scheme \<Rightarrow> 'a gdt_state_scheme" where
  "tss_set_stack stack s = s\<lparr>tss := (tss s)\<lparr>tss_esp0 := stack\<rparr>\<rparr>"

text \<open>
  \<open>lgdt [eax]\<close>: \<open>None\<close> stands for whatever six bytes are at another address than \<open>gdt_ptr\<close>'s.
\<close>

definition gdt_flush :: "u32 \<Rightarrow> u32 \<Rightarrow> 'a gdt_state_scheme \<Rightarrow> 'a gdt_state_scheme" where
  "gdt_flush gdt_ptr_addr eax s =
     s\<lparr>gdtr := (if eax = gdt_ptr_addr then Some (the_gdt_ptr s) else None),
       segs := (segs s)\<lparr>seg_cs := 0x08, seg_ds := 0x10, seg_es := 0x10, seg_fs := 0x10,
                        seg_gs := 0x10, seg_ss := 0x10\<rparr>\<rparr>"

definition tss_flush :: "'a gdt_state_scheme \<Rightarrow> 'a gdt_state_scheme" where
  "tss_flush s = s\<lparr>segs := (segs s)\<lparr>seg_tr := 0x30\<rparr>\<rparr>"

definition gdt_init :: "symbols \<Rightarrow> u32 \<Rightarrow> u32 \<Rightarrow> 'a gdt_state_scheme \<Rightarrow> 'a gdt_state_scheme" where
  "gdt_init syms gdt_ptr_addr eax s =
     (let s = s\<lparr>gdt := (\<lambda>i. if i < GDT_ENTRY_COUNT then empty_gdt_entry else gdt s i)\<rparr>;
          s = s\<lparr>tss := empty_tss\<rparr>;
          s = s\<lparr>the_gdt_ptr := \<lparr>gdt_limit = of_nat (8 * GDT_ENTRY_COUNT - 1), gdt_base = gdt_sym syms\<rparr>\<rparr>;
          s = gdt_set_gate 0 0 0 0 0 s;
          s = gdt_set_gate 1 0 0xFFFFF GDT_CODE_KERNEL GDT_FLAGS_KERNEL s;
          s = gdt_set_gate 2 0 0xFFFFF GDT_DATA_KERNEL GDT_FLAGS_KERNEL s;
          s = gdt_set_gate 3 0x000B8000 0x07FFF GDT_DATA_KERNEL GDT_FLAGS_VEDIO s;
          s = gdt_set_gate 4 0 0xFFFFF GDT_CODE_USER GDT_FLAGS_USER s;
          s = gdt_set_gate 5 0 0xFFFFF GDT_DATA_USER GDT_FLAGS_USER s;
          base = tss_sym syms;
          limit = of_nat (sizeof_tss - 1);
          s = gdt_set_gate 6 base limit GDT_TSS_AVAIL GDT_FLAGS_TSS s;
          s = s\<lparr>tss := (tss s)\<lparr>tss_cs := ucast GDT_KERNEL_CODE_SEL,
                tss_ss := GDT_KERNEL_DATA_SEL, tss_ds := GDT_KERNEL_DATA_SEL,
                tss_es := GDT_KERNEL_DATA_SEL, tss_fs := GDT_KERNEL_DATA_SEL,
                tss_gs := GDT_KERNEL_DATA_SEL, tss_ss0 := GDT_KERNEL_DATA_SEL,
                tss_esp0 := GDT_TSS_ESP0, tss_iomap_base := of_nat sizeof_tss\<rparr>\<rparr>;
          s = gdt_flush gdt_ptr_addr eax s;
          s = tss_flush s
      in printk ''[GDT] Initialized.\<newline>'' [] s)"

definition get_access_type_str :: "u8 \<Rightarrow> string" where
  "get_access_type_str acc =
     (if acc AND 0x80 = 0 then ''Not Present''
      else if acc AND 0x10 \<noteq> 0 then
        (if acc AND 0x08 \<noteq> 0 then (if acc AND 0x02 \<noteq> 0 then ''Code, Readable'' else ''Code, Execute-Only'')
         else (if acc AND 0x02 \<noteq> 0 then ''Data, Read/Write'' else ''Data, Read-Only''))
      else if acc AND 0x0F = 0x9 then ''TSS (Available 32-bit)''
      else if acc AND 0x0F = 0xB then ''TSS (Busy 32-bit)''
      else ''System (Other)'')"

definition entry_base :: "gdt_entry \<Rightarrow> u32" where
  "entry_base e = ucast (base_low e) OR push_bit 16 (ucast (base_mid e)) OR push_bit 24 (ucast (base_high e))"

definition entry_limit :: "gdt_entry \<Rightarrow> u32" where
  "entry_limit e = ucast (limit_low e) OR push_bit 16 (ucast (granularity e) AND 0x0F)"

definition print_gdt_entry :: "nat \<Rightarrow> gdt_entry \<Rightarrow> 'a vga_state_scheme \<Rightarrow> 'a vga_state_scheme" where
  "print_gdt_entry i e s =
     (let base = entry_base e; limit = entry_limit e; acc = access e; gran = granularity e;
          s = printk ''GDT[%d]: Base=0x%x, Limit=0x%x, Access=0x%x, Gran=0x%x\<newline>''
                [Word (of_nat i), Word base, Word limit, Word (ucast acc), Word (ucast gran)] s
      in printk ''        -> Type: %s, DPL=%d, Granularity=%s, Size=%s\<newline>''
           [Str (Some (get_access_type_str acc)), Word (drop_bit 5 (ucast acc) AND 0x3),
            Str (Some (if gran AND 0x80 \<noteq> 0 then ''4K'' else ''1B'')),
            Str (Some (if gran AND 0x40 \<noteq> 0 then ''32-bit'' else ''16-bit''))] s)"

definition gdt_dump :: "'a gdt_state_scheme \<Rightarrow> 'a gdt_state_scheme" where
  "gdt_dump s =
     (let s = printk ''\<newline>--- GDT Dump ---\<newline>'' [] s;
          s = printk ''GDT Base: 0x%x, Limit: 0x%x\<newline>''
                [Word (gdt_base (the_gdt_ptr s)), Word (ucast (gdt_limit (the_gdt_ptr s)))] s;
          s = fold (\<lambda>i s. print_gdt_entry i (gdt s i) s) [0..<GDT_ENTRY_COUNT] s;
          s = printk ''\<newline>--- CPU Segment Registers ---\<newline>'' [] s;
          r = segs s;
          s = printk ''CS: 0x%x, DS: 0x%x, ES: 0x%x\<newline>''
                [Word (ucast (seg_cs r)), Word (ucast (seg_ds r)), Word (ucast (seg_es r))] s;
          s = printk ''FS: 0x%x, GS: 0x%x, SS: 0x%x\<newline>''
                [Word (ucast (seg_fs r)), Word (ucast (seg_gs r)), Word (ucast (seg_ss r))] s
      in printk ''--------------------\<newline>'' [] s)"

subsection \<open>What the processor reads in a descriptor\<close>

text \<open>The last byte a segment reaches: the limit counts pages when the granularity bit is set.\<close>

definition segment_last :: "gdt_entry \<Rightarrow> nat" where
  "segment_last e = (if bit (granularity e) 7 then unat (entry_limit e) * 4096 + 4095
     else unat (entry_limit e))"

definition segment_dpl :: "gdt_entry \<Rightarrow> nat" where
  "segment_dpl e = unat (drop_bit 5 (access e) AND 0x3)"

text \<open>\<open>gdt_set_gate\<close> writes all six fields, so the entry does not depend on the old one.\<close>

definition mk_entry :: "u32 \<Rightarrow> u32 \<Rightarrow> u8 \<Rightarrow> u8 \<Rightarrow> gdt_entry" where
  "mk_entry base limit acc gran =
     \<lparr>limit_low = ucast (limit AND 0xFFFF), base_low = ucast (base AND 0xFFFF),
      base_mid = ucast (drop_bit 16 base AND 0xFF), access = acc,
      granularity = ucast (drop_bit 16 limit AND 0x0F) OR (gran AND 0xF0),
      base_high = ucast (drop_bit 24 base AND 0xFF)\<rparr>"

lemma gdt_set_gate_eq [simp]:
  "gdt (gdt_set_gate n base limit acc gran s) = (gdt s)(n := mk_entry base limit acc gran)"
  by (cases "gdt s n") (simp add: gdt_set_gate_def mk_entry_def)

lemma byte_masks: "(0xFFFF :: u32) = mask 16" "(0xFF :: u32) = mask 8" "(0x0F :: u32) = mask 4"
  "(0xF0 :: u8) = NOT (mask 4)"
  by (simp_all add: mask_eq_exp_minus_1)

lemma mk_entry_base [simp]: "entry_base (mk_entry base limit acc gran) = base"
  unfolding entry_base_def mk_entry_def gdt_entry.simps byte_masks
proof (rule bit_word_eqI)
  fix k assume "k < LENGTH(32)"
  then consider "k < 16" | "16 \<le> k" "k < 24" | "24 \<le> k" "k < 32" by force
  then show "bit (ucast (ucast (base AND mask 16) :: u16) OR
       push_bit 16 (ucast (ucast (drop_bit 16 base AND mask 8) :: u8)) OR
       push_bit 24 (ucast (ucast (drop_bit 24 base AND mask 8) :: u8)) :: u32) k \<longleftrightarrow> bit base k"
    by cases (auto simp: bit_simps)
qed

lemma bit_limit: "limit < 0x100000 \<Longrightarrow> 20 \<le> k \<Longrightarrow> \<not> bit (limit :: u32) k"
proof
  assume "limit < 0x100000" "20 \<le> k" "bit limit k"
  then have "bit (unat limit) k" by (simp add: bit_unsigned_iff bit_imp_le_length)
  moreover have "unat limit < 2 ^ k"
  proof -
    have "unat limit < 2 ^ 20" using \<open>limit < 0x100000\<close> by (simp add: word_less_nat_alt)
    also have "\<dots> \<le> 2 ^ k" using \<open>20 \<le> k\<close> by (rule power_increasing) simp
    finally show ?thesis .
  qed
  ultimately show False by (simp add: bit_iff_odd)
qed

lemma mk_entry_limit [simp]:
  assumes "limit < 0x100000"
  shows "entry_limit (mk_entry base limit acc gran) = limit"
  unfolding entry_limit_def mk_entry_def gdt_entry.simps byte_masks
proof (rule bit_word_eqI)
  fix k assume "k < LENGTH(32)"
  then consider "k < 16" | "16 \<le> k" "k < 20" | "20 \<le> k" "k < 32" by force
  then show "bit (ucast (ucast (limit AND mask 16) :: u16) OR
       push_bit 16 (ucast (ucast (drop_bit 16 limit AND mask 4) OR (gran AND NOT (mask 4)) :: u8) AND mask 4) :: u32) k
       \<longleftrightarrow> bit limit k"
    using bit_limit [OF assms, of k] by cases (auto simp: bit_simps)
qed

lemma mk_entry_flags [simp]:
  "access (mk_entry base limit acc gran) = acc"
  "4 \<le> k \<Longrightarrow> bit (granularity (mk_entry base limit acc gran)) k \<longleftrightarrow> bit gran k"
  unfolding mk_entry_def gdt_entry.simps byte_masks
  by (auto simp: bit_simps dest: bit_imp_le_length)

lemma gdt_more_eqD:
  assumes "vga_state.more s' = vga_state.more (s :: 'a gdt_state_scheme)"
  shows "gdt s' = gdt s" "the_gdt_ptr s' = the_gdt_ptr s" "tss s' = tss s" "gdtr s' = gdtr s"
    "segs s' = segs s" "gdt_state.more s' = gdt_state.more s"
  using assms by (cases s; cases s'; simp)+

lemma gdt_printk [simp]:
  "gdt (printk fmt args s) = gdt s"
  "the_gdt_ptr (printk fmt args s) = the_gdt_ptr s"
  "tss (printk fmt args s) = tss s"
  "gdtr (printk fmt args s) = gdtr s"
  "segs (printk fmt args s) = segs s"
  by (rule gdt_more_eqD, simp)+

lemma gdt_set_gate_frame [simp]:
  "the_gdt_ptr (gdt_set_gate n base limit acc gran s) = the_gdt_ptr s"
  "tss (gdt_set_gate n base limit acc gran s) = tss s"
  "segs (gdt_set_gate n base limit acc gran s) = segs s"
  by (simp_all add: gdt_set_gate_def)

text \<open>The flat segments reach from 0 to the last byte of the address space.\<close>

definition flat_segment :: "gdt_entry \<Rightarrow> string \<Rightarrow> nat \<Rightarrow> bool" where
  "flat_segment e type dpl \<longleftrightarrow> entry_base e = 0 \<and> segment_last e = 2 ^ 32 - 1 \<and>
     get_access_type_str (access e) = type \<and> segment_dpl e = dpl"

lemma gdt_init_table:
  "gdt (gdt_init syms p eax s) = (\<lambda>i. if i < GDT_ENTRY_COUNT then empty_gdt_entry else gdt s i)
     (0 := mk_entry 0 0 0 0,
      1 := mk_entry 0 0xFFFFF GDT_CODE_KERNEL GDT_FLAGS_KERNEL,
      2 := mk_entry 0 0xFFFFF GDT_DATA_KERNEL GDT_FLAGS_KERNEL,
      3 := mk_entry 0xB8000 0x7FFF GDT_DATA_KERNEL GDT_FLAGS_VEDIO,
      4 := mk_entry 0 0xFFFFF GDT_CODE_USER GDT_FLAGS_USER,
      5 := mk_entry 0 0xFFFFF GDT_DATA_USER GDT_FLAGS_USER,
      6 := mk_entry (tss_sym syms) 103 GDT_TSS_AVAIL GDT_FLAGS_TSS)"
  by (simp add: gdt_init_def Let_def gdt_flush_def tss_flush_def)


theorem gdt_init_loaded:
  "gdtr (gdt_init syms p p s) = Some \<lparr>gdt_limit = 55, gdt_base = gdt_sym syms\<rparr>
   \<and> tss_esp0 (tss (gdt_init syms p p s)) = 0xEFFFFFF0
   \<and> tss_ss0 (tss (gdt_init syms p p s)) = ucast (seg_ss (segs (gdt_init syms p p s)))
   \<and> ucast (seg_tr (segs (gdt_init syms p p s))) = GDT_TSS_SEL"
proof -
  have "GDT_KERNEL_DATA_SEL = 0x10" "GDT_TSS_SEL = 0x30" by code_simp+
  then show ?thesis
    by (simp add: gdt_init_def Let_def gdt_flush_def tss_flush_def GDT_TSS_ESP0_def)
qed

end
