(* ===== verification/Boot_text.thy ===== *)
theory Boot_text
  imports Gdt
begin

text \<open>
  What the loader shows on the screen before the kernel runs: the text routines of
  \<open>common/lib/pm_utils.S\<close>, which write through the segment register GS, and the descriptor table of
  \<open>common/bootmacros.inc\<close> that GS is loaded from. A store beyond the limit of the segment raises
  \<open>#GP\<close>; the loader has no interrupt table, so that the processor shuts down: \<open>None\<close>.
\<close>

subsection \<open>The descriptor table of the loader\<close>

definition ACCESS_CODE32_KERNEL :: u8 where "ACCESS_CODE32_KERNEL = 0x80 OR 0x00 OR 0x10 OR 0x0A"
definition ACCESS_DATA32_KERNEL :: u8 where "ACCESS_DATA32_KERNEL = 0x80 OR 0x00 OR 0x10 OR 0x02"
definition FLAGS_4K_32BIT :: u8 where "FLAGS_4K_32BIT = 0x8 OR 0x4 OR 0x0"
definition FLAGS_G_BYTE :: u8 where "FLAGS_G_BYTE = 0x0"
definition DESC_LIMIT_MAX :: u32 where "DESC_LIMIT_MAX = 0xFFFFF"

definition GDT_ENTRY :: "u32 \<Rightarrow> u32 \<Rightarrow> u8 \<Rightarrow> u8 \<Rightarrow> gdt_entry" where
  "GDT_ENTRY base limit acc flags =
     \<lparr>limit_low = ucast (limit AND 0xFFFF), base_low = ucast (base AND 0xFFFF),
      base_mid = ucast (drop_bit 16 base AND 0xFF), access = acc,
      granularity = (ucast (drop_bit 16 limit) AND 0x0F) OR push_bit 4 (flags AND 0x0F),
      base_high = ucast (drop_bit 24 base AND 0xFF)\<rparr>"

definition DEFINE_STANDARD_GDT :: "gdt_entry list" where
  "DEFINE_STANDARD_GDT =
     [GDT_ENTRY 0 0 0 0,
      GDT_ENTRY 0 DESC_LIMIT_MAX ACCESS_CODE32_KERNEL FLAGS_4K_32BIT,
      GDT_ENTRY 0 DESC_LIMIT_MAX ACCESS_DATA32_KERNEL FLAGS_4K_32BIT,
      GDT_ENTRY 0xB8000 0x07FF ACCESS_DATA32_KERNEL FLAGS_G_BYTE]"

text \<open>\<open>SELECTOR_VIDEO\<close> is the fourth entry.\<close>

definition video_segment :: gdt_entry where
  "video_segment = DEFINE_STANDARD_GDT ! 3"

text \<open>\<open>enable_page\<close> moves the video segment up by \<open>or dword [ebx + 0x18 + 4], KERNEL_SPACE_START\<close>, before the GDT is loaded again.\<close>

definition move_video_segment :: "gdt_entry \<Rightarrow> gdt_entry" where
  "move_video_segment e = e\<lparr>base_high := base_high e OR 0xC0\<rparr>"

subsection \<open>The text routines\<close>

definition SCREEN_WIDTH :: u32 where [simp]: "SCREEN_WIDTH = 80"
definition SCREEN_HEIGHT :: u32 where [simp]: "SCREEN_HEIGHT = 25"

text \<open>The cells of the screen, by their index, and the cursor of the library.\<close>

record text_state = machine +
  cells :: "nat \<Rightarrow> u16"
  text_row :: u32
  text_col :: u32

definition gs_store16 :: "gdt_entry \<Rightarrow> u32 \<Rightarrow> u16 \<Rightarrow> 'a text_state_scheme \<Rightarrow> 'a text_state_scheme option" where
  "gs_store16 gs off w s =
     (if unat off + 1 \<le> segment_last gs then Some (s\<lparr>cells := (cells s)(unat off div 2 := w)\<rparr>) else None)"

definition set_hardware_cursor :: "u32 \<Rightarrow> u32 \<Rightarrow> 'a machine_scheme \<Rightarrow> 'a machine_scheme" where
  "set_hardware_cursor row col s =
     (let bx = ucast (row * SCREEN_WIDTH + col) :: u16;
          s = outb 0x3D4 0x0E s;
          s = outb 0x3D5 (ucast (drop_bit 8 bx)) s;
          s = outb 0x3D4 0x0F s
      in outb 0x3D5 (ucast bx) s)"

definition sync_hardware_cursor :: "'a text_state_scheme \<Rightarrow> 'a text_state_scheme" where
  "sync_hardware_cursor s = set_hardware_cursor (text_row s) (text_col s) s"

primrec clear_loop :: "gdt_entry \<Rightarrow> nat \<Rightarrow> u32 \<Rightarrow> 'a text_state_scheme \<Rightarrow> 'a text_state_scheme option" where
  "clear_loop gs 0 edi s = Some s"
| "clear_loop gs (Suc esi) edi s = Option.bind (gs_store16 gs edi 0x0720 s) (clear_loop gs esi (edi + 2))"

definition clear_screen :: "gdt_entry \<Rightarrow> 'a text_state_scheme \<Rightarrow> 'a text_state_scheme option" where
  "clear_screen gs s =
     map_option (\<lambda>s. set_hardware_cursor 0 0 (s\<lparr>text_row := 0, text_col := 0\<rparr>))
       (clear_loop gs (unat (SCREEN_WIDTH * SCREEN_HEIGHT)) 0 s)"

definition cursor_newline :: "'a text_state_scheme \<Rightarrow> 'a text_state_scheme" where
  "cursor_newline s =
     (let eax = text_row s + 1; eax = (if eax < SCREEN_HEIGHT then eax else SCREEN_HEIGHT - 1)
      in s\<lparr>text_row := eax, text_col := 0\<rparr>)"

text \<open>
  \<open>.print_loop\<close> on the bytes at ESI. AH holds the attribute, until \<open>.newline\<close> computes the address of
  the next row in EAX. \<open>jl\<close> compares as signed.
\<close>

fun print_loop :: "gdt_entry \<Rightarrow> u8 list \<Rightarrow> u32 \<Rightarrow> u8 \<Rightarrow> 'a text_state_scheme \<Rightarrow> 'a text_state_scheme option" where
  "print_loop gs [] edi ah s = Some s"
| "print_loop gs (al # str) edi ah s =
     (let newline = (\<lambda>s. let s = s\<lparr>text_col := 0, text_row := text_row s + 1\<rparr>;
                             eax = push_bit 1 (text_row s * SCREEN_WIDTH)
                         in print_loop gs str eax (ucast (drop_bit 8 eax)) s)
      in if al = 0 then Some s
         else if al = 10 then newline s
         else Option.bind (gs_store16 gs edi (push_bit 8 (ucast ah) OR ucast al) s) (\<lambda>s.
           let s = s\<lparr>text_col := text_col s + 1\<rparr>
           in if text_col s <s SCREEN_WIDTH then print_loop gs str (edi + 2) ah s else newline s))"

definition print_string :: "gdt_entry \<Rightarrow> u8 list \<Rightarrow> u8 \<Rightarrow> 'a text_state_scheme \<Rightarrow> 'a text_state_scheme option" where
  "print_string gs str attr s =
     print_loop gs str (push_bit 1 (text_row s * SCREEN_WIDTH + text_col s)) attr s"

definition println :: "gdt_entry \<Rightarrow> u8 list \<Rightarrow> u8 \<Rightarrow> 'a text_state_scheme \<Rightarrow> 'a text_state_scheme option" where
  "println gs str attr s = map_option (\<lambda>s. sync_hardware_cursor (cursor_newline s)) (print_string gs str attr s)"

subsection \<open>The screen is larger than the segment\<close>

lemma GDT_ENTRY_eq: "GDT_ENTRY base limit acc flags = mk_entry base limit acc (push_bit 4 flags)"
proof -
  have "(ucast (drop_bit 16 limit) AND 0x0F) OR push_bit 4 (flags AND 0x0F) =
      (ucast (drop_bit 16 limit AND 0x0F :: u32) OR (push_bit 4 flags AND 0xF0) :: u8)"
  proof -
    have m: "(0x0F :: u8) = mask 4" by (simp add: mask_eq_exp_minus_1)
    show ?thesis unfolding m byte_masks by (rule bit_word_eqI) (auto simp: bit_simps)
  qed
  then show ?thesis by (simp add: GDT_ENTRY_def mk_entry_def)
qed

text \<open>The kernel loads the same null, code and data descriptors again, and a video segment of 32 KiB.\<close>

lemma standard_gdt_kernel: "i < 3 \<Longrightarrow> gdt (gdt_init syms p eax s) i = DEFINE_STANDARD_GDT ! i"
proof -
  have "push_bit 4 FLAGS_4K_32BIT = GDT_FLAGS_KERNEL" "ACCESS_CODE32_KERNEL = GDT_CODE_KERNEL" "ACCESS_DATA32_KERNEL = GDT_DATA_KERNEL"
    by (simp_all add: FLAGS_4K_32BIT_def GDT_FLAGS_KERNEL_def ACCESS_CODE32_KERNEL_def GDT_CODE_KERNEL_def
      ACCESS_DATA32_KERNEL_def GDT_DATA_KERNEL_def)
  note c = this
  assume "i < 3"
  then consider "i = 0" | "i = 1" | "i = 2" by linarith
  then show ?thesis
    by cases (simp_all add: c gdt_init_table DEFINE_STANDARD_GDT_def GDT_ENTRY_eq DESC_LIMIT_MAX_def)
qed

lemma video_segment_fields:
  "entry_base video_segment = 0xB8000" "segment_last video_segment = 0x7FF"
  "entry_base (move_video_segment video_segment) = 0xC00B8000" "segment_last (move_video_segment video_segment) = 0x7FF"
  by code_simp+

lemma clear_loop_spec:
  assumes "2 * (k + n) \<le> 4294967296"
  shows "clear_loop gs n (word_of_nat (2 * k)) s =
    (if n = 0 \<or> 2 * (k + n) \<le> segment_last gs + 1 then Some (s\<lparr>cells := fill_cells k n 0x0720 (cells s)\<rparr>) else None)"
  using assms
proof (induction n arbitrary: k s)
  case (Suc n)
  have u: "unat (word_of_nat (2 * k) :: u32) = 2 * k" using Suc.prems by (intro unat_of_nat_u32) simp
  have step: "word_of_nat (2 * k) + 2 = (word_of_nat (2 * Suc k) :: u32)" by simp
  then have "clear_loop gs (Suc n) (word_of_nat (2 * k)) s =
      (if 2 * k + 1 \<le> segment_last gs
       then clear_loop gs n (word_of_nat (2 * Suc k)) (s\<lparr>cells := (cells s)(k := 0x0720)\<rparr>) else None)"
    unfolding clear_loop.simps gs_store16_def u step by (simp del: mult_Suc_right of_nat_mult of_nat_Suc of_nat_add)
  also have "\<dots> = (if 2 * (k + Suc n) \<le> segment_last gs + 1 then Some (s\<lparr>cells := fill_cells k (Suc n) 0x0720 (cells s)\<rparr>) else None)"
    using Suc.IH [of "Suc k" "s\<lparr>cells := (cells s)(k := 0x0720)\<rparr>"] Suc.prems by (cases "n = 0") auto
  finally show ?case by simp
qed simp

text \<open>
  \<open>clear_screen\<close> needs a segment of 4000 bytes; that of the table ends after 2048, so that the loader
  does not get beyond its first access to the second half of the screen.
\<close>

theorem clear_screen_limit:
  "clear_screen gs s = (if 3999 \<le> segment_last gs
     then Some (set_hardware_cursor 0 0 (s\<lparr>cells := fill_cells 0 2000 0x0720 (cells s), text_row := 0, text_col := 0\<rparr>)) else None)"
  using clear_loop_spec [of 0 2000 gs s] by (simp add: clear_screen_def)

theorem loader_clear_screen_faults: "clear_screen video_segment s = None"
  by (simp add: clear_screen_limit video_segment_fields)

subsection \<open>A line of text\<close>

text \<open>Text that stays in its row, in a segment that holds it, appears in the given colour.\<close>

lemma gs_store16_cell:
  "2 * k + 2 \<le> 4294967296 \<Longrightarrow> 2 * k + 1 \<le> segment_last gs \<Longrightarrow>
   gs_store16 gs (word_of_nat (2 * k)) w s = Some (s\<lparr>cells := (cells s)(k := w)\<rparr>)"
proof -
  assume "2 * k + 2 \<le> 4294967296" "2 * k + 1 \<le> segment_last gs"
  moreover from this(1) have "unat (word_of_nat (2 * k) :: u32) = 2 * k" by (intro unat_of_nat_u32) simp
  ultimately show ?thesis unfolding gs_store16_def by simp
qed

lemma col_less: "c < 80 \<Longrightarrow> text_col s = word_of_nat c \<Longrightarrow> (text_col s <s SCREEN_WIDTH) = True"
proof -
  assume c: "c < 80" "text_col s = word_of_nat c"
  then have "sint (text_col s) = int c"
    by (simp add: signed_of_nat signed_take_bit_int_eq_self)
  with c(1) show ?thesis by (simp add: word_sless_alt)
qed

lemma print_loop_row:
  assumes "\<forall>b \<in> set str. b \<noteq> 0 \<and> b \<noteq> 10" "text_col s = word_of_nat c" "c + length str < 80"
    and "2 * (k + length str) \<le> segment_last gs + 1" "k + length str < 2000"
  shows "print_loop gs str (word_of_nat (2 * k)) attr s = Some (s\<lparr>text_col := word_of_nat (c + length str),
    cells := (\<lambda>j. if k \<le> j \<and> j < k + length str then push_bit 8 (ucast attr) OR ucast (str ! (j - k)) else cells s j)\<rparr>)"
  using assms
proof (induction str arbitrary: s c k)
  case Nil
  have "(\<lambda>j. if k \<le> j \<and> j < k + length [] then f j else cells s j) = cells s" for f by (rule ext) auto
  with Nil show ?case by simp
next
  case (Cons b str)
  define w :: u16 where "w = push_bit 8 (ucast attr) OR ucast b"
  define t where "t = s\<lparr>cells := (cells s)(k := w), text_col := word_of_nat (Suc c)\<rparr>"
  have "text_col t = word_of_nat (Suc c)" by (simp add: t_def)
  note less = col_less [OF _ this]
  define next_edi :: u32 where "next_edi = word_of_nat (2 * Suc k)"
  have step: "word_of_nat (2 * k) + 2 = next_edi" by (simp add: next_edi_def)
  have "gs_store16 gs (word_of_nat (2 * k)) w s = Some (s\<lparr>cells := (cells s)(k := w)\<rparr>)"
    by (rule gs_store16_cell) (use Cons.prems in auto)
  then have "print_loop gs (b # str) (word_of_nat (2 * k)) attr s = print_loop gs str next_edi attr t"
    using Cons.prems(1,2,3) less unfolding print_loop.simps w_def [symmetric] step
    by (simp add: t_def Let_def add.commute del: of_nat_mult)
  also have "\<dots> = Some (t\<lparr>text_col := word_of_nat (Suc c + length str),
      cells := (\<lambda>j. if Suc k \<le> j \<and> j < Suc k + length str then push_bit 8 (ucast attr) OR ucast (str ! (j - Suc k)) else cells t j)\<rparr>)"
    unfolding next_edi_def by (rule Cons.IH) (use Cons.prems in \<open>simp_all add: t_def\<close>)
  also have "\<dots> = Some (s\<lparr>text_col := word_of_nat (c + length (b # str)),
      cells := (\<lambda>j. if k \<le> j \<and> j < k + length (b # str) then push_bit 8 (ucast attr) OR ucast ((b # str) ! (j - k)) else cells s j)\<rparr>)"
  proof -
    have "(if Suc k \<le> j \<and> j < Suc k + length str then push_bit 8 (ucast attr) OR ucast (str ! (j - Suc k)) else cells t j) =
        (if k \<le> j \<and> j < k + length (b # str) then push_bit 8 (ucast attr) OR ucast ((b # str) ! (j - k)) else cells s j)" for j
      by (cases "j = k") (auto simp: t_def w_def nth_Cons')
    then show ?thesis by (simp add: t_def)
  qed
  finally show ?case .
qed

theorem print_string_in_row:
  assumes "\<forall>b \<in> set str. b \<noteq> 0 \<and> b \<noteq> 10" "text_row s = word_of_nat r" "text_col s = word_of_nat c"
    and "r < 25" "c + length str < 80" "2 * (80 * r + c + length str) \<le> segment_last gs + 1"
  shows "print_string gs str attr s = Some (s\<lparr>text_col := word_of_nat (c + length str),
    cells := (\<lambda>j. if 80 * r + c \<le> j \<and> j < 80 * r + c + length str
      then push_bit 8 (ucast attr) OR ucast (str ! (j - (80 * r + c))) else cells s j)\<rparr>)"
proof -
  have "push_bit 1 (text_row s * SCREEN_WIDTH + text_col s) = word_of_nat (2 * (80 * r + c))"
    by (simp add: assms(2,3) push_bit_eq_mult algebra_simps)
  then show ?thesis
    unfolding print_string_def using print_loop_row [OF assms(1,3,5,6)] assms(4,5) by simp
qed

text \<open>After a line break the attribute is the second byte of the new row's address.\<close>

theorem print_string_loses_attribute:
  assumes "3999 \<le> segment_last gs" "b \<noteq> 0" "b \<noteq> 10" "text_row s = word_of_nat r" "r < 24"
  shows "\<exists>t. print_string gs [10, b] attr s = Some t \<and>
    cells t (80 * Suc r) = push_bit 8 (ucast (word_of_nat (160 * Suc r div 256) :: u8)) OR ucast b"
proof -
  define s1 where "s1 = s\<lparr>text_col := 0, text_row := text_row s + 1\<rparr>"
  define eax :: u32 where "eax = push_bit 1 (text_row s1 * SCREEN_WIDTH)"
  have e: "eax = word_of_nat (2 * (80 * Suc r))"
    by (simp add: eax_def s1_def assms(4) push_bit_eq_mult algebra_simps)
  have "unat eax = 160 * Suc r" unfolding e using assms(5) by (subst unat_of_nat_u32) simp_all
  then have "unat (drop_bit 8 eax) = 160 * Suc r div 256"
    by (simp only: unat_drop_bit_eq) (simp only: drop_bit_eq_div, simp)
  then have ah: "(ucast (drop_bit 8 eax) :: u8) = word_of_nat (160 * Suc r div 256)"
    by (metis of_nat_unat ucast_id unsigned_of_nat word_of_nat_eq_iff)
  have "print_string gs [10, b] attr s = print_loop gs [b] eax (ucast (drop_bit 8 eax)) s1"
    unfolding print_string_def print_loop.simps(2) [of gs 10 "[b]"] Let_def s1_def [symmetric] eax_def [symmetric]
    by (simp del: print_loop.simps)
  also have "\<dots> = Some (s1\<lparr>text_col := word_of_nat (0 + length [b]), cells := (\<lambda>j. if 80 * Suc r \<le> j \<and> j < 80 * Suc r + length [b]
      then push_bit 8 (ucast (ucast (drop_bit 8 eax) :: u8)) OR ucast ([b] ! (j - 80 * Suc r)) else cells s1 j)\<rparr>)"
    unfolding e by (rule print_loop_row) (use assms in \<open>simp_all add: s1_def\<close>)
  finally show ?thesis by (simp add: ah)
qed

end
