(* ===== verification/Boot_chars.thy ===== *)
theory Boot_chars
  imports Boot_text
begin

text \<open>
  The rest of the text routines of \<open>common/lib/pm_utils.S\<close>, which the loader of chapter 08 does not call:
  the position of the cursor, single characters and hexadecimal numbers.
\<close>

definition set_cursor_pos :: "u32 \<Rightarrow> u32 \<Rightarrow> 'a text_state_scheme \<Rightarrow> 'a text_state_scheme" where
  "set_cursor_pos row col s = s\<lparr>text_row := row, text_col := col\<rparr>"

definition get_cursor_pos :: "'a text_state_scheme \<Rightarrow> u32 \<times> u32" where
  "get_cursor_pos s = (text_row s, text_col s)"

text \<open>\<open>.fixup\<close>; \<open>jl\<close> compares as signed, so that a column from \<open>2^31\<close> on is stored as it is.\<close>

function fixup :: "u32 \<Rightarrow> u32 \<Rightarrow> u32 \<times> u32" where
  "fixup ecx edx = (if edx <s SCREEN_WIDTH then (ecx, edx) else fixup (ecx + 1) (edx - SCREEN_WIDTH))"
  by pat_completeness auto

lemma sless_80: "edx <s (80 :: u32) \<longleftrightarrow> unat edx < 80 \<or> 2 ^ 31 \<le> unat edx"
proof (cases "unat edx < 2 ^ 31")
  case True
  define n where "n = unat edx"
  have e: "edx = word_of_nat n" by (simp add: n_def)
  have "sint edx = int n" unfolding e using True by (simp add: signed_of_nat signed_take_bit_int_eq_self n_def [symmetric])
  then have "edx <s 80 \<longleftrightarrow> n < 80" by (simp add: word_sless_alt)
  with True show ?thesis by (simp add: n_def)
next
  case False
  have "2 ^ 31 \<le> unat edx \<Longrightarrow> unat edx div 2 ^ 31 = 1" using unat_u32_bound [of edx] by (intro div_nat_eqI) simp_all
  with False have "bit edx (LENGTH(32) - Suc 0)"
    using bit_unsigned_iff [of edx 31, where 'a = nat] by (simp add: bit_iff_odd)
  then have "sint edx < 0" by (simp only: bit_last_iff)
  with False show ?thesis by (simp add: word_sless_alt)
qed

termination fixup
proof (relation "measure (\<lambda>(ecx, edx). unat edx)")
  fix ecx edx :: u32 assume "\<not> edx <s SCREEN_WIDTH"
  then have "80 \<le> unat edx" by (simp add: sless_80)
  then show "((ecx + 1, edx - SCREEN_WIDTH), (ecx, edx)) \<in> measure (\<lambda>(ecx, edx). unat edx)"
    by (simp add: unat_sub_u32)
qed simp

declare fixup.simps [simp del]

definition move_cursor_forward :: "u32 \<Rightarrow> 'a text_state_scheme \<Rightarrow> 'a text_state_scheme" where
  "move_cursor_forward n s =
     (let (ecx, edx) = fixup (text_row s) (text_col s + n) in s\<lparr>text_row := ecx, text_col := edx\<rparr>)"

definition get_vram_addr :: "'a text_state_scheme \<Rightarrow> u32" where
  "get_vram_addr s = push_bit 1 (text_row s * SCREEN_WIDTH + text_col s)"

definition print_char :: "gdt_entry \<Rightarrow> u8 \<Rightarrow> u8 \<Rightarrow> 'a text_state_scheme \<Rightarrow> 'a text_state_scheme option" where
  "print_char gs al bl s =
     (let bx = push_bit 8 (ucast bl) OR ucast al;
          edi = push_bit 1 (text_row s * SCREEN_WIDTH + text_col s)
      in map_option (\<lambda>s.
           let s = s\<lparr>text_col := text_col s + 1\<rparr> in
           if text_col s <s SCREEN_WIDTH then s
           else let s = s\<lparr>text_col := 0, text_row := text_row s + 1\<rparr> in
             if text_row s <s SCREEN_HEIGHT then s else s\<lparr>text_row := SCREEN_HEIGHT - 1\<rparr>)
         (gs_store16 gs edi bx s))"

definition nibble_char :: "u8 \<Rightarrow> u8" where
  "nibble_char dl = (if dl \<le> 9 then dl + 48 else dl + (65 - 10))"

definition print_hex8 :: "gdt_entry \<Rightarrow> u8 \<Rightarrow> u8 \<Rightarrow> 'a text_state_scheme \<Rightarrow> 'a text_state_scheme option" where
  "print_hex8 gs dl bl s =
     Option.bind (print_char gs (nibble_char (drop_bit 4 dl AND 0x0F)) bl s)
       (print_char gs (nibble_char (dl AND 0x0F)) bl)"

primrec hloop :: "gdt_entry \<Rightarrow> nat \<Rightarrow> u32 \<Rightarrow> u8 \<Rightarrow> 'a text_state_scheme \<Rightarrow> 'a text_state_scheme option" where
  "hloop gs 0 eax bl s = Some s"
| "hloop gs (Suc ecx) eax bl s =
     Option.bind (print_char gs (nibble_char (ucast (drop_bit 28 eax) AND 0x0F)) bl s) (hloop gs ecx (push_bit 4 eax) bl)"

definition print_hex32 :: "gdt_entry \<Rightarrow> u32 \<Rightarrow> u8 \<Rightarrow> 'a text_state_scheme \<Rightarrow> 'a text_state_scheme option" where
  "print_hex32 gs eax bl s = hloop gs 8 eax bl s"

subsection \<open>The cursor\<close>

lemma fixup_div: "unat edx < 2 ^ 31 \<Longrightarrow> fixup ecx edx = (ecx + word_of_nat (unat edx div 80), word_of_nat (unat edx mod 80))"
proof (induction ecx edx rule: fixup.induct)
  case (1 ecx edx)
  show ?case
  proof (cases "unat edx < 80")
    case True
    then show ?thesis by (subst fixup.simps) (simp add: sless_80)
  next
    case False
    then have n: "\<not> edx <s SCREEN_WIDTH" using 1(2) by (simp add: sless_80)
    have u: "unat (edx - SCREEN_WIDTH) = unat edx - 80" using False by (simp add: unat_sub_u32)
    have "fixup ecx edx = fixup (ecx + 1) (edx - SCREEN_WIDTH)" by (subst fixup.simps) (simp only: n if_False)
    also have "\<dots> = (ecx + 1 + word_of_nat ((unat edx - 80) div 80), word_of_nat ((unat edx - 80) mod 80))"
      using 1(1) [OF n] 1(2) unfolding u by simp
    also have "(unat edx - 80) mod 80 = unat edx mod 80" using False by (simp add: le_mod_geq)
    finally show ?thesis using False by (simp add: le_div_geq)
  qed
qed

text \<open>The cursor advances by \<open>n\<close> cells, however many rows that are; the height is not checked.\<close>

theorem move_cursor_forward_cells:
  assumes "unat (text_col s) + unat n < 2 ^ 31"
  shows "move_cursor_forward n s = s\<lparr>text_row := text_row s + word_of_nat ((unat (text_col s) + unat n) div 80),
    text_col := word_of_nat ((unat (text_col s) + unat n) mod 80)\<rparr>"
proof -
  have "unat (text_col s + n) = unat (text_col s) + unat n" using assms by (intro unat_add_u32) simp
  with fixup_div [of "text_col s + n" "text_row s"] assms show ?thesis by (simp add: move_cursor_forward_def)
qed

subsection \<open>Characters and numbers\<close>

lemma print_char_in_row:
  assumes "text_row s = word_of_nat r" "text_col s = word_of_nat c" "r < 25" "c + 1 < 80" "2 * (80 * r + c + 1) \<le> segment_last gs + 1"
  shows "print_char gs ch attr s = Some (s\<lparr>cells := (cells s)(80 * r + c := push_bit 8 (ucast attr) OR ucast ch), text_col := word_of_nat (Suc c)\<rparr>)"
proof -
  have e: "push_bit 1 (text_row s * SCREEN_WIDTH + text_col s) = word_of_nat (2 * (80 * r + c))"
    by (simp add: assms(1,2) push_bit_eq_mult algebra_simps)
  have st: "gs_store16 gs (word_of_nat (2 * (80 * r + c))) w s = Some (s\<lparr>cells := (cells s)(80 * r + c := w)\<rparr>)" for w
    by (rule gs_store16_cell) (use assms(3-5) in auto)
  have "unat (word_of_nat (Suc c) :: u32) = Suc c" using assms(4) by (intro unat_of_nat_u32) simp
  then have less: "word_of_nat (Suc c) <s (80 :: u32)" using assms(4) unfolding sless_80 by simp
  have col: "text_col s + 1 = word_of_nat (Suc c)" by (simp add: assms(2) add.commute)
  show ?thesis unfolding print_char_def e Let_def st using less by (simp add: col del: of_nat_Suc)
qed

lemma nibble_char_digit: "nibble_char (ucast (drop_bit 28 eax) AND 0x0F) = nibble_char (ucast (drop_bit 28 (eax :: u32)))"
proof -
  have "ucast (drop_bit 28 eax) AND mask 4 = (ucast (drop_bit 28 eax) :: u8)"
    by (rule bit_word_eqI) (auto simp: bit_simps dest: bit_imp_le_length)
  then show ?thesis by (simp add: mask_eq_exp_minus_1)
qed

text \<open>The digits that the loop prints, the first one first.\<close>

primrec hex_digits :: "nat \<Rightarrow> u32 \<Rightarrow> u8 list" where
  "hex_digits 0 v = []"
| "hex_digits (Suc n) v = nibble_char (ucast (drop_bit 28 v)) # hex_digits n (push_bit 4 v)"

lemma hex_digits_length [simp]: "length (hex_digits n v) = n"
  by (induction n arbitrary: v) simp_all

lemma hex_digits_nth:
  "i < n \<Longrightarrow> n \<le> 8 \<Longrightarrow> hex_digits n v ! i = nibble_char (ucast (drop_bit (28 - 4 * i) v AND 0xF))"
proof (induction n arbitrary: v i)
  case (Suc n)
  have m: "(0xF :: u32) = mask 4" by (simp add: mask_eq_exp_minus_1)
  show ?case
  proof (cases i)
    case 0
    have "drop_bit 28 v AND mask 4 = drop_bit 28 v" by (rule bit_word_eqI) (auto simp: bit_simps dest: bit_imp_le_length)
    with 0 show ?thesis unfolding m by simp
  next
    case (Suc j)
    have "drop_bit (28 - 4 * j) (push_bit 4 v) AND mask 4 = drop_bit (28 - 4 * i) v AND mask 4"
      by (rule bit_word_eqI) (use Suc Suc.prems in \<open>auto simp: bit_simps\<close>)
    with Suc.IH [of j "push_bit 4 v"] Suc Suc.prems show ?thesis unfolding m by simp
  qed
qed simp

lemma hloop_row:
  assumes "text_row s = word_of_nat r" "text_col s = word_of_nat c" "r < 25" "c + n < 80" "2 * (80 * r + c + n) \<le> segment_last gs + 1"
  shows "hloop gs n eax attr s = Some (s\<lparr>text_col := word_of_nat (c + n),
    cells := (\<lambda>j. if 80 * r + c \<le> j \<and> j < 80 * r + c + n then push_bit 8 (ucast attr) OR ucast (hex_digits n eax ! (j - (80 * r + c))) else cells s j)\<rparr>)"
  using assms
proof (induction n arbitrary: s c eax)
  case 0
  have "(\<lambda>j. if 80 * r + c \<le> j \<and> j < 80 * r + c + 0 then f j else cells s j) = cells s" for f by (rule ext) auto
  with 0 show ?case by simp
next
  case (Suc n)
  define w :: u16 where "w = push_bit 8 (ucast attr) OR ucast (nibble_char (ucast (drop_bit 28 eax)))"
  define t where "t = s\<lparr>cells := (cells s)(80 * r + c := w), text_col := word_of_nat (Suc c)\<rparr>"
  have "print_char gs (nibble_char (ucast (drop_bit 28 eax))) attr s = Some t"
    unfolding t_def w_def by (rule print_char_in_row) (use Suc.prems in auto)
  then have "hloop gs (Suc n) eax attr s = hloop gs n (push_bit 4 eax) attr t"
    unfolding hloop.simps nibble_char_digit by simp
  also have "\<dots> = Some (t\<lparr>text_col := word_of_nat (Suc c + n),
      cells := (\<lambda>j. if 80 * r + Suc c \<le> j \<and> j < 80 * r + Suc c + n
        then push_bit 8 (ucast attr) OR ucast (hex_digits n (push_bit 4 eax) ! (j - (80 * r + Suc c))) else cells t j)\<rparr>)"
    by (rule Suc.IH) (use Suc.prems in \<open>simp_all add: t_def\<close>)
  also have "\<dots> = Some (s\<lparr>text_col := word_of_nat (c + Suc n),
      cells := (\<lambda>j. if 80 * r + c \<le> j \<and> j < 80 * r + c + Suc n
        then push_bit 8 (ucast attr) OR ucast (hex_digits (Suc n) eax ! (j - (80 * r + c))) else cells s j)\<rparr>)"
  proof -
    have "(if 80 * r + Suc c \<le> j \<and> j < 80 * r + Suc c + n
        then push_bit 8 (ucast attr) OR ucast (hex_digits n (push_bit 4 eax) ! (j - (80 * r + Suc c))) else cells t j) =
      (if 80 * r + c \<le> j \<and> j < 80 * r + c + Suc n
        then push_bit 8 (ucast attr) OR ucast (hex_digits (Suc n) eax ! (j - (80 * r + c))) else cells s j)" for j
      by (cases "j = 80 * r + c") (auto simp: t_def w_def nth_Cons')
    then show ?thesis by (simp add: t_def)
  qed
  finally show ?case .
qed

text \<open>In a row with room for it, \<open>print_hex32\<close> shows the eight digits of the value from the cursor on.\<close>

theorem print_hex32_in_row:
  assumes "text_row s = word_of_nat r" "text_col s = word_of_nat c" "r < 25" "c + 8 < 80" "2 * (80 * r + c + 8) \<le> segment_last gs + 1"
  shows "\<exists>t. print_hex32 gs v attr s = Some t \<and> text_col t = word_of_nat (c + 8) \<and>
    (\<forall>i < 8. cells t (80 * r + c + i) = push_bit 8 (ucast attr) OR ucast (nibble_char (ucast (drop_bit (28 - 4 * i) v AND 0xF)))) \<and>
    (\<forall>j. j < 80 * r + c \<or> 80 * r + c + 8 \<le> j \<longrightarrow> cells t j = cells s j)"
  unfolding print_hex32_def hloop_row [OF assms(1-3,4,5)] by (simp add: hex_digits_nth)

end
