(* ===== verification/Boot_info.thy ===== *)
theory Boot_info
  imports Gdt
begin

text \<open>
  \<open>08.kernel-mm/kernel/mem/boot_info.c\<close>: reading the E820 memory map that the boot loader left at
  physical address \<open>0x9000\<close>, up to the first all-zero entry or 128 entries, and the section
  addresses that the linker script provides.
\<close>

definition KERNEL_SPACE_START :: u32 where [simp]: "KERNEL_SPACE_START = 0xC0000000"
definition E820_MAX_ENTRIES :: nat where [simp]: "E820_MAX_ENTRIES = 128"
definition E820_BUFFER_PHYS :: u32 where [simp]: "E820_BUFFER_PHYS = 0x9000"
definition BOOT_INFO_MAGIC :: u32 where [simp]: "BOOT_INFO_MAGIC = 0x1BADB002"
definition E820_BUFFER_VIRT :: u32 where [simp]: "E820_BUFFER_VIRT = KERNEL_SPACE_START + E820_BUFFER_PHYS"

record e820_entry =
  e_addr :: u64
  e_size :: u64
  e_type :: u32
  e_acpi :: u32

record kernel_section_info =
  text_start :: u32
  text_end :: u32
  rodata_start :: u32
  rodata_end :: u32
  data_start :: u32
  data_end :: u32
  bss_start :: u32
  bss_end :: u32
  kernel_end :: u32
  kernel_size :: u32
  kernel_phys_base :: u32
  kernel_virt_base :: u32

record boot_info =
  magic :: u32
  e820_count :: u32
  e820_map :: "nat \<Rightarrow> e820_entry"
  kernel_sections :: kernel_section_info

record boot_state = gdt_state +
  the_boot_info :: boot_info

definition load64 :: "ram \<Rightarrow> u32 \<Rightarrow> u64" where
  "load64 m a = ucast (load32 m a) OR push_bit 32 (ucast (load32 m (a + 4)))"

text \<open>The packed entry is 24 bytes long.\<close>

definition e820_at :: "ram \<Rightarrow> u32 \<Rightarrow> nat \<Rightarrow> e820_entry" where
  "e820_at m base i =
     (let p = base + 24 * of_nat i
      in \<lparr>e_addr = load64 m p, e_size = load64 m (p + 8), e_type = load32 m (p + 16),
          e_acpi = load32 m (p + 20)\<rparr>)"

definition e820_end_mark :: "e820_entry \<Rightarrow> bool" where
  "e820_end_mark e \<longleftrightarrow> e_addr e = 0 \<and> e_size e = 0 \<and> e_type e = 0"

function read_e820 :: "(nat \<Rightarrow> e820_entry) \<Rightarrow> nat \<Rightarrow> (nat \<Rightarrow> e820_entry) \<Rightarrow> nat \<times> (nat \<Rightarrow> e820_entry)" where
  "read_e820 buf cnt m =
     (if cnt < E820_MAX_ENTRIES then
        if e820_end_mark (buf cnt) then (cnt, m)
        else read_e820 buf (cnt + 1) (m(cnt := buf cnt))
      else (cnt, m))"
  by pat_completeness auto
termination
  by (relation "measure (\<lambda>(buf, cnt, m). E820_MAX_ENTRIES - cnt)") auto

declare read_e820.simps [simp del]

text \<open>The linker symbols are the argument \<open>sections\<close>.\<close>

definition boot_info_init :: "kernel_section_info \<Rightarrow> 'a boot_state_scheme \<Rightarrow> 'a boot_state_scheme" where
  "boot_info_init sections s =
     (let bi = (the_boot_info s)\<lparr>magic := BOOT_INFO_MAGIC\<rparr>;
          (cnt, m) = read_e820 (e820_at (mem s) E820_BUFFER_VIRT) 0 (e820_map bi);
          bi = bi\<lparr>e820_map := m, e820_count := of_nat cnt, kernel_sections := sections\<rparr>
      in s\<lparr>the_boot_info := bi\<rparr>)"

definition dump_e820 :: "boot_info \<Rightarrow> nat \<Rightarrow> 'a vga_state_scheme \<Rightarrow> 'a vga_state_scheme" where
  "dump_e820 bi i s =
     (let e = e820_map bi i
      in printk '' [%d] base=0x%llx len=0x%llx type=%d\<newline>''
           ([Word (of_nat i)] @ va_long (e_addr e) @ va_long (e_size e) @ [Word (e_type e)]) s)"

text \<open>\<open>%h\<close> takes two argument words and \<open>kernel_size\<close> is one.\<close>

definition boot_info_dump :: "'a boot_state_scheme \<Rightarrow> 'a boot_state_scheme" where
  "boot_info_dump s =
     (let bi = the_boot_info s;
          s = printk ''BootInfo (magic=0x%x)\<newline>'' [Word (magic bi)] s;
          s = printk ''E820 entries: %d\<newline>'' [Word (e820_count bi)] s;
          s = fold (dump_e820 bi) [0..<unat (e820_count bi)] s;
          k = kernel_sections bi;
          s = printk ''Kernel Sections:\<newline>'' [] s;
          s = printk '' text:   [0x%x - 0x%x)\<newline>'' [Word (text_start k), Word (text_end k)] s;
          s = printk '' rodata: [0x%x - 0x%x)\<newline>'' [Word (rodata_start k), Word (rodata_end k)] s;
          s = printk '' data:   [0x%x - 0x%x)\<newline>'' [Word (data_start k), Word (data_end k)] s;
          s = printk '' bss:    [0x%x - 0x%x)\<newline>'' [Word (bss_start k), Word (bss_end k)] s
      in printk '' kernel_end=%x size=%h\<newline>'' [Word (kernel_end k), Word (kernel_size k)] s)"

text \<open>The entries a boot information holds, in order.\<close>

definition entries :: "boot_info \<Rightarrow> e820_entry list" where
  "entries bi = map (e820_map bi) [0..<unat (e820_count bi)]"

definition read_ok :: "(nat \<Rightarrow> e820_entry) \<Rightarrow> nat \<times> (nat \<Rightarrow> e820_entry) \<Rightarrow> bool" where
  "read_ok buf r \<longleftrightarrow> fst r \<le> 128 \<and> (\<forall>i < fst r. \<not> e820_end_mark (buf i) \<and> snd r i = buf i)
     \<and> (fst r < 128 \<longrightarrow> e820_end_mark (buf (fst r)))"

lemma read_e820_ok:
  "cnt \<le> 128 \<Longrightarrow> \<forall>i < cnt. \<not> e820_end_mark (buf i) \<and> m i = buf i \<Longrightarrow>
   read_ok buf (read_e820 buf cnt m)"
proof (induction buf cnt m rule: read_e820.induct)
  case (1 buf cnt m)
  show ?case
  proof (cases "cnt < 128 \<and> \<not> e820_end_mark (buf cnt)")
    case True
    then have "\<forall>i < cnt + 1. \<not> e820_end_mark (buf i) \<and> (m(cnt := buf cnt)) i = buf i"
      using 1(3) by (auto simp: less_Suc_eq)
    then have "read_ok buf (read_e820 buf (cnt + 1) (m(cnt := buf cnt)))"
      by (intro 1(1)) (use True in simp_all)
    with True show ?thesis by (simp add: read_e820.simps [of buf cnt m])
  next
    case False
    with 1 show ?thesis by (auto simp: read_e820.simps [of buf cnt m] read_ok_def)
  qed
qed

text \<open>
  \<open>boot_info_init\<close> copies the entries up to the first all-zero one, at most 128, counts exactly those,
  and sets the magic number and the section table that \<open>pmm_init\<close> reads.
\<close>

theorem boot_info_init_spec:
  "let bi = the_boot_info (boot_info_init sections s);
       buf = e820_at (mem s) E820_BUFFER_VIRT;
       n = unat (e820_count bi)
   in entries bi = map buf [0..<n] \<and> n \<le> 128 \<and> list_all (\<lambda>e. \<not> e820_end_mark e) (entries bi) \<and>
      (n = 128 \<or> e820_end_mark (buf n)) \<and> magic bi = BOOT_INFO_MAGIC \<and> kernel_sections bi = sections"
proof -
  define buf where "buf = e820_at (mem s) E820_BUFFER_VIRT"
  obtain n m where r: "read_e820 buf 0 (e820_map (the_boot_info s)) = (n, m)" by fastforce
  have spec: "n \<le> 128" "\<forall>i < n. \<not> e820_end_mark (buf i) \<and> m i = buf i" "n < 128 \<longrightarrow> e820_end_mark (buf n)"
    using read_e820_ok [of 0 buf "e820_map (the_boot_info s)"] r by (auto simp: read_ok_def)
  then have "unat (word_of_nat n :: u32) = n" by (simp add: unat_of_nat_u32)
  moreover have "map m [0..<n] = map buf [0..<n]" using spec(2) by simp
  ultimately show ?thesis
    using spec r [unfolded buf_def]
    by (auto simp: boot_info_init_def Let_def entries_def list_all_iff buf_def)
qed

end
