(* ===== verification/Pmm.thy ===== *)
theory Pmm
  imports Boot_info
begin

text \<open>
  \<open>08.kernel-mm/kernel/mem/pmm.c\<close>, the physical page allocator: a bitmap with one bit per page
  (set when the page is in use), initialised from the E820 map, next-fit allocation above the
  low 2 MiB, freeing, and the dumps.

  The bitmap is a function from byte indices, so that an access outside its 128 KiB would be
  visible.
\<close>

definition PAGE_SIZE :: nat where [simp]: "PAGE_SIZE = 4096"
definition MAX_BITMAP_SIZE_BYTES :: u32 where [simp]: "MAX_BITMAP_SIZE_BYTES = 131072"
definition MIB :: nat where [simp]: "MIB = 1048576"
definition KIB :: nat where [simp]: "KIB = 1024"
definition LOW_MEMORY_SIZE :: nat where [simp]: "LOW_MEMORY_SIZE = 2 * MIB"

record pmm_state = boot_state +
  pmm_bitmap :: "nat \<Rightarrow> u8"
  pmm_bitmap_size_bytes :: u32
  pmm_total_pages :: u32
  pmm_max_ram_page :: u32
  pmm_free_pages :: u32
  pmm_last_alloc_index :: u32

subsection \<open>Bits\<close>

definition pmm_set_bit :: "u32 \<Rightarrow> 'a pmm_state_scheme \<Rightarrow> 'a pmm_state_scheme" where
  "pmm_set_bit b s =
     (let i = unat (b div 8)
      in s\<lparr>pmm_bitmap := (pmm_bitmap s)(i := pmm_bitmap s i OR push_bit (unat (b mod 8)) 1)\<rparr>)"

definition pmm_clear_bit :: "u32 \<Rightarrow> 'a pmm_state_scheme \<Rightarrow> 'a pmm_state_scheme" where
  "pmm_clear_bit b s =
     (let i = unat (b div 8)
      in s\<lparr>pmm_bitmap := (pmm_bitmap s)(i := pmm_bitmap s i AND NOT (push_bit (unat (b mod 8)) 1))\<rparr>)"

definition pmm_test_bit :: "u32 \<Rightarrow> 'a pmm_state_scheme \<Rightarrow> bool" where
  "pmm_test_bit b s \<longleftrightarrow> pmm_bitmap s (unat (b div 8)) AND push_bit (unat (b mod 8)) 1 \<noteq> 0"

subsection \<open>Initialisation\<close>

function mark_pages :: "u32 \<Rightarrow> u32 \<Rightarrow> 'a pmm_state_scheme \<Rightarrow> 'a pmm_state_scheme" where
  "mark_pages p end_page s =
     (if p < end_page then
        mark_pages (p + 1) end_page
          (if \<not> pmm_test_bit p s
           then (pmm_set_bit p s)\<lparr>pmm_free_pages := pmm_free_pages s - 1\<rparr> else s)
      else s)"
  by pat_completeness auto
termination
  by (relation "measure (\<lambda>(p, end_page, s). unat end_page - unat p)")
    (auto simp: unat_inc_u32 word_less_nat_alt)

declare mark_pages.simps [simp del]

definition pmm_mark_region_used :: "u64 \<Rightarrow> u64 \<Rightarrow> 'a pmm_state_scheme \<Rightarrow> 'a pmm_state_scheme" where
  "pmm_mark_region_used start_paddr sz s =
     (if start_paddr div 4096 \<ge> ucast (pmm_total_pages s) then s
      else let start_page = ucast (start_paddr div 4096);
               end_addr = start_paddr + sz;
               end_page = ucast (min ((end_addr + 4096 - 1) div 4096) (ucast (pmm_total_pages s)))
           in mark_pages start_page end_page s)"

definition entry_end :: "e820_entry \<Rightarrow> u64" where
  "entry_end e = e_addr e + e_size e"

definition highest_end :: "e820_entry list \<Rightarrow> u64" where
  "highest_end es = fold (\<lambda>e m. if entry_end e > m then entry_end e else m) es 0"

definition zero_bytes :: "nat \<Rightarrow> (nat \<Rightarrow> u8) \<Rightarrow> nat \<Rightarrow> u8" where
  "zero_bytes n bm = (\<lambda>i. if i < n then 0 else bm i)"

definition pmm_init ::
  "boot_info \<Rightarrow> 'a pmm_state_scheme \<Rightarrow> ('a pmm_state_scheme, 'a pmm_state_scheme) outcome" where
  "pmm_init bi s =
     (if magic bi \<noteq> BOOT_INFO_MAGIC then
        kernel_panic ''kernel/mem/pmm.c'' ''pmm_init'' 124
          (printk ''PMM: Invalid boot_info magic!\<newline>'' [] s)
      else
        let max_phys_addr = highest_end (entries bi);
            max_ram_addr = highest_end (filter (\<lambda>e. e_type e = 1) (entries bi));
            s = s\<lparr>pmm_total_pages := ucast (max_phys_addr div 4096),
                  pmm_max_ram_page := ucast (max_ram_addr div 4096)\<rparr>;
            s = s\<lparr>pmm_bitmap_size_bytes := (pmm_total_pages s + 7) div 8\<rparr>
        in if pmm_bitmap_size_bytes s > MAX_BITMAP_SIZE_BYTES then
             kernel_panic ''kernel/mem/pmm.c'' ''pmm_init'' 161
               (printk ''PMM: Bitmap space insufficient!'' [] s)
           else
             let s = s\<lparr>pmm_bitmap := zero_bytes (unat (pmm_bitmap_size_bytes s)) (pmm_bitmap s),
                       pmm_free_pages := pmm_total_pages s\<rparr>;
                 s = fold (\<lambda>e s. if e_type e \<noteq> 1 then pmm_mark_region_used (e_addr e) (e_size e) s else s)
                       (entries bi) s;
                 s = pmm_mark_region_used (ucast (kernel_phys_base (kernel_sections bi)))
                       (ucast (kernel_size (kernel_sections bi))) s
             in Inr (pmm_mark_region_used 0 (of_nat LOW_MEMORY_SIZE) s))"

subsection \<open>Allocation\<close>

text \<open>
  The do-while loop of \<open>pmm_alloc_page\<close>: \<open>None\<close> when the fuel is used up, \<open>Some None\<close> when the
  loop comes back to its start, \<open>Some (Some i)\<close> when it finds page \<open>i\<close>. The fuel is the number of
  pages the loop goes round, which \<open>alloc_scan_returns\<close> shows to be enough.
\<close>

fun alloc_scan :: "nat \<Rightarrow> u32 \<Rightarrow> u32 \<Rightarrow> 'a pmm_state_scheme \<Rightarrow> u32 option option" where
  "alloc_scan 0 start i s = None"
| "alloc_scan (Suc fuel) start i s =
     (if unat i \<ge> LOW_MEMORY_SIZE div PAGE_SIZE \<and> \<not> pmm_test_bit i s then Some (Some i)
      else let i = (i + 1) mod pmm_max_ram_page s
           in if i \<noteq> start then alloc_scan fuel start i s else Some None)"

definition pmm_alloc_page :: "'a pmm_state_scheme \<Rightarrow> u32 \<times> 'a pmm_state_scheme" where
  "pmm_alloc_page s =
     (if pmm_free_pages s = 0 \<or> pmm_max_ram_page s = 0 then (0, s)
      else let start = pmm_last_alloc_index s mod pmm_max_ram_page s
           in case alloc_scan (unat (pmm_max_ram_page s)) start start s of
                Some (Some i) \<Rightarrow>
                  (i * 4096,
                   (pmm_set_bit i s)\<lparr>pmm_free_pages := pmm_free_pages s - 1, pmm_last_alloc_index := i\<rparr>)
              | _ \<Rightarrow> (0, s))"

definition pmm_free_page :: "u32 \<Rightarrow> 'a pmm_state_scheme \<Rightarrow> 'a pmm_state_scheme" where
  "pmm_free_page paddr s =
     (if paddr mod 4096 \<noteq> 0 then s
      else let page = paddr div 4096
           in if unat page < LOW_MEMORY_SIZE div PAGE_SIZE \<or> page \<ge> pmm_max_ram_page s then s
              else if \<not> pmm_test_bit page s then s
              else (pmm_clear_bit page s)\<lparr>pmm_free_pages := pmm_free_pages s + 1\<rparr>)"

definition pmm_get_free_page_count :: "'a pmm_state_scheme \<Rightarrow> u32" where
  "pmm_get_free_page_count s = pmm_free_pages s"

subsection \<open>Dumps\<close>

text \<open>The pages of one line, at most 32; the buffer has 64 bytes.\<close>

definition dump_bitmap_line :: "u32 \<Rightarrow> u32 \<Rightarrow> 'a pmm_state_scheme \<Rightarrow> 'a pmm_state_scheme" where
  "dump_bitmap_line start_page end_page s =
     (let line = map (\<lambda>p. if pmm_test_bit (of_nat p) s then CHR ''#'' else CHR ''.'')
                   [unat start_page..<min (unat end_page) (unat (pmm_total_pages s))]
      in printk ''%x: %s\<newline>'' [Word (start_page * 4096), Str (Some line)] s)"

definition pmm_dump :: "'a pmm_state_scheme \<Rightarrow> 'a pmm_state_scheme" where
  "pmm_dump s =
     (let total = pmm_total_pages s; free = pmm_free_pages s;
          s = printk ''========== PMM dump ==========\<newline>'' [] s;
          s = printk ''total_pages = %d  (%d MiB)\<newline>'' [Word total, Word (total * 4096 div 1048576)] s;
          s = printk ''free_pages  = %d  (%d MiB)\<newline>'' [Word free, Word (free * 4096 div 1048576)] s;
          s = printk ''used_pages  = %d  (%d MiB)\<newline>''
                [Word (total - free), Word ((total - free) * 4096 div 1048576)] s;
          s = printk ''bitmap size = %d bytes\<newline>'' [Word (pmm_bitmap_size_bytes s)] s;
          s = printk ''------------------------------\<newline>'' [] s;
          s = fold (\<lambda>k. dump_bitmap_line (of_nat (32 * k)) (of_nat (32 * k + 32)))
                [0..<(unat total + 31) div 32] s
      in printk ''==========  end dump  =========\<newline>'' [] s)"

definition print_run :: "bool \<Rightarrow> u32 \<Rightarrow> u32 \<Rightarrow> 'a vga_state_scheme \<Rightarrow> 'a vga_state_scheme" where
  "print_run dump_used_regions run_start p s =
     (let pages = p - run_start;
          bytes = pages * 4096;
          s = printk ''%s%x -- %x  %d KiB''
                [Str (Some (if dump_used_regions then '''' else ''[FREE] '')),
                 Word (run_start * 4096), Word (p * 4096 - 1), Word (bytes div 1024)] s;
          s = (if bytes \<ge> 1048576 then printk ''  (%d MiB)'' [Word (bytes div 1048576)] s else s)
      in printk ''\<newline>'' [] s)"

function dump_runs ::
  "bool \<Rightarrow> u32 \<Rightarrow> u32 \<Rightarrow> u32 \<Rightarrow> bool \<Rightarrow> 'a pmm_state_scheme \<Rightarrow> bool \<times> u32 \<times> u32 \<times> 'a pmm_state_scheme"
  where
  "dump_runs dump_used scan_limit p run_start in_run s =
     (if p < scan_limit then
        let used = pmm_test_bit p s;
            is_target = (dump_used \<and> used) \<or> (\<not> dump_used \<and> \<not> used)
        in if is_target \<and> \<not> in_run then dump_runs dump_used scan_limit (p + 1) p True s
           else if \<not> is_target \<and> in_run then
             dump_runs dump_used scan_limit (p + 1) run_start False (print_run dump_used run_start p s)
           else dump_runs dump_used scan_limit (p + 1) run_start in_run s
      else (in_run, run_start, p, s))"
  by pat_completeness auto
termination
  by (relation "measure (\<lambda>(d, l, p, r, i, s). unat l - unat p)")
    (auto simp: unat_inc_u32 word_less_nat_alt)

declare dump_runs.simps [simp del]

definition pmm_dump_regions :: "bool \<Rightarrow> 'a pmm_state_scheme \<Rightarrow> 'a pmm_state_scheme" where
  "pmm_dump_regions dump_used_regions s =
     (let name = (if dump_used_regions then ''used '' else ''free '');
          s = printk ''==== PMM %sregions ====\<newline>'' [Str (Some name)] s;
          scan_limit = (if dump_used_regions then pmm_total_pages s else pmm_max_ram_page s);
          (in_run, run_start, p, s) = dump_runs dump_used_regions scan_limit 0 0 False s;
          s = (if in_run then print_run dump_used_regions run_start p s else s)
      in printk ''==== end of %s ====\<newline>'' [Str (Some name)] s)"

definition pmm_dump_used :: "'a pmm_state_scheme \<Rightarrow> 'a pmm_state_scheme" where
  "pmm_dump_used s = pmm_dump_regions True s"

definition pmm_dump_free :: "'a pmm_state_scheme \<Rightarrow> 'a pmm_state_scheme" where
  "pmm_dump_free s = pmm_dump_regions False s"

subsection \<open>Pages as naturals\<close>

text \<open>\<open>used s p\<close>: page \<open>p\<close> is marked in the bitmap.\<close>

definition used :: "'a pmm_state_scheme \<Rightarrow> nat \<Rightarrow> bool" where
  "used s p \<longleftrightarrow> bit (pmm_bitmap s (p div 8)) (p mod 8)"

lemma test_bit_used [simp]: "pmm_test_bit b s \<longleftrightarrow> used s (unat b)"
  by (simp add: pmm_test_bit_def used_def unat_div unat_mod and_exp_eq_0_iff_not_bit)

lemma page_eq_iff: "p = q \<longleftrightarrow> p div 8 = q div 8 \<and> p mod 8 = (q mod 8 :: nat)"
  by (metis div_mult_mod_eq)

lemma bit_push_1: "j < 8 \<Longrightarrow> k < 8 \<Longrightarrow> bit (push_bit k 1 :: u8) j \<longleftrightarrow> j = k"
  by (auto simp: bit_push_bit_iff bit_1_iff simp del: push_bit_of_1)

lemma used_set_bit [simp]: "used (pmm_set_bit b s) p \<longleftrightarrow> p = unat b \<or> used s p"
proof (cases "p div 8 = unat b div 8")
  case True
  then show ?thesis
    by (auto simp: used_def pmm_set_bit_def Let_def unat_div unat_mod bit_or_iff bit_push_1 page_eq_iff [of p]
        simp del: push_bit_of_1)
next
  case False
  then show ?thesis by (auto simp: used_def pmm_set_bit_def Let_def unat_div)
qed

lemma used_clear_bit [simp]: "used (pmm_clear_bit b s) p \<longleftrightarrow> p \<noteq> unat b \<and> used s p"
proof (cases "p div 8 = unat b div 8")
  case True
  then show ?thesis
    by (auto simp: used_def pmm_clear_bit_def Let_def unat_div unat_mod bit_and_iff bit_not_iff bit_push_1
        page_eq_iff [of p] simp del: push_bit_of_1)
next
  case False
  then show ?thesis by (auto simp: used_def pmm_clear_bit_def Let_def unat_div)
qed

lemma pmm_bit_frame [simp]:
  "pmm_total_pages (pmm_set_bit b s) = pmm_total_pages s"
  "pmm_max_ram_page (pmm_set_bit b s) = pmm_max_ram_page s"
  "pmm_free_pages (pmm_set_bit b s) = pmm_free_pages s"
  "pmm_total_pages (pmm_clear_bit b s) = pmm_total_pages s"
  "pmm_max_ram_page (pmm_clear_bit b s) = pmm_max_ram_page s"
  "pmm_free_pages (pmm_clear_bit b s) = pmm_free_pages s"
  by (simp_all add: pmm_set_bit_def pmm_clear_bit_def Let_def)

lemma used_updates [simp]:
  "used (s\<lparr>pmm_free_pages := n\<rparr>) = used s" "used (s\<lparr>pmm_last_alloc_index := i\<rparr>) = used s"
  by (simp_all add: used_def fun_eq_iff)

subsection \<open>The counter of free pages\<close>

definition free_set :: "'a pmm_state_scheme \<Rightarrow> nat set" where
  "free_set s = {p. p < unat (pmm_total_pages s) \<and> \<not> used s p}"

definition counted :: "'a pmm_state_scheme \<Rightarrow> bool" where
  "counted s \<longleftrightarrow> unat (pmm_free_pages s) = card (free_set s)"

lemma finite_free_set [simp]: "finite (free_set s)"
  by (simp add: free_set_def)

lemma counted_take:
  assumes "counted s" "unat b \<in> free_set s"
  shows "counted ((pmm_set_bit b s)\<lparr>pmm_free_pages := pmm_free_pages s - 1\<rparr>)"
proof -
  have "free_set ((pmm_set_bit b s)\<lparr>pmm_free_pages := pmm_free_pages s - 1\<rparr>) = free_set s - {unat b}"
    by (auto simp: free_set_def)
  moreover have "card (free_set s) > 0" using assms(2) by (auto simp: card_gt_0_iff)
  ultimately show ?thesis
    using assms by (simp add: counted_def unat_minus_one flip: unat_gt_0)
qed

lemma counted_give:
  assumes "counted s" "unat b < unat (pmm_total_pages s)" "used s (unat b)"
  shows "counted ((pmm_clear_bit b s)\<lparr>pmm_free_pages := pmm_free_pages s + 1\<rparr>)"
proof -
  have eq: "free_set ((pmm_clear_bit b s)\<lparr>pmm_free_pages := pmm_free_pages s + 1\<rparr>) = insert (unat b) (free_set s)"
    using assms by (auto simp: free_set_def)
  have new: "unat b \<notin> free_set s" using assms by (simp add: free_set_def)
  have "insert (unat b) (free_set s) \<subseteq> {..<unat (pmm_total_pages s)}" using assms by (auto simp: free_set_def)
  then have "card (insert (unat b) (free_set s)) \<le> unat (pmm_total_pages s)"
    using card_mono [of "{..<unat (pmm_total_pages s)}"] by simp
  then have "unat (pmm_free_pages s) < unat (pmm_total_pages s)"
    using assms new by (simp add: counted_def)
  then have "unat (pmm_free_pages s + 1) = Suc (unat (pmm_free_pages s))"
    by (intro unat_inc_u32) (simp add: word_less_nat_alt)
  with eq new show ?thesis using assms by (simp add: counted_def)
qed

text \<open>\<open>mark_pages\<close> marks the pages \<open>p, ..., end_page - 1\<close>.\<close>

lemma mark_pages_frame:
  "pmm_total_pages (mark_pages p e s) = pmm_total_pages s"
  "pmm_max_ram_page (mark_pages p e s) = pmm_max_ram_page s"
  by (induction p e s rule: mark_pages.induct; subst mark_pages.simps; simp)+

lemma mark_pages_used:
  "used (mark_pages p e s) q \<longleftrightarrow> used s q \<or> (unat p \<le> q \<and> q < unat e)"
proof (induction p e s rule: mark_pages.induct)
  case (1 p e s)
  show ?case
  proof (cases "p < e")
    case True
    with 1 have "used (mark_pages p e s) q \<longleftrightarrow>
        used (if \<not> pmm_test_bit p s then (pmm_set_bit p s)\<lparr>pmm_free_pages := pmm_free_pages s - 1\<rparr> else s) q
        \<or> (Suc (unat p) \<le> q \<and> q < unat e)"
      by (subst mark_pages.simps) (simp add: unat_inc_u32)
    also have "\<dots> \<longleftrightarrow> used s q \<or> q = unat p \<or> (Suc (unat p) \<le> q \<and> q < unat e)"
      by auto
    finally show ?thesis using True by (auto simp: word_less_nat_alt)
  next
    case False
    then show ?thesis by (subst mark_pages.simps) (auto simp: word_less_nat_alt)
  qed
qed

lemma mark_pages_counted:
  "counted s \<Longrightarrow> unat e \<le> unat (pmm_total_pages s) \<Longrightarrow> counted (mark_pages p e s)"
proof (induction p e s rule: mark_pages.induct)
  case (1 p e s)
  show ?case
  proof (cases "p < e")
    case True
    then have "\<not> used s (unat p) \<Longrightarrow> unat p \<in> free_set s"
      using 1(3) by (simp add: free_set_def word_less_nat_alt)
    then show ?thesis
      using True 1 counted_take [of s p] by (subst mark_pages.simps) simp
  next
    case False
    with 1 show ?thesis by (subst mark_pages.simps) simp
  qed
qed

subsection \<open>What initialisation leaves\<close>

text \<open>The pages a region of bytes touches.\<close>

definition region_pages :: "nat \<Rightarrow> nat \<Rightarrow> nat set" where
  "region_pages a sz = {p. a div 4096 \<le> p \<and> p < (a + sz + 4095) div 4096}"

lemma unat_ucast_u32_u64 [simp]: "unat (ucast (w :: u32) :: u64) = unat w"
proof -
  have "unat w < 4294967296" by (rule unat_u32_bound)
  then show ?thesis by (simp add: unsigned_ucast_eq take_bit_nat_eq_self)
qed

lemma unat_ucast_u64_u32: "unat (w :: u64) < 4294967296 \<Longrightarrow> unat (ucast w :: u32) = unat w"
  by (simp add: unsigned_ucast_eq take_bit_nat_eq_self)

lemma unat_add_u64: "unat a + unat b < 2 ^ 64 \<Longrightarrow> unat (a + b :: u64) = unat a + unat b"
  by (subst unat_add_lem [THEN iffD1]) simp_all

lemma unat_min_u64: "unat (min x y :: u64) = min (unat x) (unat y)"
  by (simp add: min_def word_le_nat_alt)

lemma mark_region:
  assumes "unat a + unat sz \<le> 2 ^ 43" and "counted s"
  shows "counted (pmm_mark_region_used a sz s)"
    "used (pmm_mark_region_used a sz s) p \<longleftrightarrow>
       used s p \<or> (p < unat (pmm_total_pages s) \<and> p \<in> region_pages (unat a) (unat sz))"
    "pmm_total_pages (pmm_mark_region_used a sz s) = pmm_total_pages s"
    "pmm_max_ram_page (pmm_mark_region_used a sz s) = pmm_max_ram_page s"
proof -
  define T where "T = unat (pmm_total_pages s)"
  have T: "T < 4294967296" unfolding T_def by (rule unat_u32_bound)
  have small: "unat a + unat sz < 9223372036854775808" using assms(1) by simp
  have end_: "unat (a + sz + 4096 - 1) = unat a + unat sz + 4095"
  proof -
    have "a + sz + 4096 - 1 = a + sz + 4095" by simp
    moreover have "unat (a + sz) = unat a + unat sz" using small by (intro unat_add_u64) simp
    ultimately show ?thesis using small by (simp add: unat_add_u64)
  qed
  define E where "E = (unat a + unat sz + 4095) div 4096"
  have quot: "unat ((a + sz + 4096 - 1) div 4096) = E"
    unfolding unat_div end_ E_def by simp
  define e where "e = (ucast (min ((a + sz + 4096 - 1) div 4096) (ucast (pmm_total_pages s))) :: u32)"
  have "unat (min ((a + sz + 4096 - 1) div 4096) (ucast (pmm_total_pages s))) = min E T"
    unfolding unat_min_u64 quot unat_ucast_u32_u64 T_def ..
  then have e: "unat e = min E T"
    using T unfolding e_def by (subst unat_ucast_u64_u32) linarith+
  have guard: "a div 4096 \<ge> ucast (pmm_total_pages s) \<longleftrightarrow> T \<le> unat a div 4096"
    by (simp add: word_le_nat_alt unat_div T_def)
  have p0: "unat a div 4096 < T \<Longrightarrow> unat (ucast (a div 4096) :: u32) = unat a div 4096"
    using T by (subst unat_ucast_u64_u32) (simp_all add: unat_div)
  have eq: "pmm_mark_region_used a sz s =
      (if T \<le> unat a div 4096 then s else mark_pages (ucast (a div 4096)) e s)"
    unfolding pmm_mark_region_used_def guard Let_def e_def ..
  show "pmm_total_pages (pmm_mark_region_used a sz s) = pmm_total_pages s"
    "pmm_max_ram_page (pmm_mark_region_used a sz s) = pmm_max_ram_page s"
    by (simp_all add: eq mark_pages_frame)
  show "counted (pmm_mark_region_used a sz s)"
    using assms(2) by (simp_all add: eq mark_pages_counted e T_def)
  show "used (pmm_mark_region_used a sz s) p \<longleftrightarrow>
       used s p \<or> (p < unat (pmm_total_pages s) \<and> p \<in> region_pages (unat a) (unat sz))"
  proof (cases "T \<le> unat a div 4096")
    case True
    then show ?thesis by (auto simp: eq region_pages_def T_def)
  next
    case False
    then show ?thesis
      using p0 e by (auto simp: eq mark_pages_used region_pages_def E_def T_def)
  qed
qed

lemma mark_entries:
  assumes "\<forall>e \<in> set es. unat (e_addr e) + unat (e_size e) \<le> 2 ^ 43" and "counted s"
  defines "t \<equiv> fold (\<lambda>e s. if e_type e \<noteq> 1 then pmm_mark_region_used (e_addr e) (e_size e) s else s) es s"
  shows "counted t \<and> pmm_total_pages t = pmm_total_pages s \<and> pmm_max_ram_page t = pmm_max_ram_page s
    \<and> (used t p \<longleftrightarrow> used s p \<or> (p < unat (pmm_total_pages s) \<and>
         (\<exists>e \<in> set es. e_type e \<noteq> 1 \<and> p \<in> region_pages (unat (e_addr e)) (unat (e_size e)))))"
  using assms(1,2) unfolding t_def
proof (induction es arbitrary: s)
  case (Cons e es)
  show ?case
  proof (cases "e_type e = 1")
    case True
    then show ?thesis using Cons by simp
  next
    case False
    have small: "unat (e_addr e) + unat (e_size e) \<le> 2 ^ 43" using Cons.prems by simp
    note mark = mark_region [OF small Cons.prems(2)]
    show ?thesis
      using False Cons.IH [OF _ mark(1)] Cons.prems mark by auto
  qed
qed simp

lemma highest_end_fold: "fold (\<lambda>e m. if entry_end e > m then entry_end e else m) es m
    = fold max (map entry_end es) m"
proof (induction es arbitrary: m)
  case (Cons e es)
  have "(if entry_end e > m then entry_end e else m) = max (entry_end e) m" by (auto simp: max_def)
  with Cons show ?case by simp
qed simp

lemma highest_end_Max: "highest_end es = Max (insert 0 (set (map entry_end es)))"
  unfolding highest_end_def highest_end_fold by (simp only: Max.set_eq_fold [symmetric] list.set)

lemma highest_end_filter: "highest_end (filter P es) \<le> highest_end es"
  unfolding highest_end_Max by (intro Max_mono) auto

lemma highest_end_bound:
  assumes "\<forall>e \<in> set es. unat (e_addr e) + unat (e_size e) \<le> 2 ^ 43"
  shows "unat (highest_end es) \<le> 2 ^ 43"
proof -
  have "highest_end es \<in> insert 0 (set (map entry_end es))"
    unfolding highest_end_Max by (rule Max_in) auto
  then show ?thesis
    using assms by (auto simp: entry_end_def unat_add_u64)
qed

definition reserved :: "boot_info \<Rightarrow> nat set" where
  "reserved bi =
     (\<Union>e \<in> {e \<in> set (entries bi). e_type e \<noteq> 1}. region_pages (unat (e_addr e)) (unat (e_size e)))
     \<union> region_pages (unat (kernel_phys_base (kernel_sections bi))) (unat (kernel_size (kernel_sections bi)))
     \<union> {..<512}"

definition pmm_ok :: "'a pmm_state_scheme \<Rightarrow> bool" where
  "pmm_ok s \<longleftrightarrow> counted s \<and> unat (pmm_max_ram_page s) \<le> unat (pmm_total_pages s)
     \<and> unat (pmm_total_pages s) \<le> 1048576"

lemma pmm_init_frames:
  assumes "magic bi = BOOT_INFO_MAGIC"
    and "\<forall>e \<in> set (entries bi). unat (e_addr e) + unat (e_size e) \<le> 2 ^ 43"
  defines "T \<equiv> unat (highest_end (entries bi)) div 4096"
  shows "if T \<le> 1048576
    then \<exists>s'. pmm_init bi s = Inr s' \<and> pmm_ok s' \<and> free_set s' = {..<T} - reserved bi
    else isl (pmm_init bi s)"
proof -
  define tot where "tot = (ucast (highest_end (entries bi) div 4096) :: u32)"
  define ram where "ram = (ucast (highest_end (filter (\<lambda>e. e_type e = 1) (entries bi)) div 4096) :: u32)"
  have hb: "unat (highest_end (entries bi)) \<le> 8796093022208"
    using highest_end_bound [OF assms(2)] by simp
  then have Tb: "T \<le> 2147483648" unfolding T_def by (simp add: div_le_mono [of _ 8796093022208 4096, simplified])
  have tot: "unat tot = T"
    unfolding tot_def T_def using Tb by (subst unat_ucast_u64_u32) (auto simp: unat_div T_def)
  have le: "unat (highest_end (filter (\<lambda>e. e_type e = 1) (entries bi))) \<le> unat (highest_end (entries bi))"
    using highest_end_filter by (simp add: word_le_nat_alt)
  then have "unat (highest_end (filter (\<lambda>e. e_type e = 1) (entries bi))) div 4096 \<le> T"
    unfolding T_def by (rule div_le_mono)
  then have ram: "unat ram \<le> T"
    unfolding ram_def using Tb by (subst unat_ucast_u64_u32) (auto simp: unat_div)
  have "unat (tot + 7) = T + 7" using tot Tb by (simp add: unat_add_u32)
  then have bytes: "unat ((tot + 7) div 8) = (T + 7) div 8" by (simp add: unat_div)
  have guard: "(tot + 7) div 8 > MAX_BITMAP_SIZE_BYTES \<longleftrightarrow> \<not> T \<le> 1048576"
    unfolding word_less_nat_alt bytes by auto
  define s1 where "s1 = s\<lparr>pmm_total_pages := tot, pmm_max_ram_page := ram, pmm_bitmap_size_bytes := (tot + 7) div 8,
     pmm_bitmap := zero_bytes (unat ((tot + 7) div 8)) (pmm_bitmap s), pmm_free_pages := tot\<rparr>"
  show ?thesis
  proof (cases "T \<le> 1048576")
    case False
    with assms(1) guard show ?thesis by (simp add: pmm_init_def Let_def tot_def)
  next
    case True
    have unused: "\<not> used s1 p" if "p < T" for p
    proof -
      have "p div 8 < (T + 7) div 8" using that by linarith
      then show ?thesis by (simp add: used_def s1_def bytes zero_bytes_def)
    qed
    then have "free_set s1 = {..<T}" by (auto simp: free_set_def s1_def tot)
    then have c1: "counted s1" by (simp add: counted_def s1_def tot)
    define s2 where "s2 = fold (\<lambda>e s. if e_type e \<noteq> 1 then pmm_mark_region_used (e_addr e) (e_size e) s else s)
       (entries bi) s1"
    note m2 = mark_entries [OF assms(2) c1, folded s2_def]
    define kb where "kb = (ucast (kernel_phys_base (kernel_sections bi)) :: u64)"
    define ks where "ks = (ucast (kernel_size (kernel_sections bi)) :: u64)"
    have "unat kb + unat ks \<le> 2 ^ 43"
      using unat_u32_bound [of "kernel_phys_base (kernel_sections bi)"] unat_u32_bound [of "kernel_size (kernel_sections bi)"]
      by (simp add: kb_def ks_def)
    note m3 = mark_region [OF this m2 [THEN conjunct1]]
    define s3 where "s3 = pmm_mark_region_used kb ks s2"
    have "unat (0 :: u64) + unat (word_of_nat LOW_MEMORY_SIZE :: u64) \<le> 2 ^ 43" by simp
    note m4 = mark_region [OF this m3(1), folded s3_def]
    define s4 where "s4 = pmm_mark_region_used 0 (word_of_nat LOW_MEMORY_SIZE) s3"
    have init: "pmm_init bi s = Inr s4"
      using assms(1) guard True
      by (simp add: pmm_init_def Let_def s4_def s3_def s2_def s1_def kb_def ks_def tot_def ram_def)
    have tot4: "unat (pmm_total_pages s4) = T" and ram4: "pmm_max_ram_page s4 = ram"
      using m2 m3 m4 by (simp_all add: s4_def s3_def s1_def tot)
    have low: "region_pages 0 2097152 = {..<512}" by (auto simp: region_pages_def)
    have t123: "unat (pmm_total_pages s1) = T" "unat (pmm_total_pages s2) = T" "unat (pmm_total_pages s3) = T"
      using m2 m3(3) by (simp_all add: s3_def s1_def tot)
    have "used s4 p \<longleftrightarrow> p \<in> reserved bi" if p: "p < T" for p
    proof -
      have "used s4 p \<longleftrightarrow> used s3 p \<or> p < 512"
        using m4(2) [of p] p t123 low by (simp add: s4_def)
      moreover have "used s3 p \<longleftrightarrow> used s2 p \<or> p \<in> region_pages (unat kb) (unat ks)"
        using m3(2) [of p] p t123 by (simp add: s3_def)
      moreover have "used s2 p \<longleftrightarrow>
          (\<exists>e \<in> set (entries bi). e_type e \<noteq> 1 \<and> p \<in> region_pages (unat (e_addr e)) (unat (e_size e)))"
        using mark_entries [OF assms(2) c1, folded s2_def, of p] unused [OF p] p t123 by simp
      ultimately show ?thesis unfolding reserved_def kb_def ks_def unat_ucast_u32_u64 by blast
    qed
    then have "free_set s4 = {..<T} - reserved bi"
      unfolding free_set_def tot4 by blast
    then show ?thesis
      using True init m4(1) ram tot4 ram4 by (simp add: pmm_ok_def s4_def)
  qed
qed


subsection \<open>The scan of the allocator\<close>

definition allocatable :: "'a pmm_state_scheme \<Rightarrow> nat \<Rightarrow> bool" where
  "allocatable s p \<longleftrightarrow> 512 \<le> p \<and> \<not> used s p"

lemma scan_step:
  fixes i m :: u32
  assumes "unat i < M" "unat m = M"
  shows "unat ((i + 1) mod m) = (unat i + 1) mod M"
proof -
  have "i < m" using assms by (simp add: word_less_nat_alt)
  then have "unat (i + 1) = unat i + 1" using unat_inc_u32 [of i m] by simp
  then show ?thesis using assms by (simp add: unat_mod)
qed

lemma alloc_scan_spec:
  fixes s :: "'a pmm_state_scheme"
  defines "M \<equiv> unat (pmm_max_ram_page s)"
  assumes "unat start < M" "k < M" "unat i = (unat start + k) mod M" "M - k \<le> fuel"
  shows "case alloc_scan fuel start i s of
       None \<Rightarrow> False
     | Some None \<Rightarrow> \<forall>j. k \<le> j \<and> j < M \<longrightarrow> \<not> allocatable s ((unat start + j) mod M)
     | Some (Some r) \<Rightarrow> unat r < M \<and> allocatable s (unat r)"
  using assms(3-5)
proof (induction fuel arbitrary: i k)
  case (Suc fuel)
  have iM: "unat i < M" using Suc.prems assms(2) by simp
  show ?case
  proof (cases "allocatable s (unat i)")
    case True
    then show ?thesis using iM by (simp add: allocatable_def)
  next
    case False
    define i' where "i' = (i + 1) mod pmm_max_ram_page s"
    have i': "unat i' = (unat start + Suc k) mod M"
      unfolding i'_def using scan_step [OF iM, of "pmm_max_ram_page s"] Suc.prems(2)
      by (simp add: M_def mod_simps)
    have here: "\<not> allocatable s ((unat start + k) mod M)" using False Suc.prems(2) by simp
    show ?thesis
    proof (cases "i' = start")
      case True
      have "Suc k = M"
      proof (rule ccontr)
        assume "Suc k \<noteq> M"
        then have k: "Suc k < M" using Suc.prems(1) by simp
        have "(unat start + Suc k) mod M = unat start" using i' True by simp
        moreover have "(unat start + Suc k) mod M = unat start + Suc k - M"
          if "M \<le> unat start + Suc k" using that k assms(2) by (simp add: le_mod_geq)
        ultimately show False using k assms(2) by (cases "unat start + Suc k < M") auto
      qed
      then have "j = k" if "k \<le> j" "j < M" for j using that by simp
      with here True False show ?thesis by (auto simp: allocatable_def i'_def)
    next
      case ne: False
      have "Suc k \<noteq> M"
      proof
        assume "Suc k = M"
        then have "unat i' = (unat start + M) mod M" using i' by simp
        also have "\<dots> = unat start" using assms(2) by simp
        finally show False using ne by (simp add: word_unat_eq_iff)
      qed
      then have k: "Suc k < M" "M - Suc k \<le> fuel" using Suc.prems by auto
      have "alloc_scan (Suc fuel) start i s = alloc_scan fuel start i' s"
        using ne False by (auto simp: i'_def allocatable_def)
      moreover have "k \<le> j \<and> j < M \<longrightarrow> \<not> allocatable s ((unat start + j) mod M)"
        if "\<forall>j. Suc k \<le> j \<and> j < M \<longrightarrow> \<not> allocatable s ((unat start + j) mod M)" for j
        using that here by (cases "j = k") auto
      ultimately show ?thesis
        using Suc.IH [OF k(1) i' k(2)] by (auto split: option.splits)
    qed
  qed
qed simp

lemma alloc_scan_returns:
  assumes "pmm_max_ram_page s \<noteq> 0"
  defines "start \<equiv> pmm_last_alloc_index s mod pmm_max_ram_page s"
  shows "case alloc_scan (unat (pmm_max_ram_page s)) start start s of
       None \<Rightarrow> False
     | Some None \<Rightarrow> \<forall>p < unat (pmm_max_ram_page s). \<not> allocatable s p
     | Some (Some r) \<Rightarrow> unat r < unat (pmm_max_ram_page s) \<and> allocatable s (unat r)"
proof -
  let ?M = "unat (pmm_max_ram_page s)"
  have M: "0 < ?M" using assms(1) by (simp add: unat_gt_0)
  then have st: "unat start < ?M" by (simp add: start_def unat_mod)
  have all: "\<forall>p < ?M. \<not> allocatable s p"
    if none: "\<forall>j. 0 \<le> j \<and> j < ?M \<longrightarrow> \<not> allocatable s ((unat start + j) mod ?M)"
  proof (intro allI impI)
    fix p assume p: "p < ?M"
    have "(unat start + (p + ?M - unat start) mod ?M) mod ?M = (unat start + (p + ?M - unat start)) mod ?M"
      by (simp add: mod_simps)
    also have "\<dots> = p" using st p by simp
    finally show "\<not> allocatable s p" using none M by (metis le0 mod_less_divisor)
  qed
  show ?thesis
    using alloc_scan_spec [of start s 0 start ?M] st M all by (auto split: option.splits)
qed

subsection \<open>The frame allocator interface\<close>

text \<open>
  What the users of physical pages rely on: a failing allocation changes nothing and means that
  no frame is available; a successful one takes an available frame; releasing it gives it back.
\<close>

primrec alloc_many :: "('s \<Rightarrow> u32 \<times> 's) \<Rightarrow> nat \<Rightarrow> 's \<Rightarrow> u32 list \<times> 's" where
  "alloc_many alloc 0 s = ([], s)"
| "alloc_many alloc (Suc n) s =
     (let (a, s) = alloc s; (as, s) = alloc_many alloc n s in (a # as, s))"

locale frame_allocator =
  fixes inv :: "'s \<Rightarrow> bool"
    and avail :: "'s \<Rightarrow> nat set"
    and alloc :: "'s \<Rightarrow> u32 \<times> 's"
    and release :: "u32 \<Rightarrow> 's \<Rightarrow> 's"
  assumes alloc_fails: "inv s \<Longrightarrow> alloc s = (0, s') \<Longrightarrow> s' = s \<and> avail s = {}"
    and alloc_frame: "inv s \<Longrightarrow> alloc s = (a, s') \<Longrightarrow> a \<noteq> 0 \<Longrightarrow>
      inv s' \<and> (\<exists>p \<in> avail s. unat a = p * 4096 \<and> avail s' = avail s - {p})"
    and release_frame: "inv s \<Longrightarrow> alloc s = (a, s') \<Longrightarrow> a \<noteq> 0 \<Longrightarrow>
      inv (release a s') \<and> avail (release a s') = avail s"
begin

lemma alloc_succeeds: "inv s \<Longrightarrow> avail s \<noteq> {} \<Longrightarrow> fst (alloc s) \<noteq> 0"
  using alloc_fails by (cases "alloc s") auto

lemma alloc_many_distinct:
  "inv s \<Longrightarrow> alloc_many alloc n s = (as, s') \<Longrightarrow> 0 \<notin> set as \<Longrightarrow>
   distinct as \<and> length as = n \<and> inv s' \<and>
   (\<exists>ps. set ps \<subseteq> avail s \<and> map unat as = map (\<lambda>p. p * 4096) ps \<and> avail s' = avail s - set ps)"
proof (induction n arbitrary: s as)
  case (Suc n)
  obtain a s1 where a: "alloc s = (a, s1)" by fastforce
  obtain bs where bs: "alloc_many alloc n s1 = (bs, s')" "as = a # bs"
    using Suc.prems(2) a by (auto split: prod.splits)
  have "a \<noteq> 0" "0 \<notin> set bs" using Suc.prems(3) bs by auto
  from alloc_frame [OF Suc.prems(1) a this(1)] obtain p where
    p: "inv s1" "p \<in> avail s" "unat a = p * 4096" "avail s1 = avail s - {p}" by auto
  from Suc.IH [OF p(1) bs(1) \<open>0 \<notin> set bs\<close>] obtain ps where
    ps: "distinct bs" "length bs = n" "inv s'" "set ps \<subseteq> avail s1"
      "map unat bs = map (\<lambda>p. p * 4096) ps" "avail s' = avail s1 - set ps" by auto
  have "a \<notin> set bs"
  proof
    assume "a \<in> set bs"
    then have "unat a \<in> set (map unat bs)" by simp
    then have "p \<in> set ps" using ps(5) p(3) by auto
    then show False using ps(4) p(4) by auto
  qed
  then show ?case
    using bs ps p by (intro conjI exI [of _ "p # ps"]) auto
qed auto

lemma alloc_many_succeeds:
  "inv s \<Longrightarrow> finite (avail s) \<Longrightarrow> n \<le> card (avail s) \<Longrightarrow> 0 \<notin> set (fst (alloc_many alloc n s))"
proof (induction n arbitrary: s)
  case (Suc n)
  obtain a s1 where a: "alloc s = (a, s1)" by fastforce
  have "avail s \<noteq> {}" using Suc.prems by auto
  then have "a \<noteq> 0" using alloc_succeeds [OF Suc.prems(1)] a by simp
  from alloc_frame [OF Suc.prems(1) a this] obtain p where
    p: "inv s1" "p \<in> avail s" "avail s1 = avail s - {p}" by auto
  then have "0 \<notin> set (fst (alloc_many alloc n s1))" using Suc by (intro Suc.IH) auto
  then show ?case using a \<open>a \<noteq> 0\<close> by (auto split: prod.splits)
qed simp

end

text \<open>The frames the allocator can still hand out.\<close>

definition pmm_avail :: "'a pmm_state_scheme \<Rightarrow> nat set" where
  "pmm_avail s = {p. p < unat (pmm_max_ram_page s) \<and> allocatable s p}"

lemma pmm_alloc_cases:
  assumes "pmm_ok s"
  shows "(pmm_avail s = {} \<and> pmm_alloc_page s = (0, s)) \<or>
    (\<exists>i. unat i \<in> pmm_avail s \<and> unat i \<in> free_set s \<and> pmm_alloc_page s = (i * 4096,
        (pmm_set_bit i s)\<lparr>pmm_free_pages := pmm_free_pages s - 1, pmm_last_alloc_index := i\<rparr>))"
proof (cases "pmm_free_pages s = 0 \<or> pmm_max_ram_page s = 0")
  case True
  have "pmm_avail s \<subseteq> free_set s"
    using assms by (auto simp: pmm_avail_def free_set_def allocatable_def pmm_ok_def)
  moreover have "pmm_free_pages s = 0 \<Longrightarrow> free_set s = {}"
    using assms by (simp add: pmm_ok_def counted_def)
  moreover have "pmm_max_ram_page s = 0 \<Longrightarrow> pmm_avail s = {}" by (simp add: pmm_avail_def)
  ultimately show ?thesis using True by (auto simp: pmm_alloc_page_def)
next
  case False
  define start where "start = pmm_last_alloc_index s mod pmm_max_ram_page s"
  have scan: "case alloc_scan (unat (pmm_max_ram_page s)) start start s of
       None \<Rightarrow> False
     | Some None \<Rightarrow> \<forall>p < unat (pmm_max_ram_page s). \<not> allocatable s p
     | Some (Some r) \<Rightarrow> unat r < unat (pmm_max_ram_page s) \<and> allocatable s (unat r)"
    using alloc_scan_returns [of s] False by (simp add: start_def)
  have sub: "pmm_avail s \<subseteq> free_set s"
    using assms by (auto simp: pmm_avail_def free_set_def allocatable_def pmm_ok_def)
  show ?thesis
    using scan False sub
    by (auto simp: pmm_alloc_page_def Let_def start_def [symmetric] pmm_avail_def split: option.splits)
qed

lemma pmm_frame_addr:
  assumes "unat i \<in> pmm_avail s" "pmm_ok s"
  shows "unat (i * 4096) = unat i * 4096" "512 \<le> unat i" "i < pmm_max_ram_page s"
    "i * 4096 div 4096 = i" "i * 4096 mod 4096 = 0" "i * 4096 \<noteq> 0"
proof -
  show i: "512 \<le> unat i" "i < pmm_max_ram_page s"
    using assms by (auto simp: pmm_avail_def allocatable_def word_less_nat_alt)
  have "unat i < 1048576" using assms by (auto simp: pmm_avail_def pmm_ok_def)
  then show n: "unat (i * 4096) = unat i * 4096" by (simp add: unat_word_ariths)
  show "i * 4096 div 4096 = i" "i * 4096 mod 4096 = 0"
    by (simp_all add: word_unat_eq_iff unat_div unat_mod n)
  show "i * 4096 \<noteq> 0" using n i(1) by auto
qed

lemma pmm_free_eq:
  assumes "unat i \<in> pmm_avail s" "pmm_ok s" "used t (unat i)" "pmm_max_ram_page t = pmm_max_ram_page s"
  shows "pmm_free_page (i * 4096) t = (pmm_clear_bit i t)\<lparr>pmm_free_pages := pmm_free_pages t + 1\<rparr>"
  using pmm_frame_addr [OF assms(1,2)] assms(3,4) by (simp add: pmm_free_page_def Let_def not_le)

lemma pmm_avail_take:
  "unat i \<in> pmm_avail s \<Longrightarrow> pmm_avail ((pmm_set_bit i s)\<lparr>pmm_free_pages := n, pmm_last_alloc_index := j\<rparr>)
     = pmm_avail s - {unat i}"
  by (auto simp: pmm_avail_def allocatable_def)

lemma pmm_ok_take:
  assumes "pmm_ok s" "unat i \<in> free_set s"
  shows "pmm_ok ((pmm_set_bit i s)\<lparr>pmm_free_pages := pmm_free_pages s - 1, pmm_last_alloc_index := j\<rparr>)"
proof -
  have "free_set (t\<lparr>pmm_last_alloc_index := j\<rparr>) = free_set t" for t :: "'a pmm_state_scheme"
    by (simp add: free_set_def)
  then show ?thesis using counted_take [of s i] assms by (simp add: pmm_ok_def counted_def)
qed

interpretation frames: frame_allocator pmm_ok pmm_avail pmm_alloc_page pmm_free_page
proof
  fix s s' :: "'a pmm_state_scheme" and a
  assume ok: "pmm_ok s"
  show "s' = s \<and> pmm_avail s = {}" if "pmm_alloc_page s = (0, s')"
    using pmm_alloc_cases [OF ok] that pmm_frame_addr(6) [OF _ ok] by auto
  assume alloc: "pmm_alloc_page s = (a, s')" "a \<noteq> 0"
  from pmm_alloc_cases [OF ok] alloc obtain i where i: "unat i \<in> pmm_avail s" "unat i \<in> free_set s" "a = i * 4096"
    "s' = (pmm_set_bit i s)\<lparr>pmm_free_pages := pmm_free_pages s - 1, pmm_last_alloc_index := i\<rparr>" by auto
  have ok': "pmm_ok s'" using pmm_ok_take [OF ok i(2)] i(4) by simp
  show "pmm_ok s' \<and> (\<exists>p \<in> pmm_avail s. unat a = p * 4096 \<and> pmm_avail s' = pmm_avail s - {p})"
    using ok' i pmm_avail_take [OF i(1)] pmm_frame_addr(1) [OF i(1) ok] by auto
  have u: "used s' (unat i)" "pmm_max_ram_page s' = pmm_max_ram_page s" using i(4) by simp_all
  have "pmm_free_page a s' = (pmm_clear_bit i s')\<lparr>pmm_free_pages := pmm_free_pages s' + 1\<rparr>"
    using pmm_free_eq [OF i(1) ok u] i(3) by simp
  moreover have "counted ((pmm_clear_bit i s')\<lparr>pmm_free_pages := pmm_free_pages s' + 1\<rparr>)"
    using ok' u i by (intro counted_give) (auto simp: pmm_ok_def free_set_def)
  moreover have "pmm_avail ((pmm_clear_bit i s')\<lparr>pmm_free_pages := pmm_free_pages s' + 1\<rparr>) = pmm_avail s"
    using i by (auto simp: pmm_avail_def allocatable_def)
  ultimately show "pmm_ok (pmm_free_page a s') \<and> pmm_avail (pmm_free_page a s') = pmm_avail s"
    using ok' by (simp add: pmm_ok_def)
qed

subsection \<open>Properties of the page allocator\<close>

text \<open>C11: pmm_alloc_page returns 0 and changes nothing exactly when no frame above the reserved
  memory is free; otherwise it returns the address of a free frame and marks that frame, and
  no other, as used.\<close>

theorem pmm_alloc_page_correct:
  assumes "pmm_ok s" "pmm_alloc_page s = (a, s')"
  shows "if a = 0 then s' = s \<and> pmm_avail s = {}
    else pmm_ok s' \<and> (\<exists>p. unat a = p * 4096 \<and> 512 \<le> p \<and> p < unat (pmm_max_ram_page s) \<and>
      \<not> used s p \<and> (\<forall>q. used s' q \<longleftrightarrow> q = p \<or> used s q) \<and>
      unat (pmm_free_pages s') = unat (pmm_free_pages s) - 1)"
proof (cases "a = 0")
  case True
  with frames.alloc_fails [OF assms(1)] assms(2) show ?thesis by auto
next
  case False
  from pmm_alloc_cases [OF assms(1)] assms(2) False obtain i where
    i: "unat i \<in> pmm_avail s" "unat i \<in> free_set s" "a = i * 4096"
    "s' = (pmm_set_bit i s)\<lparr>pmm_free_pages := pmm_free_pages s - 1, pmm_last_alloc_index := i\<rparr>" by auto
  have "pmm_free_pages s \<noteq> 0"
    using i(2) assms(1) by (auto simp: pmm_ok_def counted_def card_gt_0_iff unat_eq_0 [symmetric] simp del: unat_eq_0)
  then have "unat (pmm_free_pages s') = unat (pmm_free_pages s) - 1"
    using i(4) by (simp add: unat_minus_one)
  moreover have "pmm_ok s'" using frames.alloc_frame [OF assms False] by simp
  ultimately show ?thesis
    using False i pmm_frame_addr [OF i(1) assms(1)]
    by (auto simp: pmm_avail_def allocatable_def intro!: exI [of _ "unat i"])
qed

theorem pmm_alloc_many_disjoint:
  assumes "pmm_ok s" "n \<le> card (pmm_avail s)" "alloc_many pmm_alloc_page n s = (as, s')"
  shows "0 \<notin> set as \<and> distinct as \<and> length as = n \<and>
    (\<forall>a \<in> set as. unat a div 4096 \<in> pmm_avail s \<and> unat a mod 4096 = 0 \<and> unat a div 4096 \<notin> pmm_avail s')"
proof -
  have fin: "finite (pmm_avail s)" by (simp add: pmm_avail_def)
  have nz: "0 \<notin> set as" using frames.alloc_many_succeeds [OF assms(1) fin assms(2)] assms(3) by simp
  from frames.alloc_many_distinct [OF assms(1,3) nz] obtain ps where
    ps: "distinct as" "length as = n" "set ps \<subseteq> pmm_avail s" "map unat as = map (\<lambda>p. p * 4096) ps"
    "pmm_avail s' = pmm_avail s - set ps" by auto
  have "\<exists>p \<in> set ps. unat a = p * 4096" if "a \<in> set as" for a
  proof -
    have "unat a \<in> set (map unat as)" using that by simp
    then show ?thesis unfolding ps(4) by auto
  qed
  then show ?thesis using nz ps by fastforce
qed

text \<open>C16: Freeing a frame just allocated makes the same frames available as before with the same
  counter, and freeing it a second time changes nothing.\<close>

theorem pmm_free_page_restores:
  assumes "pmm_ok s" "pmm_alloc_page s = (a, s')" "a \<noteq> 0"
  shows "pmm_ok (pmm_free_page a s') \<and> pmm_avail (pmm_free_page a s') = pmm_avail s \<and>
    pmm_free_pages (pmm_free_page a s') = pmm_free_pages s \<and>
    pmm_free_page a (pmm_free_page a s') = pmm_free_page a s'"
proof -
  from pmm_alloc_cases [OF assms(1)] assms(2,3) obtain i where
    i: "unat i \<in> pmm_avail s" "a = i * 4096"
    "s' = (pmm_set_bit i s)\<lparr>pmm_free_pages := pmm_free_pages s - 1, pmm_last_alloc_index := i\<rparr>" by auto
  have eq: "pmm_free_page a s' = (pmm_clear_bit i s')\<lparr>pmm_free_pages := pmm_free_pages s' + 1\<rparr>"
    using pmm_free_eq [OF i(1) assms(1), of s'] i by simp
  have "pmm_free_page a (pmm_free_page a s') = pmm_free_page a s'"
    using pmm_frame_addr [OF i(1) assms(1)] unfolding eq by (simp add: i(2) pmm_free_page_def Let_def)
  then show ?thesis using frames.release_frame [OF assms] eq i by simp
qed

end
