(* ===== verification/Vmm.thy ===== *)
theory Vmm
  imports Pmm
begin

text \<open>
  \<open>08.kernel-mm/kernel/mem/vmm.c\<close> and \<open>include/vmm.h\<close>, the virtual memory manager over the
  two-level page tables that \<open>boot/loader.S\<close> sets up, with the page directory mapped into itself
  at entry 769.

  \<open>phys\<close> is physical memory, where the page tables are; \<open>mmu\<close> is the walk of the processor from
  CR3, and the manager's own accesses to the tables go through it at the virtual addresses the
  code uses. An access that the walk does not map would be a page fault inside the manager; the
  result is then \<open>None\<close>. \<open>tlb\<close> holds the translations the processor may have cached.
\<close>

record page_table_entry =
  present :: bool
  rw :: bool
  user :: bool
  writethrough :: bool
  cache_disable :: bool
  accessed :: bool
  dirty :: bool
  pat :: bool
  global :: bool
  avail :: "3 word"
  frame_addr :: "20 word"

definition decode_pte :: "u32 \<Rightarrow> page_table_entry" where
  "decode_pte w = \<lparr>present = bit w 0, rw = bit w 1, user = bit w 2, writethrough = bit w 3,
     cache_disable = bit w 4, accessed = bit w 5, dirty = bit w 6, pat = bit w 7, global = bit w 8,
     avail = ucast (drop_bit 9 w), frame_addr = ucast (drop_bit 12 w)\<rparr>"

definition encode_pte :: "page_table_entry \<Rightarrow> u32" where
  "encode_pte e = of_bool (present e) OR push_bit 1 (of_bool (rw e)) OR push_bit 2 (of_bool (user e))
     OR push_bit 3 (of_bool (writethrough e)) OR push_bit 4 (of_bool (cache_disable e))
     OR push_bit 5 (of_bool (accessed e)) OR push_bit 6 (of_bool (dirty e))
     OR push_bit 7 (of_bool (pat e)) OR push_bit 8 (of_bool (global e))
     OR push_bit 9 (ucast (avail e)) OR push_bit 12 (ucast (frame_addr e))"

definition PAGE_PRESENT :: u32 where "PAGE_PRESENT = push_bit 0 1"
definition PAGE_RW :: u32 where "PAGE_RW = push_bit 1 1"
definition PAGE_USER :: u32 where "PAGE_USER = push_bit 2 1"
definition PAGE_WRITETHROUGH :: u32 where "PAGE_WRITETHROUGH = push_bit 3 1"
definition PAGE_CACHE_DISABLE :: u32 where "PAGE_CACHE_DISABLE = push_bit 4 1"
definition PAGE_KERNEL_FLAGS :: u32 where "PAGE_KERNEL_FLAGS = PAGE_PRESENT OR PAGE_RW"
definition PAGE_DIR_VIRTUAL :: u32 where [simp]: "PAGE_DIR_VIRTUAL = 0xC0701000"
definition PAGE_TABLES_VIRTUAL_ADDR :: u32 where [simp]: "PAGE_TABLES_VIRTUAL_ADDR = 0xC0400000"
definition KERNEL_LOAD_VIRTUAL_ADDR :: u32 where [simp]: "KERNEL_LOAD_VIRTUAL_ADDR = 0xC0800000"
definition KERNEL_PAGE_DIR_PHY :: u32 where [simp]: "KERNEL_PAGE_DIR_PHY = 0x00101000"
definition INT_PAGE_FAULT :: u8 where [simp]: "INT_PAGE_FAULT = 14"

definition PAGE_ALIGN_DOWN :: "u32 \<Rightarrow> u32" where
  "PAGE_ALIGN_DOWN addr = addr AND NOT (4096 - 1)"

record vmm_state = pmm_state +
  phys :: ram
  tlb :: "u32 \<Rightarrow> u32 option"
  kernel_directory_phys_addr :: u32

subsection \<open>The memory management unit\<close>

definition frame_base :: "page_table_entry \<Rightarrow> u32" where
  "frame_base e = push_bit 12 (ucast (frame_addr e))"

definition dir_index :: "u32 \<Rightarrow> u32" where
  "dir_index va = drop_bit 22 va"

definition tbl_index :: "u32 \<Rightarrow> u32" where
  "tbl_index va = drop_bit 12 va AND 0x3FF"

text \<open>CR3 has the layout of an entry in its upper 20 bits.\<close>

definition pde_addr :: "'a vmm_state_scheme \<Rightarrow> u32 \<Rightarrow> u32" where
  "pde_addr s va = frame_base (decode_pte (cr3 s)) + 4 * dir_index va"

definition pde :: "'a vmm_state_scheme \<Rightarrow> u32 \<Rightarrow> page_table_entry" where
  "pde s va = decode_pte (load32 (phys s) (pde_addr s va))"

definition pte_addr :: "'a vmm_state_scheme \<Rightarrow> u32 \<Rightarrow> u32" where
  "pte_addr s va = frame_base (pde s va) + 4 * tbl_index va"

definition pte :: "'a vmm_state_scheme \<Rightarrow> u32 \<Rightarrow> page_table_entry" where
  "pte s va = decode_pte (load32 (phys s) (pte_addr s va))"

definition mmu :: "'a vmm_state_scheme \<Rightarrow> u32 \<Rightarrow> u32 option" where
  "mmu s va =
     (if present (pde s va) \<and> present (pte s va)
      then Some (frame_base (pte s va) + (va AND 0xFFF)) else None)"

definition virt_load :: "'a vmm_state_scheme \<Rightarrow> u32 \<Rightarrow> u32 option" where
  "virt_load s va = map_option (load32 (phys s)) (mmu s va)"

definition virt_store :: "u32 \<Rightarrow> u32 \<Rightarrow> 'a vmm_state_scheme \<Rightarrow> 'a vmm_state_scheme option" where
  "virt_store va v s = map_option (\<lambda>pa. s\<lparr>phys := store32 (phys s) pa v\<rparr>) (mmu s va)"

subsection \<open>The manager\<close>

text \<open>
  \<open>get_page\<close>: the virtual address of the entry, \<open>Some None\<close> for the NULL of an absent table.
\<close>

definition get_page :: "u32 \<Rightarrow> 'a vmm_state_scheme \<Rightarrow> u32 option option" where
  "get_page virt_addr s =
     (let page_dir_idx = drop_bit 22 virt_addr;
          page_tbl_idx = drop_bit 12 virt_addr AND 0x3FF
      in case virt_load s (PAGE_DIR_VIRTUAL + 4 * page_dir_idx) of
           None \<Rightarrow> None
         | Some w \<Rightarrow>
             if \<not> present (decode_pte w) then Some None
             else Some (Some (PAGE_TABLES_VIRTUAL_ADDR + page_dir_idx * 4096 + 4 * page_tbl_idx)))"

definition invalidate_page :: "u32 \<Rightarrow> 'a vmm_state_scheme \<Rightarrow> 'a vmm_state_scheme" where
  "invalidate_page addr s = s\<lparr>tlb := (tlb s)(drop_bit 12 addr := None)\<rparr>"

definition vmm_init :: "symbols \<Rightarrow> 'a vmm_state_scheme \<Rightarrow> 'a vmm_state_scheme" where
  "vmm_init syms s =
     (let s = s\<lparr>kernel_directory_phys_addr := KERNEL_PAGE_DIR_PHY\<rparr>;
          s = register_interrupt_handler INT_PAGE_FAULT (page_fault_handler_sym syms) s;
          s = printk ''[VMM] Initialized with fixed page tables.\<newline>'' [] s;
          s = printk ''    Page Dir @ 0x%x (Virt: 0x%x)\<newline>''
                [Word (kernel_directory_phys_addr s), Word PAGE_DIR_VIRTUAL] s;
          s = printk ''    Page Tables @ 0x%x\<newline>'' [Word PAGE_TABLES_VIRTUAL_ADDR] s
      in printk ''    Page Fault handler registered for on-demand paging.\<newline>'' [] s)"

definition set_entry :: "u32 \<Rightarrow> u32 \<Rightarrow> page_table_entry \<Rightarrow> page_table_entry" where
  "set_entry phys_addr flags e =
     e\<lparr>frame_addr := ucast (drop_bit 12 phys_addr),
       present := (flags AND PAGE_PRESENT \<noteq> 0),
       rw := (flags AND PAGE_RW \<noteq> 0),
       user := (flags AND PAGE_USER \<noteq> 0),
       writethrough := (flags AND PAGE_WRITETHROUGH \<noteq> 0),
       cache_disable := (flags AND PAGE_CACHE_DISABLE \<noteq> 0)\<rparr>"

definition vmm_map_page ::
  "u32 \<Rightarrow> u32 \<Rightarrow> u32 \<Rightarrow> 'a vmm_state_scheme \<Rightarrow> (bool \<times> 'a vmm_state_scheme) option" where
  "vmm_map_page virt_addr phys_addr flags s =
     (case get_page virt_addr s of
        None \<Rightarrow> None
      | Some None \<Rightarrow>
          Some (False, printk ''VMM: Failed to map page 0x%x. Page table not present.\<newline>''
                         [Word virt_addr] s)
      | Some (Some page) \<Rightarrow>
          (case virt_load s page of
             None \<Rightarrow> None
           | Some w \<Rightarrow>
               map_option (\<lambda>s. (True, invalidate_page virt_addr s))
                 (virt_store page (encode_pte (set_entry phys_addr flags (decode_pte w))) s)))"

definition vmm_alloc_and_map_page ::
  "u32 \<Rightarrow> u32 \<Rightarrow> 'a vmm_state_scheme \<Rightarrow> (bool \<times> 'a vmm_state_scheme) option" where
  "vmm_alloc_and_map_page virt_addr flags s =
     (let (new_phys_page, s) = pmm_alloc_page s
      in if new_phys_page = 0 then Some (False, s) else vmm_map_page virt_addr new_phys_page flags s)"

definition vmm_unmap_page :: "u32 \<Rightarrow> 'a vmm_state_scheme \<Rightarrow> 'a vmm_state_scheme option" where
  "vmm_unmap_page virt_addr s =
     (case get_page virt_addr s of
        None \<Rightarrow> None
      | Some None \<Rightarrow> Some s
      | Some (Some page) \<Rightarrow>
          (case virt_load s page of
             None \<Rightarrow> None
           | Some w \<Rightarrow>
               if \<not> present (decode_pte w) then Some s
               else map_option (invalidate_page virt_addr) (virt_store page 0 s)))"

definition vmm_get_phys_addr :: "u32 \<Rightarrow> 'a vmm_state_scheme \<Rightarrow> u32 option" where
  "vmm_get_phys_addr virt_addr s =
     (case get_page virt_addr s of
        None \<Rightarrow> None
      | Some None \<Rightarrow> Some 0
      | Some (Some page) \<Rightarrow>
          (case virt_load s page of
             None \<Rightarrow> None
           | Some w \<Rightarrow>
               Some (if \<not> present (decode_pte w) then 0
                     else frame_base (decode_pte w) + (virt_addr AND 0xFFF))))"

definition vmm_switch_page_directory :: "u32 \<Rightarrow> 'a vmm_state_scheme \<Rightarrow> 'a vmm_state_scheme" where
  "vmm_switch_page_directory new_directory_phys_addr s =
     s\<lparr>cr3 := new_directory_phys_addr, tlb := (\<lambda>p. None)\<rparr>"

definition vmm_get_current_directory_phys_addr :: "'a vmm_state_scheme \<Rightarrow> u32" where
  "vmm_get_current_directory_phys_addr s = cr3 s"

definition vmm_page_fault_handler ::
  "interrupt_frame \<Rightarrow> 'a vmm_state_scheme \<Rightarrow> ('a vmm_state_scheme, 'a vmm_state_scheme) outcome option" where
  "vmm_page_fault_handler frame s =
     (let faulting_addr = cr2 s
      in if faulting_addr < KERNEL_LOAD_VIRTUAL_ADDR then
           let s = printk ''\<newline>!!!!! KERNEL PAGE FAULT (Null Pointer?) !!!!!\<newline>'' [] s;
               s = printk ''Faulting address: 0x%x\<newline>'' [Word faulting_addr] s;
               s = printk ''Kernel accessed invalid low memory.'' [] s
           in Some (kernel_panic ''kernel/mem/vmm.c'' ''vmm_page_fault_handler'' 160 s)
         else
           (case vmm_alloc_and_map_page (PAGE_ALIGN_DOWN faulting_addr) PAGE_KERNEL_FLAGS s of
              None \<Rightarrow> None
            | Some (ok, s) \<Rightarrow>
                Some (if \<not> ok then
                        kernel_panic ''kernel/mem/vmm.c'' ''vmm_page_fault_handler'' 168
                          (printk ''Page fault: Out of memory.'' [] s)
                      else Inr s)))"

subsection \<open>Entries\<close>

lemma decode_encode [simp]: "decode_pte (encode_pte e) = e"
proof -
  have "present (decode_pte (encode_pte e)) = present e" "rw (decode_pte (encode_pte e)) = rw e"
    "user (decode_pte (encode_pte e)) = user e" "writethrough (decode_pte (encode_pte e)) = writethrough e"
    "cache_disable (decode_pte (encode_pte e)) = cache_disable e"
    "accessed (decode_pte (encode_pte e)) = accessed e" "dirty (decode_pte (encode_pte e)) = dirty e"
    "pat (decode_pte (encode_pte e)) = pat e" "global (decode_pte (encode_pte e)) = global e"
    by (simp_all add: decode_pte_def encode_pte_def bit_simps)
  moreover have "avail (decode_pte (encode_pte e)) = avail e"
  proof (rule bit_word_eqI)
    fix n assume "n < LENGTH(3)"
    then have "n = 0 \<or> n = 1 \<or> n = 2" by auto
    then show "bit (avail (decode_pte (encode_pte e))) n \<longleftrightarrow> bit (avail e) n"
      by (auto simp: decode_pte_def encode_pte_def bit_simps)
  qed
  moreover have "frame_addr (decode_pte (encode_pte e)) = frame_addr e"
    by (rule bit_word_eqI) (auto simp: decode_pte_def encode_pte_def bit_simps dest: bit_imp_le_length)
  ultimately show ?thesis by simp
qed

lemma frame_base_set [simp]:
  "frame_base (set_entry pa flags e) = push_bit 12 (drop_bit 12 pa)"
  unfolding frame_base_def set_entry_def
  by (rule bit_word_eqI) (auto simp: bit_simps)

lemma frame_base_decode: "frame_base (decode_pte w) = push_bit 12 (drop_bit 12 w)"
  unfolding frame_base_def decode_pte_def page_table_entry.simps
  by (rule bit_word_eqI) (auto simp: bit_simps)

lemma frame_base_aligned: "unat (frame_base e) mod 4096 = 0" "unat (frame_base e) \<le> 4294963200"
proof -
  define n where "n = unat (frame_addr e)"
  have "n < 1048576" using unsigned_less [of "frame_addr e"] by (simp add: n_def)
  moreover have "unat (ucast (frame_addr e) :: u32) = n"
    using \<open>n < 1048576\<close> by (simp add: n_def unsigned_ucast_eq take_bit_nat_eq_self)
  ultimately have "unat (frame_base e) = n * 4096"
    by (simp add: frame_base_def push_bit_eq_mult unat_word_ariths)
  then show "unat (frame_base e) mod 4096 = 0" "unat (frame_base e) \<le> 4294963200"
    using \<open>n < 1048576\<close> by simp_all
qed

subsection \<open>Indices\<close>

lemma unat_and_masks: "unat (w AND 0xFFF :: u32) = unat w mod 4096" "unat (w AND 0x3FF :: u32) = unat w mod 1024"
proof -
  have "(0xFFF :: u32) = mask 12" "(0x3FF :: u32) = mask 10" by (simp_all add: mask_eq_exp_minus_1)
  then show "unat (w AND 0xFFF :: u32) = unat w mod 4096" "unat (w AND 0x3FF :: u32) = unat w mod 1024"
    by (simp_all only: take_bit_eq_mask [symmetric] unsigned_take_bit_eq) (simp_all only: take_bit_eq_mod, simp_all)
qed

lemma unat_indices:
  "unat (dir_index va) = unat va div 4096 div 1024"
  "unat (tbl_index va) = unat va div 4096 mod 1024"
proof -
  have "unat (drop_bit 22 va) = drop_bit 22 (unat va)" "unat (drop_bit 12 va) = drop_bit 12 (unat va)"
    by (rule unat_drop_bit_eq)+
  then show "unat (dir_index va) = unat va div 4096 div 1024" "unat (tbl_index va) = unat va div 4096 mod 1024"
    by (simp_all only: dir_index_def tbl_index_def unat_and_masks drop_bit_eq_div div_mult2_eq [symmetric])
      simp_all
qed

lemma index_bounds: "unat (dir_index va) < 1024" "unat (tbl_index va) < 1024"
  using unat_u32_bound [of va] by (simp_all add: unat_indices)

lemma page_split:
  assumes "r < (4096 :: nat)"
  shows "(a * 4096 + r) div 4096 = a" "(a * 4096 + r) mod 4096 = r"
  using assms by simp_all

lemma dir_window:
  assumes "unat i < 1024"
  shows "dir_index (PAGE_DIR_VIRTUAL + 4 * i) = 769" "tbl_index (PAGE_DIR_VIRTUAL + 4 * i) = 769"
    "(PAGE_DIR_VIRTUAL + 4 * i) AND 0xFFF = 4 * i"
proof -
  have i4: "unat (4 * i) = 4 * unat i" using assms by (simp add: unat_word_ariths)
  then have n: "unat (PAGE_DIR_VIRTUAL + 4 * i) = 3228569600 + 4 * unat i"
    using assms by (subst unat_add_u32) simp_all
  have r: "4 * unat i < 4096" using assms by simp
  have n': "3228569600 + 4 * unat i = 788225 * 4096 + 4 * unat i" by simp
  show "dir_index (PAGE_DIR_VIRTUAL + 4 * i) = 769" "tbl_index (PAGE_DIR_VIRTUAL + 4 * i) = 769"
    "(PAGE_DIR_VIRTUAL + 4 * i) AND 0xFFF = 4 * i"
    using assms
    by (simp_all only: word_unat_eq_iff unat_indices unat_and_masks n i4 n' page_split [OF r]) simp_all
qed

lemma table_window:
  assumes "unat i < 1024" "unat j < 1024"
  defines "va \<equiv> PAGE_TABLES_VIRTUAL_ADDR + i * 4096 + 4 * j"
  shows "dir_index va = 769" "tbl_index va = i" "va AND 0xFFF = 4 * j"
proof -
  have j4: "unat (4 * j) = 4 * unat j" "unat (i * 4096) = unat i * 4096"
    using assms(1,2) by (simp_all add: unat_word_ariths)
  then have n: "unat va = 3225419776 + unat i * 4096 + 4 * unat j"
    using assms(1,2) unfolding va_def by (simp add: unat_add_u32)
  have r: "4 * unat j < 4096" using assms(2) by simp
  have n': "3225419776 + unat i * 4096 + 4 * unat j = (787456 + unat i) * 4096 + 4 * unat j" by simp
  have i: "(787456 + unat i) mod 1024 = unat i" "(787456 + unat i) div 1024 = 769"
    using assms(1) div_mult_self1 [of 1024 "unat i" 769] mod_mult_self1 [of "unat i" 769 1024]
    by (simp_all add: add.commute)
  have nine: "unat (769 :: u32) = 769" by simp
  show "dir_index va = 769" "tbl_index va = i" "va AND 0xFFF = 4 * j"
    using assms(1,2)
    by (simp_all only: word_unat_eq_iff unat_indices unat_and_masks n j4 n' page_split [OF r] i nine)
qed

subsection \<open>The self map\<close>

definition dir_base :: "'a vmm_state_scheme \<Rightarrow> u32" where
  "dir_base s = frame_base (decode_pte (cr3 s))"

definition self_pde :: "'a vmm_state_scheme \<Rightarrow> page_table_entry" where
  "self_pde s = decode_pte (load32 (phys s) (dir_base s + 4 * 769))"

definition selfmap :: "'a vmm_state_scheme \<Rightarrow> bool" where
  "selfmap s \<longleftrightarrow> present (self_pde s) \<and> frame_base (self_pde s) = dir_base s"

lemma mmu_dir_window:
  assumes "selfmap s" "unat i < 1024"
  shows "mmu s (PAGE_DIR_VIRTUAL + 4 * i) = Some (dir_base s + 4 * i)"
proof -
  note w = dir_window [OF assms(2)]
  have "pde s (PAGE_DIR_VIRTUAL + 4 * i) = self_pde s"
    unfolding pde_def pde_addr_def w self_pde_def dir_base_def ..
  moreover have "pte s (PAGE_DIR_VIRTUAL + 4 * i) = self_pde s"
    unfolding pte_def pte_addr_def w calculation
    using assms(1) by (simp add: selfmap_def) (simp add: self_pde_def)
  ultimately show ?thesis using assms(1) by (simp add: mmu_def selfmap_def w [simplified])
qed

lemma mmu_table_window:
  assumes "selfmap s" "present (pde s va)"
  shows "mmu s (PAGE_TABLES_VIRTUAL_ADDR + dir_index va * 4096 + 4 * tbl_index va) = Some (pte_addr s va)"
proof -
  let ?w = "PAGE_TABLES_VIRTUAL_ADDR + dir_index va * 4096 + 4 * tbl_index va"
  note w = table_window [OF index_bounds, of va va]
  have 1: "pde s ?w = self_pde s"
    unfolding pde_def pde_addr_def w self_pde_def dir_base_def ..
  have 2: "pte s ?w = pde s va"
    unfolding pte_def pte_addr_def w 1
    using assms(1) by (simp add: selfmap_def pde_def pde_addr_def dir_base_def)
  show ?thesis using assms unfolding mmu_def 1 2 w by (simp add: selfmap_def pte_addr_def)
qed

lemma get_page_eq:
  assumes "selfmap s"
  shows "get_page va s = Some (if present (pde s va)
    then Some (PAGE_TABLES_VIRTUAL_ADDR + dir_index va * 4096 + 4 * tbl_index va) else None)"
proof -
  have "virt_load s (PAGE_DIR_VIRTUAL + 4 * dir_index va) = Some (load32 (phys s) (pde_addr s va))"
    using mmu_dir_window [OF assms index_bounds(1) [of va]]
    by (simp add: virt_load_def pde_addr_def dir_base_def)
  then show ?thesis
    by (simp add: get_page_def Let_def dir_index_def [symmetric] tbl_index_def [symmetric] pde_def)
qed

lemma virt_load_page:
  assumes "selfmap s" "present (pde s va)"
  shows "virt_load s (PAGE_TABLES_VIRTUAL_ADDR + dir_index va * 4096 + 4 * tbl_index va)
    = Some (load32 (phys s) (pte_addr s va))"
  using mmu_table_window [OF assms] by (simp add: virt_load_def)

text \<open>The operations on a directory that maps itself, without the detour through the window.\<close>

lemma vmm_map_page_eq:
  assumes "selfmap s"
  shows "vmm_map_page va pa flags s = Some (if present (pde s va)
    then (True, invalidate_page va (s\<lparr>phys := store32 (phys s) (pte_addr s va)
            (encode_pte (set_entry pa flags (pte s va)))\<rparr>))
    else (False, printk ''VMM: Failed to map page 0x%x. Page table not present.\<newline>'' [Word va] s))"
  using virt_load_page [OF assms, of va] mmu_table_window [OF assms, of va]
  by (simp add: vmm_map_page_def get_page_eq [OF assms] virt_store_def pte_def)

lemma vmm_unmap_page_eq:
  assumes "selfmap s"
  shows "vmm_unmap_page va s = Some (if mmu s va = None then s
    else invalidate_page va (s\<lparr>phys := store32 (phys s) (pte_addr s va) 0\<rparr>))"
  using virt_load_page [OF assms, of va] mmu_table_window [OF assms, of va]
  by (simp add: vmm_unmap_page_def get_page_eq [OF assms] virt_store_def pte_def mmu_def)

lemma get_phys_addr_mmu:
  assumes "selfmap s"
  shows "vmm_get_phys_addr va s = Some (case mmu s va of None \<Rightarrow> 0 | Some pa \<Rightarrow> pa)"
  using virt_load_page [OF assms, of va]
  by (simp add: vmm_get_phys_addr_def get_page_eq [OF assms] pte_def mmu_def)

text \<open>C18: On a self-mapped page directory, vmm_get_phys_addr, which reads the page tables through
  the recursive mapping, returns what the two-level walk of the processor yields, and 0 where
  it faults.\<close>

theorem vmm_translate:
  assumes "selfmap s"
  shows "vmm_get_phys_addr va s = Some (case mmu s va of None \<Rightarrow> 0 | Some pa \<Rightarrow> pa)"
  using get_phys_addr_mmu [OF assms] .

subsection \<open>Writing one entry\<close>

lemma load32_store32_aligned:
  assumes "unat a mod 4 = 0" "unat b mod 4 = 0" "a \<noteq> b"
  shows "load32 (store32 m a v) b = load32 m b"
proof -
  have "unat a \<noteq> unat b" using assms(3) by (simp add: word_unat_eq_iff)
  then have "unat b + 4 \<le> unat a \<or> unat a + 4 \<le> unat b" using assms(1,2) by presburger
  moreover have "x mod 4 = 0 \<Longrightarrow> x < 4294967296 \<Longrightarrow> x + 4 \<le> 4294967296" for x :: nat by presburger
  ultimately have "load32 (store32 m (word_of_nat (unat a)) v) (word_of_nat (unat b)) = load32 m (word_of_nat (unat b))"
    using assms unat_u32_bound by (intro load32_store32_other) auto
  then show ?thesis by simp
qed

lemma entry_addr_aligned:
  assumes "unat i < 1024"
  shows "unat (frame_base e + 4 * i) = unat (frame_base e) + 4 * unat i"
    "unat (frame_base e + 4 * i) mod 4 = 0"
proof -
  have i: "unat (4 * i) = 4 * unat i" using assms by (simp add: unat_word_ariths)
  then show n: "unat (frame_base e + 4 * i) = unat (frame_base e) + 4 * unat i"
    using assms frame_base_aligned(2) [of e] by (subst unat_add_u32) simp_all
  have "unat (frame_base e) mod 4096 mod 4 = 0" using frame_base_aligned(1) [of e] by simp
  then have "unat (frame_base e) mod 4 = 0" by (simp add: mod_mod_cancel)
  then show "unat (frame_base e + 4 * i) mod 4 = 0" unfolding n by presburger
qed

text \<open>
  \<open>unshared s va\<close>: the entry of \<open>va\<close> is not an entry of the directory, and no other page is
  mapped through it.
\<close>

definition unshared :: "'a vmm_state_scheme \<Rightarrow> u32 \<Rightarrow> bool" where
  "unshared s va \<longleftrightarrow>
     (\<forall>va'. pde_addr s va' \<noteq> pte_addr s va) \<and>
     (\<forall>va'. drop_bit 12 va' \<noteq> drop_bit 12 va \<longrightarrow> present (pde s va') \<longrightarrow> pte_addr s va' \<noteq> pte_addr s va)"

definition write_entry :: "u32 \<Rightarrow> u32 \<Rightarrow> 'a vmm_state_scheme \<Rightarrow> 'a vmm_state_scheme" where
  "write_entry va w s = invalidate_page va (s\<lparr>phys := store32 (phys s) (pte_addr s va) w\<rparr>)"

lemma write_entry_pde:
  assumes "unshared s va"
  shows "pde (write_entry va w s) va' = pde s va'" "pte_addr (write_entry va w s) va' = pte_addr s va'"
    "pde_addr (write_entry va w s) va' = pde_addr s va'"
proof -
  have al: "unat (pde_addr s va') mod 4 = 0" "unat (pte_addr s va) mod 4 = 0"
    unfolding pde_addr_def pte_addr_def by (rule entry_addr_aligned(2) index_bounds)+
  have ne: "pte_addr s va \<noteq> pde_addr s va'" using assms unfolding unshared_def by metis
  show pa: "pde_addr (write_entry va w s) va' = pde_addr s va'"
    by (simp add: pde_addr_def write_entry_def invalidate_page_def)
  have "phys (write_entry va w s) = store32 (phys s) (pte_addr s va) w"
    by (simp add: write_entry_def invalidate_page_def)
  then show pd: "pde (write_entry va w s) va' = pde s va'"
    using load32_store32_aligned [OF al(2,1) ne] unfolding pde_def pa by simp
  show "pte_addr (write_entry va w s) va' = pte_addr s va'"
    unfolding pte_addr_def pd ..
qed

lemma write_entry_pte:
  assumes "unshared s va"
  shows "pte (write_entry va w s) va = decode_pte w"
    "drop_bit 12 va' \<noteq> drop_bit 12 va \<Longrightarrow> present (pde s va') \<Longrightarrow> pte (write_entry va w s) va' = pte s va'"
proof -
  have ph: "phys (write_entry va w s) = store32 (phys s) (pte_addr s va) w"
    by (simp add: write_entry_def invalidate_page_def)
  show "pte (write_entry va w s) va = decode_pte w"
    unfolding pte_def write_entry_pde(2) [OF assms] ph by simp
  assume "drop_bit 12 va' \<noteq> drop_bit 12 va" "present (pde s va')"
  then have ne: "pte_addr s va \<noteq> pte_addr s va'" using assms unfolding unshared_def by metis
  have al: "unat (pte_addr s va') mod 4 = 0" "unat (pte_addr s va) mod 4 = 0"
    unfolding pte_addr_def by (rule entry_addr_aligned(2) index_bounds)+
  show "pte (write_entry va w s) va' = pte s va'"
    unfolding pte_def write_entry_pde(2) [OF assms] ph load32_store32_aligned [OF al(2,1) ne] ..
qed

lemma write_entry_mmu:
  assumes "unshared s va"
  shows "drop_bit 12 va' \<noteq> drop_bit 12 va \<Longrightarrow> mmu (write_entry va w s) va' = mmu s va'"
    "present (pde s va) \<Longrightarrow> mmu (write_entry va w s) va =
       (if present (decode_pte w) then Some (frame_base (decode_pte w) + (va AND 0xFFF)) else None)"
  using write_entry_pde(1) [OF assms] write_entry_pte [OF assms] by (auto simp: mmu_def)

lemma write_entry_same_page:
  assumes "drop_bit 12 va' = drop_bit 12 va"
  shows "dir_index va' = dir_index va" "tbl_index va' = tbl_index va"
    "pde s va' = pde s va" "pte s va' = pte s va" "pte_addr s va' = pte_addr s va"
proof -
  have "drop_bit 10 (drop_bit 12 va') = drop_bit 10 (drop_bit 12 va)" using assms by simp
  then show d: "dir_index va' = dir_index va" by (simp add: dir_index_def drop_bit_drop_bit)
  show t: "tbl_index va' = tbl_index va" using assms by (simp add: tbl_index_def)
  show p: "pde s va' = pde s va" by (simp add: pde_def pde_addr_def d)
  show "pte_addr s va' = pte_addr s va" by (simp add: pte_addr_def p t)
  then show "pte s va' = pte s va" by (simp add: pte_def)
qed

lemma unshared_selfmap:
  assumes "unshared s va" "selfmap s"
  shows "selfmap (write_entry va w s)"
proof -
  have addr: "dir_base s + 4 * 769 = pde_addr s PAGE_TABLES_VIRTUAL_ADDR"
  proof -
    have "dir_index PAGE_TABLES_VIRTUAL_ADDR = 769" by code_simp
    then show ?thesis by (simp only: pde_addr_def dir_base_def)
  qed
  then have "self_pde s = pde s PAGE_TABLES_VIRTUAL_ADDR"
    unfolding self_pde_def pde_def by simp
  moreover have "self_pde (write_entry va w s) = pde (write_entry va w s) PAGE_TABLES_VIRTUAL_ADDR"
    using addr write_entry_pde(3) [OF assms(1), of w PAGE_TABLES_VIRTUAL_ADDR]
    unfolding self_pde_def pde_def by (simp add: dir_base_def write_entry_def invalidate_page_def)
  moreover have "dir_base (write_entry va w s) = dir_base s"
    by (simp add: dir_base_def write_entry_def invalidate_page_def)
  ultimately show ?thesis
    using assms(2) write_entry_pde(1) [OF assms(1)] by (simp add: selfmap_def)
qed

text \<open>The cached translations are those of the page tables.\<close>

definition tlb_coherent :: "'a vmm_state_scheme \<Rightarrow> bool" where
  "tlb_coherent s \<longleftrightarrow> (\<forall>va f. tlb s (drop_bit 12 va) = Some f \<longrightarrow> mmu s va = Some (f + (va AND 0xFFF)))"

lemma write_entry_coherent:
  assumes "unshared s va" "tlb_coherent s"
  shows "tlb_coherent (write_entry va w s)"
  unfolding tlb_coherent_def
proof (intro allI impI)
  fix va' f assume "tlb (write_entry va w s) (drop_bit 12 va') = Some f"
  then have ne: "drop_bit 12 va' \<noteq> drop_bit 12 va" and "tlb s (drop_bit 12 va') = Some f"
    by (simp_all add: write_entry_def invalidate_page_def split: if_splits)
  then show "mmu (write_entry va w s) va' = Some (f + (va' AND 0xFFF))"
    using assms(2) write_entry_mmu(1) [OF assms(1) ne] by (simp add: tlb_coherent_def)
qed

lemma flag_bit: "flags AND push_bit n 1 \<noteq> 0 \<longleftrightarrow> bit (flags :: u32) n"
  by (simp add: and_exp_eq_0_iff_not_bit)

lemma set_entry_flags [simp]:
  "present (set_entry pa flags e) \<longleftrightarrow> bit flags 0" "rw (set_entry pa flags e) \<longleftrightarrow> bit flags 1"
  "user (set_entry pa flags e) \<longleftrightarrow> bit flags 2"
  unfolding set_entry_def PAGE_PRESENT_def PAGE_RW_def PAGE_USER_def flag_bit by simp_all

text \<open>C7: On a self-mapped page directory, vmm_map_page succeeds for an address whose page table
  is present and not shared: afterwards the processor translates the address to the requested
  frame with the requested rights, translates every other page as before, and neither the
  self-map nor the coherence of the TLB is lost.\<close>

theorem vmm_map_page_correct:
  assumes "selfmap s" "present (pde s va)" "unshared s va" "tlb_coherent s"
  shows "\<exists>s'. vmm_map_page va pa flags s = Some (True, s') \<and>
    mmu s' va = (if bit flags 0 then Some (push_bit 12 (drop_bit 12 pa) + (va AND 0xFFF)) else None) \<and>
    rw (pte s' va) = bit flags 1 \<and> user (pte s' va) = bit flags 2 \<and>
    (\<forall>va'. drop_bit 12 va' \<noteq> drop_bit 12 va \<longrightarrow> mmu s' va' = mmu s va') \<and>
    selfmap s' \<and> tlb_coherent s'"
proof -
  define w where "w = encode_pte (set_entry pa flags (pte s va))"
  have "vmm_map_page va pa flags s = Some (True, write_entry va w s)"
    using assms(2) by (simp add: vmm_map_page_eq [OF assms(1)] write_entry_def w_def)
  moreover have "mmu (write_entry va w s) va =
      (if bit flags 0 then Some (push_bit 12 (drop_bit 12 pa) + (va AND 0xFFF)) else None)"
    using write_entry_mmu(2) [OF assms(3,2), of w] by (simp add: w_def)
  moreover have "rw (pte (write_entry va w s) va) = bit flags 1" "user (pte (write_entry va w s) va) = bit flags 2"
    using write_entry_pte(1) [OF assms(3), of w] by (simp_all add: w_def)
  ultimately show ?thesis
    using write_entry_mmu(1) [OF assms(3)] unshared_selfmap [OF assms(3,1)]
      write_entry_coherent [OF assms(3,4)] by blast
qed


subsection \<open>The page tables the boot loader builds\<close>

text \<open>
  \<open>setup_page\<close> of \<open>boot/loader.S\<close>: directory entries 0 and 768 share the table at \<open>0x100000\<close>,
  entry 769 is the directory itself, and entries 770 to 1023 have the tables from \<open>0x102000\<close> on.
\<close>

definition zero_page :: "u32 \<Rightarrow> ram \<Rightarrow> ram" where
  "zero_page p m = (\<lambda>a. if p \<le> a \<and> a < p + 4096 then 0 else m a)"

definition setup_page :: "ram \<Rightarrow> ram" where
  "setup_page m =
     (let m = zero_page 0x101000 m;
          m = store32 m (0x101000 + 0) (0x100000 OR 7);
          m = store32 m (0x101000 + 768 * 4) (0x100000 OR 7);
          m = store32 m (0x101000 + 769 * 4) (0x101000 OR 7);
          m = fold (\<lambda>k m. store32 m (0x101000 + 770 * 4 + 4 * of_nat k) ((0x102000 OR 7) + 4096 * of_nat k))
                [0..<254] m
      in fold (\<lambda>k m. store32 m (0x100000 + 4 * of_nat k) ((0 OR 7) + 4096 * of_nat k)) [0..<256] m)"

text \<open>The table of directory entry \<open>i\<close>, as a page number.\<close>

definition boot_table :: "nat \<Rightarrow> nat option" where
  "boot_table i = (if i = 0 \<or> i = 768 then Some 0x100 else if i = 769 then Some 0x101
     else if 770 \<le> i \<and> i < 1024 then Some (0x102 + (i - 770)) else None)"

definition kernel_layout :: "'a vmm_state_scheme \<Rightarrow> bool" where
  "kernel_layout s \<longleftrightarrow> dir_base s = KERNEL_PAGE_DIR_PHY \<and>
     (\<forall>i < 1024. let e = decode_pte (load32 (phys s) (KERNEL_PAGE_DIR_PHY + 4 * of_nat i))
        in case boot_table i of None \<Rightarrow> \<not> present e | Some f \<Rightarrow> present e \<and> unat (frame_base e) = f * 4096)"

lemma layout_pde:
  assumes "kernel_layout s"
  shows "case boot_table (unat (dir_index va)) of None \<Rightarrow> \<not> present (pde s va)
     | Some f \<Rightarrow> present (pde s va) \<and> unat (pte_addr s va) = f * 4096 + 4 * unat (tbl_index va)"
    and "unat (pde_addr s va) = 0x101000 + 4 * unat (dir_index va)"
proof -
  have d: "unat (dir_index va) < 1024" by (rule index_bounds)
  have dir: "frame_base (decode_pte (cr3 s)) = 0x101000"
    using assms by (simp add: kernel_layout_def dir_base_def)
  show "unat (pde_addr s va) = 0x101000 + 4 * unat (dir_index va)"
    using entry_addr_aligned(1) [OF d, of "decode_pte (cr3 s)"] by (simp add: pde_addr_def dir)
  have "pde s va = decode_pte (load32 (phys s) (KERNEL_PAGE_DIR_PHY + 4 * word_of_nat (unat (dir_index va))))"
    by (simp add: pde_def pde_addr_def dir)
  moreover have "unat (pte_addr s va) = unat (frame_base (pde s va)) + 4 * unat (tbl_index va)"
    unfolding pte_addr_def by (rule entry_addr_aligned(1)) (rule index_bounds)
  ultimately show "case boot_table (unat (dir_index va)) of None \<Rightarrow> \<not> present (pde s va)
     | Some f \<Rightarrow> present (pde s va) \<and> unat (pte_addr s va) = f * 4096 + 4 * unat (tbl_index va)"
    using assms d by (auto simp: kernel_layout_def Let_def split: option.splits)
qed

lemma layout_selfmap: "kernel_layout s \<Longrightarrow> selfmap s"
proof -
  assume l: "kernel_layout s"
  then have "dir_base s = 0x101000" by (simp add: kernel_layout_def)
  moreover from l have "present (self_pde s) \<and> unat (frame_base (self_pde s)) = 0x101 * 4096"
    unfolding kernel_layout_def Let_def
    by (auto dest!: spec [of _ 769] simp: boot_table_def self_pde_def calculation)
  ultimately show ?thesis by (simp add: selfmap_def word_unat_eq_iff)
qed

lemma boot_table_inj:
  "boot_table i = Some f \<Longrightarrow> boot_table j = Some f \<Longrightarrow> 770 \<le> i \<Longrightarrow> i = j"
  by (auto simp: boot_table_def split: if_splits)

lemma page_of_indices:
  "dir_index va' = dir_index va \<Longrightarrow> tbl_index va' = tbl_index va \<Longrightarrow> drop_bit 12 va' = drop_bit 12 va"
proof -
  assume "dir_index va' = dir_index va" "tbl_index va' = tbl_index va"
  then have "unat va' div 4096 div 1024 = unat va div 4096 div 1024" "unat va' div 4096 mod 1024 = unat va div 4096 mod 1024"
    using unat_indices [of va] unat_indices [of va'] by simp_all
  then have "unat va' div 4096 = unat va div 4096" by (metis div_mult_mod_eq)
  then show ?thesis by (simp add: word_unat_eq_iff drop_bit_eq_div unat_div)
qed

lemma layout_unshared:
  assumes "kernel_layout s" "KERNEL_LOAD_VIRTUAL_ADDR \<le> va"
  shows "present (pde s va) \<and> unshared s va"
proof -
  have "3229614080 \<le> unat va" using assms(2) by (simp add: word_le_nat_alt)
  then have d: "770 \<le> unat (dir_index va)" by (simp add: unat_indices)
  define f where "f = 0x102 + (unat (dir_index va) - 770)"
  have bt: "boot_table (unat (dir_index va)) = Some f"
    using d index_bounds(1) [of va] by (simp add: boot_table_def f_def)
  have p: "present (pde s va)" "unat (pte_addr s va) = f * 4096 + 4 * unat (tbl_index va)"
    using layout_pde(1) [OF assms(1), of va] bt by simp_all
  have "pde_addr s va' \<noteq> pte_addr s va" for va'
    using layout_pde(2) [OF assms(1), of va'] p(2) index_bounds(1) [of va']
    by (auto simp: word_unat_eq_iff f_def)
  moreover have "pte_addr s va' \<noteq> pte_addr s va"
    if ne: "drop_bit 12 va' \<noteq> drop_bit 12 va" and pr: "present (pde s va')" for va'
  proof
    assume eq: "pte_addr s va' = pte_addr s va"
    obtain f' where f': "boot_table (unat (dir_index va')) = Some f'"
      "unat (pte_addr s va') = f' * 4096 + 4 * unat (tbl_index va')"
      using layout_pde(1) [OF assms(1), of va'] pr by (auto split: option.splits)
    have r: "4 * unat (tbl_index va) < 4096" "4 * unat (tbl_index va') < 4096"
      using index_bounds(2) by simp_all
    have sum: "f' * 4096 + 4 * unat (tbl_index va') = f * 4096 + 4 * unat (tbl_index va)"
      using eq f'(2) p(2) by simp
    then have "f' = f" using page_split(1) [OF r(1), of f] page_split(1) [OF r(2), of f'] by simp
    with sum have "tbl_index va' = tbl_index va" by (simp add: word_unat_eq_iff)
    moreover have "dir_index va' = dir_index va"
      using boot_table_inj [OF bt _ d] f'(1) \<open>f' = f\<close> by (simp add: word_unat_eq_iff)
    ultimately show False using ne page_of_indices by blast
  qed
  ultimately show ?thesis using p(1) by (auto simp: unshared_def)
qed

lemma layout_write_entry:
  assumes "kernel_layout s" "unshared s va"
  shows "kernel_layout (write_entry va w s)"
proof -
  have dir: "dir_base s = 0x101000" "dir_base (write_entry va w s) = 0x101000"
    using assms(1) by (simp_all add: kernel_layout_def dir_base_def write_entry_def invalidate_page_def)
  have "load32 (phys (write_entry va w s)) (KERNEL_PAGE_DIR_PHY + 4 * word_of_nat i)
      = load32 (phys s) (KERNEL_PAGE_DIR_PHY + 4 * word_of_nat i)" if "i < 1024" for i
  proof -
    define va' :: u32 where "va' = word_of_nat (i * 4194304)"
    have "unat va' = i * 4194304" unfolding va'_def by (rule unat_of_nat_u32) (use that in simp)
    then have "unat (dir_index va') = i" by (simp add: unat_indices)
    then have "dir_index va' = word_of_nat i" 
      by (subst word_unat_eq_iff) (use that in \<open>simp add: unat_of_nat_u32\<close>)
    then have addr: "pde_addr s va' = KERNEL_PAGE_DIR_PHY + 4 * word_of_nat i"
      using dir(1) by (simp add: pde_addr_def dir_base_def)
    have al: "unat (pde_addr s va') mod 4 = 0" "unat (pte_addr s va) mod 4 = 0"
      unfolding pde_addr_def pte_addr_def by (rule entry_addr_aligned(2) index_bounds)+
    have "pte_addr s va \<noteq> pde_addr s va'" using assms(2) unfolding unshared_def by metis
    from load32_store32_aligned [OF al(2,1) this] show ?thesis
      unfolding addr by (simp add: write_entry_def invalidate_page_def)
  qed
  then show ?thesis using assms(1) dir by (simp add: kernel_layout_def)
qed

lemma load32_fold_store:
  assumes "unat base mod 4 = 0" "unat base + 4 * n \<le> 4294967296" "unat b mod 4 = 0"
  shows "load32 (fold (\<lambda>k m. store32 m (base + 4 * word_of_nat k) (v k)) [0..<n] m) b =
    (if unat base \<le> unat b \<and> unat b < unat base + 4 * n then v ((unat b - unat base) div 4) else load32 m b)"
  using assms(2)
proof (induction n)
  case (Suc n)
  have "unat (4 * word_of_nat n :: u32) = 4 * n"
    using Suc.prems by (simp add: unat_word_ariths unat_of_nat_u32)
  then have a: "unat (base + 4 * word_of_nat n) = unat base + 4 * n"
    using Suc.prems by (subst unat_add_u32) simp_all
  then have al: "unat (base + 4 * word_of_nat n) mod 4 = 0" using assms(1) by presburger
  show ?case
  proof (cases "b = base + 4 * word_of_nat n")
    case True
    then show ?thesis using a by simp
  next
    case False
    then have ne: "unat b \<noteq> unat base + 4 * n" using a by (auto simp: word_unat_eq_iff)
    have "load32 (fold (\<lambda>k m. store32 m (base + 4 * word_of_nat k) (v k)) [0..<Suc n] m) b =
        load32 (fold (\<lambda>k m. store32 m (base + 4 * word_of_nat k) (v k)) [0..<n] m) b"
      using load32_store32_aligned [OF al assms(3)] False by simp
    moreover have "unat b < unat base + 4 * Suc n \<longleftrightarrow> unat b < unat base + 4 * n \<or> unat b = unat base + 4 * n"
      if "unat base \<le> unat b" using that assms(1,3) by presburger
    ultimately show ?thesis using Suc ne by auto
  qed
qed auto

lemma load32_zero_page:
  assumes "unat p + 4096 \<le> 4294967296 - 4096" "unat p \<le> unat b" "unat b + 4 \<le> unat p + 4096"
  shows "load32 (zero_page p m) b = 0"
proof -
  have p: "unat (p + 4096) = unat p + 4096" using assms(1) by (subst unat_add_u32) simp_all
  have "zero_page p m (b + k) = 0" if "unat k < 4" for k
  proof -
    have "unat (b + k) = unat b + unat k" using that assms by (intro unat_add_u32) simp
    then show ?thesis using that assms p by (simp add: zero_page_def word_le_nat_alt word_less_nat_alt)
  qed
  from this [of 0] this [of 1] this [of 2] this [of 3] show ?thesis by (simp add: load32_def)
qed

lemma decode_base: "unat (frame_base (decode_pte w)) = unat w div 4096 * 4096"
proof -
  have "unat (ucast (frame_addr (decode_pte w)) :: u32) = unat w div 4096"
  proof -
    have "unat w div 4096 < 1048576" using unat_u32_bound [of w] by simp
    then show ?thesis
      by (simp add: decode_pte_def unsigned_ucast_eq drop_bit_eq_div unat_div take_bit_nat_eq_self
          unsigned_take_bit_eq)
  qed
  moreover have "unat w div 4096 * 4096 < 4294967296" using unat_u32_bound [of w] by simp
  ultimately show ?thesis by (simp add: frame_base_def push_bit_eq_mult unat_word_ariths)
qed

lemma decode_present: "present (decode_pte w) \<longleftrightarrow> odd (unat w)"
  using bit_unsigned_iff [of w 0, where 'a = nat] by (simp add: decode_pte_def bit_0)

lemma entry_word: "i < 254 \<Longrightarrow> unat (0x102007 + 4096 * word_of_nat i :: u32) = 1056775 + 4096 * i"
proof -
  assume i: "i < 254"
  then have "unat (4096 * word_of_nat i :: u32) = 4096 * i" by (simp add: unat_word_ariths unat_of_nat_u32)
  then show ?thesis using i by (subst unat_add_u32) simp_all
qed

lemma setup_page_kernel_layout:
  assumes "phys s = setup_page m" "dir_base s = KERNEL_PAGE_DIR_PHY"
  shows "kernel_layout s"
proof -
  have entry: "load32 (setup_page m) (0x101000 + 4 * word_of_nat i) =
      (if 770 \<le> i then 0x102007 + 4096 * word_of_nat (i - 770) else if i = 769 then 0x101007
       else if i = 768 \<or> i = 0 then 0x100007 else 0)" if i: "i < 1024" for i
  proof -
    define b :: u32 where "b = 0x101000 + 4 * word_of_nat i"
    have "unat (4 * word_of_nat i :: u32) = 4 * i" using i by (simp add: unat_word_ariths unat_of_nat_u32)
    then have b: "unat b = 1052672 + 4 * i" using i unfolding b_def by (subst unat_add_u32) simp_all
    then have al: "unat b mod 4 = 0" by presburger
    have ne: "b = 0x101000 + 0 \<longleftrightarrow> i = 0" "b = 0x101000 + 768 * 4 \<longleftrightarrow> i = 768" "b = 0x101000 + 769 * 4 \<longleftrightarrow> i = 769"
      using b by (auto simp: word_unat_eq_iff)
    have z: "load32 (zero_page 0x101000 m) b = 0" using b i by (intro load32_zero_page) simp_all
    have st: "load32 (store32 m' a v) b = (if b = a then v else load32 m' b)" if "unat a mod 4 = 0" for m' a v
      using load32_store32_aligned [OF that al] by auto
    have vals: "(0x101000 + 770 * 4 :: u32) = 0x101C08" "(0x102000 OR 7 :: u32) = 0x102007" by simp_all
    have idx: "1055752 \<le> unat b \<and> unat b < 1055752 + 4 * 254 \<longleftrightarrow> 770 \<le> i" "(unat b - 1055752) div 4 = i - 770"
      using b i by auto
    have l1: "load32 (fold (\<lambda>k m. store32 m (0x101C08 + 4 * word_of_nat k) (0x102007 + 4096 * word_of_nat k))
          [0..<254] m') b = (if 770 \<le> i then 0x102007 + 4096 * word_of_nat (i - 770) else load32 m' b)" for m'
    proof -
      have "unat (0x101C08 :: u32) = 1055752" by simp
      then show ?thesis
        using load32_fold_store [of "0x101C08" 254 b "\<lambda>k. 0x102007 + 4096 * word_of_nat k" m'] al
        by (simp only: idx) simp
    qed
    have l2: "load32 (fold (\<lambda>k m. store32 m (0x100000 + 4 * word_of_nat k) ((0 OR 7) + 4096 * word_of_nat k)) [0..<256] m') b
        = load32 m' b" for m'
    proof -
      have "unat (0x100000 :: u32) = 1048576" "\<not> unat b < 1048576 + 4 * 256" using b by simp_all
      then show ?thesis
        using load32_fold_store [of "0x100000" 256 b "\<lambda>k. (0 OR 7) + 4096 * word_of_nat k" m'] al by simp
    qed
    show ?thesis
      unfolding setup_page_def Let_def b_def [symmetric] l2 vals l1
      using i z ne by (simp add: st)
  qed
  show ?thesis
    unfolding kernel_layout_def
  proof (intro conjI allI impI)
    fix i assume i: "i < (1024 :: nat)"
    define w where "w = load32 (setup_page m) (0x101000 + 4 * word_of_nat i)"
    have "let e = decode_pte w in case boot_table i of None \<Rightarrow> \<not> present e
       | Some f \<Rightarrow> present e \<and> unat (frame_base e) = f * 4096"
      using entry_word [of "i - 770"] entry [OF i] i unfolding w_def [symmetric] 
      by (auto simp: Let_def boot_table_def decode_present decode_base)
    then show "let e = decode_pte (load32 (phys s) (KERNEL_PAGE_DIR_PHY + 4 * word_of_nat i)) in
       case boot_table i of None \<Rightarrow> \<not> present e | Some f \<Rightarrow> present e \<and> unat (frame_base e) = f * 4096"
      unfolding w_def assms(1) by simp
  qed (rule assms(2))
qed

theorem setup_page_layout:
  assumes "phys s = setup_page m" "dir_base s = KERNEL_PAGE_DIR_PHY" "KERNEL_LOAD_VIRTUAL_ADDR \<le> va"
  shows "kernel_layout s \<and> selfmap s \<and> present (pde s va) \<and> unshared s va"
  using setup_page_kernel_layout [OF assms(1,2)] layout_selfmap layout_unshared [OF _ assms(3)] by blast

subsection \<open>Demand paging\<close>

lemma pmm_alloc_page_frame:
  "pmm_alloc_page s = (a, s') \<Longrightarrow>
   \<exists>b f l. s' = s\<lparr>pmm_bitmap := b, pmm_free_pages := f, pmm_last_alloc_index := l\<rparr>"
proof -
  assume a: "pmm_alloc_page s = (a, s')"
  have same: "\<exists>b f l. s = s\<lparr>pmm_bitmap := b, pmm_free_pages := f, pmm_last_alloc_index := l\<rparr>"
    by (intro exI [of _ "pmm_bitmap s"] exI [of _ "pmm_free_pages s"] exI [of _ "pmm_last_alloc_index s"]) simp
  show ?thesis
    using a same
    by (auto simp: pmm_alloc_page_def Let_def pmm_set_bit_def split: if_splits option.splits)
qed

lemma vmm_alloc_frame:
  assumes "pmm_alloc_page s = (a, s')"
  shows "phys s' = phys s" "cr3 s' = cr3 s" "tlb s' = tlb s" "mmu s' = mmu s" "kernel_layout s' = kernel_layout s"
    "tlb_coherent s' = tlb_coherent s"
proof -
  obtain b f l where s': "s' = s\<lparr>pmm_bitmap := b, pmm_free_pages := f, pmm_last_alloc_index := l\<rparr>"
    using pmm_alloc_page_frame [OF assms] by blast
  then show f: "phys s' = phys s" "cr3 s' = cr3 s" "tlb s' = tlb s" by simp_all
  then show "kernel_layout s' = kernel_layout s" by (simp add: kernel_layout_def dir_base_def)
  have "mmu s' va = mmu s va" for va
    using f by (simp add: mmu_def pte_def pte_addr_def pde_def pde_addr_def)
  then show m: "mmu s' = mmu s" by (rule ext)
  then show "tlb_coherent s' = tlb_coherent s" using f by (simp add: tlb_coherent_def)
qed

lemma pmm_write_entry [simp]:
  "pmm_ok (write_entry va w s) = pmm_ok s" "pmm_avail (write_entry va w s) = pmm_avail s"
  by (simp_all add: write_entry_def invalidate_page_def pmm_ok_def counted_def free_set_def pmm_avail_def
      allocatable_def used_def)

lemma page_align_down: "drop_bit 12 (PAGE_ALIGN_DOWN va) = drop_bit 12 va" "PAGE_ALIGN_DOWN va AND 0xFFF = 0"
proof -
  have m: "(4096 - 1 :: u32) = mask 12" "(0xFFF :: u32) = mask 12" by (simp_all add: mask_eq_exp_minus_1)
  show "drop_bit 12 (PAGE_ALIGN_DOWN va) = drop_bit 12 va"
  proof (rule bit_word_eqI)
    fix n assume "n < LENGTH(32)"
    then show "bit (drop_bit 12 (PAGE_ALIGN_DOWN va)) n \<longleftrightarrow> bit (drop_bit 12 va) n"
      unfolding PAGE_ALIGN_DOWN_def m using bit_imp_le_length [of va "12 + n"] by (auto simp: bit_simps)
  qed
  show "PAGE_ALIGN_DOWN va AND 0xFFF = 0"
    unfolding PAGE_ALIGN_DOWN_def m by (auto simp: bit_simps intro!: bit_word_eqI)
qed

lemma page_align_down_kernel:
  assumes "KERNEL_LOAD_VIRTUAL_ADDR \<le> va"
  shows "KERNEL_LOAD_VIRTUAL_ADDR \<le> PAGE_ALIGN_DOWN va"
proof -
  define v where "v = PAGE_ALIGN_DOWN va"
  have "unat (drop_bit 12 v) = unat (drop_bit 12 va)" by (simp add: v_def page_align_down)
  then have "unat v div 4096 = unat va div 4096"
    by (simp only: unat_drop_bit_eq) (simp only: drop_bit_eq_div, simp)
  moreover have "3229614080 \<le> unat va" using assms by (simp add: word_le_nat_alt)
  ultimately have "788480 \<le> unat v div 4096" using div_le_mono [of 3229614080 "unat va" 4096] by simp
  then have "3229614080 \<le> unat v" by (simp add: less_eq_div_iff_mult_less_eq)
  then show ?thesis by (simp add: word_le_nat_alt v_def)
qed

lemma frame_base_set_page:
  assumes "unat a = p * 4096"
  shows "frame_base (decode_pte (encode_pte (set_entry a fl e))) = of_nat (p * 4096)"
proof -
  have "unat (frame_base (decode_pte (encode_pte (set_entry a fl e)))) = p * 4096"
    using decode_base [of a] assms by (simp add: decode_encode frame_base_set frame_base_decode)
  moreover have "unat (word_of_nat (p * 4096) :: u32) = p * 4096"
    using unat_u32_bound [of a] assms by (intro unat_of_nat_u32) simp
  ultimately show ?thesis unfolding word_unat_eq_iff by (simp only:)
qed

text \<open>The page tables are in the low 2 MiB, which the pool does not contain.\<close>

lemma layout_pte_low:
  assumes "kernel_layout s" "present (pde s va)"
  shows "unat (pte_addr s va) + 4 \<le> 0x200000"
proof -
  obtain f where f: "boot_table (unat (dir_index va)) = Some f" "unat (pte_addr s va) = f * 4096 + 4 * unat (tbl_index va)"
    using layout_pde(1) [OF assms(1), of va] assms(2) by (auto split: option.splits)
  have "f < 512" using f(1) by (auto simp: boot_table_def split: if_splits)
  then show ?thesis using f(2) index_bounds(2) [of va] by linarith
qed

lemma store32_elsewhere:
  assumes "unat a + 4 \<le> b" "b \<le> unat pa"
  shows "store32 m a v pa = m pa"
proof -
  have "unat (a + 1) = unat a + 1" "unat (a + 2) = unat a + 2" "unat (a + 3) = unat a + 3"
    using assms unat_u32_bound [of pa] by (simp_all add: unat_add_u32)
  then have "pa \<noteq> a" "pa \<noteq> a + 1" "pa \<noteq> a + 2" "pa \<noteq> a + 3" using assms by auto
  then show ?thesis by (simp add: store32_def)
qed

lemma page_fault_maps:
  assumes "kernel_layout s" "tlb_coherent s" "pmm_ok s" "KERNEL_LOAD_VIRTUAL_ADDR \<le> cr2 s" "pmm_avail s \<noteq> {}"
  shows "\<exists>s' p. vmm_page_fault_handler frame s = Some (Inr s') \<and> p \<in> pmm_avail s \<and>
    mmu s' (cr2 s) = Some (of_nat (p * 4096) + (cr2 s AND 0xFFF)) \<and>
    (\<forall>va. drop_bit 12 va \<noteq> drop_bit 12 (cr2 s) \<longrightarrow> mmu s' va = mmu s va) \<and>
    pmm_avail s' = pmm_avail s - {p} \<and> pmm_ok s' \<and> kernel_layout s' \<and> tlb_coherent s' \<and>
    (\<forall>pa. 0x200000 \<le> unat pa \<longrightarrow> phys s' pa = phys s pa)"
proof -
  define va where "va = PAGE_ALIGN_DOWN (cr2 s)"
  obtain a s1 where a: "pmm_alloc_page s = (a, s1)" by fastforce
  have nz: "a \<noteq> 0" using frames.alloc_succeeds [OF assms(3,5)] a by simp
  from frames.alloc_frame [OF assms(3) a nz] obtain p where
    p: "pmm_ok s1" "p \<in> pmm_avail s" "unat a = p * 4096" "pmm_avail s1 = pmm_avail s - {p}" by auto
  note fr = vmm_alloc_frame [OF a]
  have l1: "kernel_layout s1" using assms(1) fr by simp
  have "KERNEL_LOAD_VIRTUAL_ADDR \<le> va" using page_align_down_kernel [OF assms(4)] by (simp add: va_def)
  from layout_unshared [OF l1 this] have pu: "present (pde s1 va)" "unshared s1 va" by simp_all
  define w where "w = encode_pte (set_entry a PAGE_KERNEL_FLAGS (pte s1 va))"
  have map: "vmm_map_page va a PAGE_KERNEL_FLAGS s1 = Some (True, write_entry va w s1)"
    using pu(1) by (simp add: vmm_map_page_eq [OF layout_selfmap [OF l1]] write_entry_def w_def)
  then have handler: "vmm_page_fault_handler frame s = Some (Inr (write_entry va w s1))"
    using assms(4) a nz by (simp add: vmm_page_fault_handler_def vmm_alloc_and_map_page_def Let_def va_def [symmetric] not_less)
  have pg: "drop_bit 12 (cr2 s) = drop_bit 12 va" by (simp add: va_def page_align_down)
  have k: "bit PAGE_KERNEL_FLAGS 0" by code_simp
  have base: "frame_base (decode_pte w) = of_nat (p * 4096)"
    unfolding w_def by (rule frame_base_set_page [OF p(3)])
  have "mmu (write_entry va w s1) (cr2 s) = Some (of_nat (p * 4096) + (cr2 s AND 0xFFF))"
    using write_entry_same_page(3,4) [OF pg, of "write_entry va w s1"] k base
      write_entry_pde(1) [OF pu(2), of w va] write_entry_pte(1) [OF pu(2), of w] pu(1)
    by (simp add: mmu_def w_def)
  moreover have "mmu (write_entry va w s1) va' = mmu s va'" if "drop_bit 12 va' \<noteq> drop_bit 12 (cr2 s)" for va'
    using write_entry_mmu(1) [OF pu(2)] that fr(4) pg by simp
  moreover have "tlb_coherent (write_entry va w s1)"
    using write_entry_coherent [OF pu(2)] fr(6) assms(2) by simp
  moreover have "phys (write_entry va w s1) pa = phys s pa" if "0x200000 \<le> unat pa" for pa
    using store32_elsewhere [OF layout_pte_low [OF l1 pu(1)] that] fr(1)
    by (simp add: write_entry_def invalidate_page_def)
  ultimately show ?thesis
    using handler p layout_write_entry [OF l1 pu(2)]
    by (intro exI [of _ "write_entry va w s1"] exI [of _ p]) auto
qed

theorem vmm_page_fault_maps:
  assumes "kernel_layout s" "tlb_coherent s" "pmm_ok s" "KERNEL_LOAD_VIRTUAL_ADDR \<le> cr2 s" "pmm_avail s \<noteq> {}"
  shows "\<exists>s' p. vmm_page_fault_handler frame s = Some (Inr s') \<and> p \<in> pmm_avail s \<and>
    mmu s' (cr2 s) = Some (of_nat (p * 4096) + (cr2 s AND 0xFFF)) \<and>
    (\<forall>va. drop_bit 12 va \<noteq> drop_bit 12 (cr2 s) \<longrightarrow> mmu s' va = mmu s va) \<and>
    pmm_avail s' = pmm_avail s - {p} \<and> pmm_ok s' \<and> kernel_layout s' \<and> tlb_coherent s'"
  using page_fault_maps [OF assms, of frame] by blast

theorem vmm_page_fault_low_panics:
  assumes "cr2 s < KERNEL_LOAD_VIRTUAL_ADDR"
  shows "\<exists>p. vmm_page_fault_handler frame s = Some (Inl p) \<and> \<not> interrupts_enabled p"
proof -
  define s1 where "s1 = printk ''Kernel accessed invalid low memory.'' []
    (printk ''Faulting address: 0x%x\<newline>'' [Word (cr2 s)]
      (printk ''\<newline>!!!!! KERNEL PAGE FAULT (Null Pointer?) !!!!!\<newline>'' [] s))"
  have h: "vmm_page_fault_handler frame s = Some (kernel_panic ''kernel/mem/vmm.c'' ''vmm_page_fault_handler'' 160 s1)"
    using assms by (simp add: vmm_page_fault_handler_def Let_def s1_def)
  obtain p where p: "kernel_panic ''kernel/mem/vmm.c'' ''vmm_page_fault_handler'' 160 s1 = (Inl p :: ('a vmm_state_scheme, 'a vmm_state_scheme) outcome)"
    by (simp add: kernel_panic_def Let_def)
  with h kernel_panic_halted [OF p] show ?thesis by simp
qed

text \<open>An address without a page table: the frame that was taken for it is lost.\<close>

lemma pmm_more_eqD:
  assumes "vga_state.more s' = vga_state.more (s :: 'a pmm_state_scheme)"
  shows "pmm_avail s' = pmm_avail s"
proof -
  have "pmm_bitmap s' = pmm_bitmap s" "pmm_max_ram_page s' = pmm_max_ram_page s"
    using assms by (cases s; cases s'; simp)+
  then show ?thesis by (simp add: pmm_avail_def allocatable_def used_def)
qed

theorem vmm_alloc_and_map_leaks:
  assumes "selfmap s" "pmm_ok s" "pmm_avail s \<noteq> {}" "\<not> present (pde s va)"
  shows "\<exists>s' p. vmm_alloc_and_map_page va flags s = Some (False, s') \<and> p \<in> pmm_avail s \<and>
    pmm_avail s' = pmm_avail s - {p} \<and> mmu s va = None"
proof -
  obtain a s1 where a: "pmm_alloc_page s = (a, s1)" by fastforce
  have nz: "a \<noteq> 0" using frames.alloc_succeeds [OF assms(2,3)] a by simp
  from frames.alloc_frame [OF assms(2) a nz] obtain p where p: "p \<in> pmm_avail s" "pmm_avail s1 = pmm_avail s - {p}"
    by auto
  note fr = vmm_alloc_frame [OF a]
  have "selfmap s1" "\<not> present (pde s1 va)"
    using assms(1,4) fr(1,2) by (simp_all add: selfmap_def self_pde_def dir_base_def pde_def pde_addr_def)
  then have "vmm_map_page va a flags s1 =
      Some (False, printk ''VMM: Failed to map page 0x%x. Page table not present.\<newline>'' [Word va] s1)"
    by (simp add: vmm_map_page_eq)
  then show ?thesis
    using a nz p assms(4)
    by (auto simp: vmm_alloc_and_map_page_def mmu_def pmm_more_eqD [OF printk_simps(8)])
qed

end
