(* ===== verification/Macros.thy ===== *)
theory Macros
  imports Vmm
begin

text \<open>
  The macros of \<open>include/types.h\<close> and \<open>include/vmm.h\<close> that compute, and the 16- and 32-bit ports of
  \<open>include/io.h\<close>. The kernel calls few of them; they are part of what its headers offer.
\<close>

subsection \<open>Bits and alignment\<close>

text \<open>A shift by 32 or more is undefined in C.\<close>

definition BIT :: "nat \<Rightarrow> u32" where
  "BIT n = push_bit n 1"

definition ALIGN_UP :: "u32 \<Rightarrow> u32 \<Rightarrow> u32" where
  "ALIGN_UP x align = (x + (align - 1)) AND NOT (align - 1)"

definition ALIGN_DOWN :: "u32 \<Rightarrow> u32 \<Rightarrow> u32" where
  "ALIGN_DOWN x align = x AND NOT (align - 1)"

definition PAGE_ALIGN_UP :: "u32 \<Rightarrow> u32" where
  "PAGE_ALIGN_UP a = (a + 4096 - 1) AND NOT (4096 - 1)"

definition MIN_macro :: "u32 \<Rightarrow> u32 \<Rightarrow> u32" where
  "MIN_macro a b = (if a < b then a else b)"

definition MAX_macro :: "u32 \<Rightarrow> u32 \<Rightarrow> u32" where
  "MAX_macro a b = (if a > b then a else b)"

definition DIRECT_MAP_BASE :: u32 where "DIRECT_MAP_BASE = 0xC0000000"

definition P2V :: "u32 \<Rightarrow> u32" where
  "P2V paddr = paddr + DIRECT_MAP_BASE"

definition V2P :: "u32 \<Rightarrow> u32" where
  "V2P vaddr = vaddr - DIRECT_MAP_BASE"

lemma direct_map_inverse [simp]: "V2P (P2V a) = a" "P2V (V2P a) = a"
  by (simp_all add: P2V_def V2P_def)

lemma MIN_MAX: "MIN_macro a b = min a b" "MAX_macro a b = max a b"
  by (auto simp: MIN_macro_def MAX_macro_def min_def max_def)

lemma BIT_mask: "BIT k - 1 = mask k"
  by (simp add: BIT_def mask_eq_exp_minus_1 push_bit_eq_mult)

lemma ALIGN_DOWN_nat: "unat (ALIGN_DOWN x (BIT k)) = unat x div 2 ^ k * 2 ^ k"
proof -
  have "ALIGN_DOWN x (BIT k) = push_bit k (drop_bit k x)"
    unfolding ALIGN_DOWN_def BIT_mask by (rule bit_word_eqI) (auto simp: bit_simps)
  then have "unat (ALIGN_DOWN x (BIT k)) = take_bit 32 (push_bit k (drop_bit k (unat x)))"
    by (simp only: unsigned_push_bit_eq unat_drop_bit_eq) simp
  also have "push_bit k (drop_bit k (unat x)) = unat x div 2 ^ k * 2 ^ k"
    by (simp add: push_bit_eq_mult drop_bit_eq_div)
  also have "\<dots> \<le> unat x" by simp
  then have "take_bit 32 (unat x div 2 ^ k * 2 ^ k) = unat x div 2 ^ k * 2 ^ k"
    using unat_u32_bound [of x] by (intro take_bit_nat_eq_self) (erule le_less_trans, simp)
  finally show ?thesis .
qed

text \<open>
  For a power of two, \<open>ALIGN_DOWN\<close> is the last multiple that is not above the address and \<open>ALIGN_UP\<close> the first
  that is not below it, but 0 for an address in the last block of the address space.
\<close>

theorem ALIGN_DOWN_multiple:
  "2 ^ k dvd unat (ALIGN_DOWN x (BIT k)) \<and> unat (ALIGN_DOWN x (BIT k)) \<le> unat x \<and> unat x < unat (ALIGN_DOWN x (BIT k)) + 2 ^ k"
  unfolding ALIGN_DOWN_nat using dividend_less_div_times [of "2 ^ k" "unat x"] by (simp add: add.commute)

theorem ALIGN_UP_multiple:
  assumes "k < 32"
  shows "if unat x + 2 ^ k \<le> 2 ^ 32
    then 2 ^ k dvd unat (ALIGN_UP x (BIT k)) \<and> unat x \<le> unat (ALIGN_UP x (BIT k)) \<and> unat (ALIGN_UP x (BIT k)) < unat x + 2 ^ k
    else ALIGN_UP x (BIT k) = 0"
proof -
  define n :: nat where "n = 2 ^ k"
  have n: "0 < n" "n \<le> 2 ^ 31" using assms power_increasing [of k 31 "2 :: nat"] by (simp_all add: n_def)
  have up: "ALIGN_UP x (BIT k) = ALIGN_DOWN (x + mask k) (BIT k)" by (simp add: ALIGN_UP_def ALIGN_DOWN_def BIT_mask)
  have m: "unat (mask k :: u32) = n - 1"
  proof -
    have "mask k = (word_of_nat (n - 1) :: u32)" by (metis of_nat_mask_eq mask_eq_exp_minus_1 n_def)
    then show ?thesis using n(2) unat_of_nat_u32 [of "n - 1"] by simp
  qed
  show ?thesis
  proof (cases "unat x + n \<le> 2 ^ 32")
    case True
    then have u: "unat (x + mask k) = unat x + (n - 1)" using n(1) m by (subst unat_add_u32) simp_all
    define q where "q = (unat x + (n - 1)) div n * n"
    have "q + (unat x + (n - 1)) mod n = unat x + (n - 1)" unfolding q_def by (rule div_mult_mod_eq)
    moreover have "(unat x + (n - 1)) mod n < n" using n(1) by simp
    ultimately have "unat x \<le> q" "q < unat x + n" using n(1) by linarith+
    moreover have "n dvd q" by (simp add: q_def)
    moreover have "unat (ALIGN_UP x (BIT k)) = q" unfolding up ALIGN_DOWN_nat n_def [symmetric] u q_def ..
    ultimately show ?thesis using True by (simp add: n_def)
  next
    case False
    then have "unat (x + mask k) < n" using m n unat_u32_bound [of x] by (simp add: unat_word_ariths mod_if) linarith
    then have "unat (ALIGN_UP x (BIT k)) = 0" unfolding up ALIGN_DOWN_nat n_def [symmetric] by simp
    with False show ?thesis by (simp add: n_def unsigned_eq_0_iff)
  qed
qed

text \<open>The page macros are the general ones for 4096.\<close>

lemma page_macros: "PAGE_ALIGN_DOWN a = ALIGN_DOWN a (BIT 12)" "PAGE_ALIGN_UP a = ALIGN_UP a (BIT 12)"
  by (simp_all add: PAGE_ALIGN_DOWN_def PAGE_ALIGN_UP_def ALIGN_DOWN_def ALIGN_UP_def BIT_def push_bit_eq_mult add.commute)

subsection \<open>Wide ports\<close>

text \<open>The processor treats two or four consecutive byte ports as one of 16 or 32 bits, the low byte first.\<close>

definition inw :: "u16 \<Rightarrow> 'a machine_scheme \<Rightarrow> u16" where
  "inw port s = ucast (in_port s port) OR push_bit 8 (ucast (in_port s (port + 1)))"

definition outw :: "u16 \<Rightarrow> u16 \<Rightarrow> 'a machine_scheme \<Rightarrow> 'a machine_scheme" where
  "outw port data s = s\<lparr>io_log := io_log s @ [(port, ucast data), (port + 1, ucast (drop_bit 8 data))]\<rparr>"

definition inl :: "u16 \<Rightarrow> 'a machine_scheme \<Rightarrow> u32" where
  "inl port s = ucast (in_port s port) OR push_bit 8 (ucast (in_port s (port + 1)))
     OR push_bit 16 (ucast (in_port s (port + 2))) OR push_bit 24 (ucast (in_port s (port + 3)))"

definition outl :: "u16 \<Rightarrow> u32 \<Rightarrow> 'a machine_scheme \<Rightarrow> 'a machine_scheme" where
  "outl port data s = s\<lparr>io_log := io_log s @ [(port, ucast data), (port + 1, ucast (drop_bit 8 data)),
     (port + 2, ucast (drop_bit 16 data)), (port + 3, ucast (drop_bit 24 data))]\<rparr>"

text \<open>A wide access is that of its halves.\<close>

theorem wide_ports:
  "outw port w s = outb (port + 1) (ucast (drop_bit 8 w)) (outb port (ucast w) s)"
  "outl port d s = outw (port + 2) (ucast (drop_bit 16 d)) (outw port (ucast d) s)"
  "inl port s = ucast (inw port s) OR push_bit 16 (ucast (inw (port + 2) s))"
proof -
  show "outw port w s = outb (port + 1) (ucast (drop_bit 8 w)) (outb port (ucast w) s)" by (simp add: outw_def outb_def)
  have b: "(ucast (ucast d :: u16) :: u8) = ucast d" "(ucast (drop_bit 8 (ucast d :: u16)) :: u8) = ucast (drop_bit 8 d)"
    "(ucast (drop_bit 8 (ucast (drop_bit 16 d) :: u16)) :: u8) = ucast (drop_bit 24 d)" for d :: u32
    by (rule bit_word_eqI, auto simp: bit_simps add.commute)+
  have a: "port + 2 + 1 = port + 3" by simp
  show "outl port d s = outw (port + 2) (ucast (drop_bit 16 d)) (outw port (ucast d) s)"
    by (simp add: outl_def outw_def b a del: ucast_drop_bit_eq)
  show "inl port s = ucast (inw port s) OR push_bit 16 (ucast (inw (port + 2) s))"
    unfolding inl_def inw_def a
  proof (rule bit_word_eqI)
    fix n assume "n < LENGTH(32)"
    have u: "8 \<le> k \<Longrightarrow> \<not> bit (b :: u8) k" for b k using bit_imp_le_length [of b k] by auto
    consider "n < 8" | "8 \<le> n" "n < 16" | "16 \<le> n" "n < 24" | "24 \<le> n" by linarith
    then show "bit (ucast (in_port s port) OR push_bit 8 (ucast (in_port s (port + 1))) OR push_bit 16 (ucast (in_port s (port + 2))) OR
        push_bit 24 (ucast (in_port s (port + 3))) :: u32) n =
      bit (ucast (ucast (in_port s port) OR push_bit 8 (ucast (in_port s (port + 1))) :: u16) OR
        push_bit 16 (ucast (ucast (in_port s (port + 2)) OR push_bit 8 (ucast (in_port s (port + 3))) :: u16)) :: u32) n"
      by cases (use \<open>n < LENGTH(32)\<close> in \<open>auto simp: bit_simps u\<close>)
  qed
qed

end
