(* ===== verification/Boot_sector.thy ===== *)
theory Boot_sector
  imports Boot_info
begin

text \<open>
  The boot sector \<open>08.kernel-mm/boot/mbr.S\<close>: it asks the BIOS for the memory map, loads the sectors of the
  loader and jumps to it. The services of the BIOS that write registers or memory are the record
  \<open>bios\<close>; what their documentation promises are the predicates \<open>e820_service\<close> and \<open>disk_service\<close>. Of the
  video service only the calls are recorded. Segment registers are 0, so that an offset is an address.
\<close>

subsection \<open>The services\<close>

text \<open>
  \<open>int15\<close> takes EAX, EBX, ECX, EDX, DI and memory and returns the carry flag, EAX, EBX and memory; \<open>int13\<close>
  takes AX, BX, CX, DX and memory and returns the carry flag, AX, DX and memory.
\<close>

record bios =
  int15 :: "u32 \<Rightarrow> u32 \<Rightarrow> u32 \<Rightarrow> u32 \<Rightarrow> u16 \<Rightarrow> ram \<Rightarrow> bool \<times> u32 \<times> u32 \<times> ram"
  int13 :: "u16 \<Rightarrow> u16 \<Rightarrow> u16 \<Rightarrow> u16 \<Rightarrow> ram \<Rightarrow> bool \<times> u16 \<times> u16 \<times> ram"

text \<open>AX, BX, CX and DX at a call of the video service.\<close>

type_synonym video_call = "u16 \<times> u16 \<times> u16 \<times> u16"

record real_state =
  rm_mem :: ram
  video_calls :: "video_call list"

definition int10 :: "u16 \<Rightarrow> u16 \<Rightarrow> u16 \<Rightarrow> u16 \<Rightarrow> real_state \<Rightarrow> real_state" where
  "int10 ax bx cx dx s = s\<lparr>video_calls := video_calls s @ [(ax, bx, cx, dx)]\<rparr>"

subsection \<open>The memory map\<close>

definition E820_BUFFER :: u16 where [simp]: "E820_BUFFER = 0x9000"
definition E820_SIGNATURE :: u32 where [simp]: "E820_SIGNATURE = 0x534D4150"

text \<open>The loop \<open>.get_next\<close>; DI has 16 bits.\<close>

partial_function (option) e820_get_next :: "bios \<Rightarrow> u16 \<Rightarrow> u32 \<Rightarrow> ram \<Rightarrow> ram option" where
  "e820_get_next b di ebx m =
     (let (cf, eax, ebx, m) = int15 b 0xE820 ebx 24 E820_SIGNATURE di m in
      if cf then Some m
      else if eax \<noteq> E820_SIGNATURE then Some m
      else let di = di + 24 in if ebx \<noteq> 0 then e820_get_next b di ebx m else Some m)"

definition get_memory_map :: "bios \<Rightarrow> ram \<Rightarrow> ram option" where
  "get_memory_map b m = e820_get_next b E820_BUFFER 0 m"

subsection \<open>Text\<close>

text \<open>CX and DX are the caller's; \<open>print\<close> restores all registers.\<close>

partial_function (option) print_start :: "u16 \<Rightarrow> u16 \<Rightarrow> u16 \<Rightarrow> real_state \<Rightarrow> real_state option" where
  "print_start cx dx bx s =
     (let al = rm_mem s (ucast bx) in
      if al = 0 then Some s
      else print_start cx dx (bx + 1) (int10 (0x0E00 OR ucast al) bx cx dx s))"

definition print_nl :: "u16 \<Rightarrow> u16 \<Rightarrow> u16 \<Rightarrow> real_state \<Rightarrow> real_state" where
  "print_nl bx cx dx s = int10 0x0E0D bx cx dx (int10 0x0E0A bx cx dx s)"

definition hex_digit :: "u16 \<Rightarrow> u8" where
  "hex_digit dx =
     (let al = ucast (dx AND 0x000F) + 0x30 in if al \<le>s 0x39 then al else al + 7)"

text \<open>
  \<open>hex_loop\<close>: CX counts up from 0 and stops the loop at 4, so that there are four rounds; the results are DX
  and memory. \<open>hex_out\<close> is the label of the text \<open>0x0000\<close>.
\<close>

primrec mbr_hex_loop :: "u16 \<Rightarrow> nat \<Rightarrow> u16 \<Rightarrow> u16 \<Rightarrow> ram \<Rightarrow> u16 \<times> ram" where
  "mbr_hex_loop hex_out 0 cx dx m = (dx, m)"
| "mbr_hex_loop hex_out (Suc n) cx dx m =
     mbr_hex_loop hex_out n (cx + 1) (word_rotr 4 dx) (m(ucast (hex_out + 5 - cx) := hex_digit dx))"

definition print_hex :: "u16 \<Rightarrow> u16 \<Rightarrow> real_state \<Rightarrow> real_state option" where
  "print_hex hex_out dx s =
     (let (dx, m) = mbr_hex_loop hex_out 4 0 dx (rm_mem s) in print_start 4 dx hex_out (s\<lparr>rm_mem := m\<rparr>))"

definition bios_cls :: "real_state \<Rightarrow> real_state" where
  "bios_cls s = int10 0x0600 0x0700 0 0x184F s"

subsection \<open>Loading\<close>

record mbr_labels =
  hello_msg :: u16
  disk_error_msg :: u16
  sectors_error_msg :: u16
  hex_out_label :: u16

definition loader_base_addr :: u16 where [simp]: "loader_base_addr = 0x8000"
definition loader_sectors :: u16 where [simp]: "loader_sectors = 8"

text \<open>The errors end in the endless loop \<open>disk_loop\<close>, which is \<open>Inl\<close>. DH is set to AH.\<close>

definition disk_error :: "mbr_labels \<Rightarrow> u16 \<Rightarrow> u16 \<Rightarrow> u16 \<Rightarrow> real_state \<Rightarrow> (real_state, real_state) outcome option" where
  "disk_error l ax cx dx s =
     Option.bind (print_start cx dx (disk_error_msg l) s) (\<lambda>s.
       let s = print_nl (disk_error_msg l) cx dx s;
           dx = (ax AND 0xFF00) OR (dx AND 0x00FF)
       in map_option Inl (print_hex (hex_out_label l) dx s))"

definition disk_load ::
  "bios \<Rightarrow> mbr_labels \<Rightarrow> u16 \<Rightarrow> u16 \<Rightarrow> real_state \<Rightarrow> (real_state, real_state) outcome option" where
  "disk_load b l dx bx s =
     (let saved_dx = dx;
          dh = drop_bit 8 dx;
          ax = 0x0200 OR dh;
          cx = 0x0002;
          dx = dx AND 0x00FF;
          (cf, ax, dx, m) = int13 b ax bx cx dx (rm_mem s);
          s = s\<lparr>rm_mem := m\<rparr>
      in if cf then disk_error l ax cx dx s
         else if ax AND 0x00FF \<noteq> drop_bit 8 saved_dx
         then map_option Inl (print_start cx saved_dx (sectors_error_msg l) s)
         else Some (Inr s))"

text \<open>From the entry to the jump to \<open>loader_base_addr\<close>.\<close>

definition mbr :: "bios \<Rightarrow> mbr_labels \<Rightarrow> real_state \<Rightarrow> (real_state, real_state) outcome option" where
  "mbr b l s =
     Option.bind (print_start 0 0x184F (hello_msg l) (bios_cls s)) (\<lambda>s.
     Option.bind (get_memory_map b (rm_mem s)) (\<lambda>m.
     disk_load b l (push_bit 8 loader_sectors OR 0x80) loader_base_addr (s\<lparr>rm_mem := m\<rparr>)))"

subsection \<open>What the services promise\<close>

text \<open>An entry without the ACPI word, which old versions of the service do not write.\<close>

definition e820_core :: "e820_entry \<Rightarrow> u64 \<times> u64 \<times> u32" where
  "e820_core e = (e_addr e, e_size e, e_type e)"

text \<open>
  The map has the entries \<open>es\<close>. The continuation values are the BIOS's own: \<open>tok i\<close> asks for entry
  \<open>i\<close>, and after the last one either 0 is returned or the next call fails.
\<close>

definition e820_service :: "bios \<Rightarrow> (nat \<Rightarrow> u32) \<Rightarrow> e820_entry list \<Rightarrow> bool" where
  "e820_service b tok es \<longleftrightarrow> tok 0 = 0 \<and>
     (\<forall>i < length es. 0 < i \<longrightarrow> tok i \<noteq> 0) \<and>
     (\<forall>i < length es. \<forall>di m. unat di + 24 \<le> 65536 \<longrightarrow>
        (\<exists>m'. int15 b 0xE820 (tok i) 24 E820_SIGNATURE di m = (False, E820_SIGNATURE, tok (Suc i), m') \<and>
           e820_core (e820_at m' (ucast di) 0) = e820_core (es ! i) \<and> only_in {unat di..<unat di + 24} m m')) \<and>
     (0 < length es \<and> tok (length es) = 0 \<or>
      (\<forall>di m. \<exists>eax ebx. int15 b 0xE820 (tok (length es)) 24 E820_SIGNATURE di m = (True, eax, ebx, m)))"

subsection \<open>The memory map in memory\<close>

text \<open>Bytes of the entry at \<open>a\<close> decide what it is.\<close>

lemma e820_at_same:
  assumes "same_on m m' lo hi" "lo \<le> a + 24 * i" "a + 24 * i + 24 \<le> hi"
  shows "e820_at m' (word_of_nat a) i = e820_at m (word_of_nat a) i"
proof -
  have "load32 m' (word_of_nat (a + 24 * i + k)) = load32 m (word_of_nat (a + 24 * i + k))" if "k \<le> 20" for k
    using assms that by (intro load32_same_on [OF assms(1)]) simp_all
  from this [of 0] this [of 4] this [of 8] this [of 12] this [of 16] this [of 20] show ?thesis
    by (simp add: e820_at_def load64_def add.assoc add.commute add.left_commute)
qed

lemma e820_at_shift: "e820_at m (word_of_nat a) i = e820_at m (word_of_nat (a + 24 * i)) 0"
  by (simp add: e820_at_def)

lemma e820_get_next_entries:
  assumes service: "e820_service b tok es"
  shows "k \<le> length es \<Longrightarrow> (k < length es \<or> \<not> (0 < length es \<and> tok (length es) = 0)) \<Longrightarrow> a + 24 * (length es - k) < 65536 \<Longrightarrow>
    \<exists>m'. e820_get_next b (word_of_nat a) (tok k) m = Some m' \<and> only_in {a..<a + 24 * (length es - k)} m m' \<and>
      (\<forall>i < length es - k. e820_core (e820_at m' (word_of_nat a) i) = e820_core (es ! (k + i)))"
proof (induction "length es - k" arbitrary: k a m)
  case 0
  then have k: "k = length es" by simp
  with 0 service have "\<forall>di m. \<exists>eax ebx. int15 b 0xE820 (tok k) 24 E820_SIGNATURE di m = (True, eax, ebx, m)"
    by (auto simp: e820_service_def)
  then obtain eax ebx where "int15 b 0xE820 (tok k) 24 E820_SIGNATURE (word_of_nat a) m = (True, eax, ebx, m)" by blast
  then have "e820_get_next b (word_of_nat a) (tok k) m = Some m" by (subst e820_get_next.simps) simp
  then show ?case using k by simp
next
  case (Suc n)
  then have k: "k < length es" by simp
  have a: "a + 24 \<le> 65536" using Suc.hyps(2) Suc.prems(3) by simp
  then have ua: "unat (word_of_nat a :: u16) = a" by (simp add: unat_of_nat take_bit_nat_eq_self)
  then have ca: "ucast (word_of_nat a :: u16) = (word_of_nat a :: u32)" by (metis of_nat_unat)
  obtain m1 where m1: "int15 b 0xE820 (tok k) 24 E820_SIGNATURE (word_of_nat a) m = (False, E820_SIGNATURE, tok (Suc k), m1)"
      "e820_core (e820_at m1 (word_of_nat a) 0) = e820_core (es ! k)" "only_in {a..<a + 24} m m1"
    using service k a ua ca unfolding e820_service_def by metis
  have step: "word_of_nat a + 24 = (word_of_nat (a + 24) :: u16)" by simp
  have unf: "e820_get_next b (word_of_nat a) (tok k) m =
      (if tok (Suc k) \<noteq> 0 then e820_get_next b (word_of_nat (a + 24)) (tok (Suc k)) m1 else Some m1)"
    by (subst e820_get_next.simps) (simp only: m1(1) Let_def prod.case if_False if_True simp_thms step)
  show ?case
  proof (cases "tok (Suc k) = 0")
    case True
    then have "Suc k = length es" using service k unfolding e820_service_def by (metis Suc_lessI zero_less_Suc)
    then have l: "length es - k = 1" by simp
    show ?thesis using True m1(2,3) unfolding unf l by (intro exI [of _ m1]) simp
  next
    case False
    have n: "n = length es - Suc k" "length es - k = Suc (length es - Suc k)" using Suc.hyps(2) by simp_all
    have "tok (length es) \<noteq> 0" if "Suc k = length es" using False that by metis
    then have pre: "Suc k \<le> length es" "Suc k < length es \<or> \<not> (0 < length es \<and> tok (length es) = 0)"
      "a + 24 + 24 * (length es - Suc k) < 65536" using k Suc.prems(3) n(2) by (auto simp: le_less)
    from Suc.hyps(1) [OF n(1) pre, of m1] obtain m' where
      m': "e820_get_next b (word_of_nat (a + 24)) (tok (Suc k)) m1 = Some m'"
        "only_in {a + 24..<a + 24 + 24 * (length es - Suc k)} m1 m'"
        "\<forall>i < length es - Suc k. e820_core (e820_at m' (word_of_nat (a + 24)) i) = e820_core (es ! (Suc k + i))" by blast
    have "only_in {a..<a + 24 * (length es - k)} m m'"
      by (rule only_in_trans [OF only_in_mono [OF m1(3)] only_in_mono [OF m'(2)]]) (auto simp: n(2))
    moreover have "e820_core (e820_at m' (word_of_nat a) i) = e820_core (es ! (k + i))" if "i < length es - k" for i
    proof (cases i)
      case 0
      have "same_on m1 m' a (a + 24)" by (rule only_in_same_on [OF m'(2)]) (use a in auto)
      from e820_at_same [OF this, of a 0] m1(2) 0 show ?thesis by simp
    next
      case (Suc j)
      have "e820_at m' (word_of_nat a) i = e820_at m' (word_of_nat (a + 24)) j" by (simp add: Suc e820_at_def algebra_simps)
      with m'(3) that Suc n(2) show ?thesis by simp
    qed
    ultimately show ?thesis using m'(1) False unfolding unf by simp
  qed
qed

lemma get_memory_map_entries:
  assumes "e820_service b tok es" "length es \<le> 1194"
  shows "\<exists>m'. get_memory_map b m = Some m' \<and> only_in {0x9000..<0x9000 + 24 * length es} m m' \<and>
    (\<forall>i < length es. e820_core (e820_at m' 0x9000 i) = e820_core (es ! i))"
proof -
  have "tok 0 = 0" using assms(1) by (simp add: e820_service_def)
  with e820_get_next_entries [OF assms(1), of 0 "0x9000" m] assms(2) show ?thesis by (simp add: get_memory_map_def)
qed

subsection \<open>From the BIOS to the kernel\<close>

text \<open>The first megabyte as the kernel sees it.\<close>

definition low_memory :: "ram \<Rightarrow> ram \<Rightarrow> bool" where
  "low_memory m v \<longleftrightarrow> (\<forall>x < 0x100000. v (word_of_nat (0xC0000000 + x)) = m (word_of_nat x))"

lemma low_memory_e820:
  assumes "low_memory m v" "i < 1000"
  shows "e820_at v E820_BUFFER_VIRT i = e820_at m 0x9000 i"
proof -
  have b: "v (word_of_nat (0xC0009000 + j)) = m (word_of_nat (0x9000 + j))" if "j < 0x10000" for j
    using assms(1) that unfolding low_memory_def by (auto dest: spec [where x = "0x9000 + j"])
  have "load32 v (word_of_nat (0xC0009000 + j)) = load32 m (word_of_nat (0x9000 + j))" if "j + 4 \<le> 0x10000" for j
    using b [of j] b [of "j + 1"] b [of "j + 2"] b [of "j + 3"] that by (simp add: load32_def add_ac)
  from this [of "24 * i"] this [of "24 * i + 4"] this [of "24 * i + 8"] this [of "24 * i + 12"] this [of "24 * i + 16"] this [of "24 * i + 20"] assms(2)
  show ?thesis by (simp add: e820_at_def load64_def add_ac)
qed

lemma e820_end_mark_core: "e820_end_mark e \<longleftrightarrow> e820_core e = (0, 0, 0)"
  by (simp add: e820_end_mark_def e820_core_def)

lemma e820_entries_reach:
  assumes es: "length es \<le> 900" "\<forall>e \<in> set es. \<not> e820_end_mark e"
    and buffer: "\<forall>i < length es. e820_core (e820_at m 0x9000 i) = e820_core (es ! i)" "e820_end_mark (e820_at m 0x9000 (length es))"
    and kernel: "low_memory m (mem s)"
  shows "map e820_core (entries (the_boot_info (boot_info_init sections s))) = take 128 (map e820_core es)"
proof -
  define buf where "buf = e820_at (mem s) E820_BUFFER_VIRT"
  define n where "n = unat (e820_count (the_boot_info (boot_info_init sections s)))"
  have e: "entries (the_boot_info (boot_info_init sections s)) = map buf [0..<n]" "n \<le> 128"
      "list_all (\<lambda>e. \<not> e820_end_mark e) (map buf [0..<n])" "n = 128 \<or> e820_end_mark (buf n)"
    using boot_info_init_spec [of sections s] unfolding Let_def buf_def n_def by metis+
  have buf: "buf i = e820_at m 0x9000 i" if "i < 1000" for i
    unfolding buf_def by (rule low_memory_e820 [OF kernel that])
  have last: "e820_end_mark (buf (length es))" using buf [of "length es"] es(1) buffer(2) by simp
  have core: "e820_core (buf i) = e820_core (es ! i)" if "i < length es" for i
    using buffer(1) that buf [of i] es(1) by simp
  have "n = min 128 (length es)"
  proof (rule antisym)
    show "n \<le> min 128 (length es)"
      using e(2,3) last by (metis (no_types, lifting) atLeastLessThan_iff leI list_all_iff list.set_map image_eqI min.boundedI set_upt zero_le)
    have "\<not> e820_end_mark (buf i)" if "i < length es" for i
      using core [OF that] es(2) that by (simp add: e820_end_mark_core)
    then show "min 128 (length es) \<le> n" using e(4) by (meson leI min.coboundedI1 min.coboundedI2 order.refl)
  qed
  then show ?thesis by (intro nth_equalityI) (auto simp: e(1) core)
qed

subsection \<open>Text on the screen\<close>

text \<open>A text in the memory of the boot sector, and the calls that print it.\<close>

primrec text_at :: "ram \<Rightarrow> u16 \<Rightarrow> u8 list \<Rightarrow> bool" where
  "text_at m bx [] \<longleftrightarrow> m (ucast bx) = 0"
| "text_at m bx (c # cs) \<longleftrightarrow> c \<noteq> 0 \<and> m (ucast bx) = c \<and> text_at m (bx + 1) cs"

definition teletype :: "video_call list \<Rightarrow> u8 list \<Rightarrow> bool" where
  "teletype calls str \<longleftrightarrow> map fst calls = map (\<lambda>c. 0x0E00 OR ucast c) str"

definition printed :: "u8 list \<Rightarrow> real_state \<Rightarrow> real_state \<Rightarrow> bool" where
  "printed str s t \<longleftrightarrow> rm_mem t = rm_mem s \<and> (\<exists>calls. video_calls t = video_calls s @ calls \<and> teletype calls str)"

lemma print_start_text: "text_at (rm_mem s) bx str \<Longrightarrow> \<exists>t. print_start cx dx bx s = Some t \<and> printed str s t"
proof (induction str arbitrary: bx s)
  case Nil
  then show ?case by (subst print_start.simps) (auto simp: printed_def teletype_def)
next
  case (Cons c cs)
  define s1 where "s1 = int10 (0x0E00 OR ucast c) bx cx dx s"
  have "rm_mem s1 = rm_mem s" by (simp add: s1_def int10_def)
  with Cons.IH [of s1 "bx + 1"] Cons.prems obtain t where t: "print_start cx dx (bx + 1) s1 = Some t" "printed cs s1 t" by auto
  have "print_start cx dx bx s = Some t"
    by (subst print_start.simps) (use Cons.prems t(1) in \<open>simp add: s1_def\<close>)
  moreover have "printed (c # cs) s t" using t(2) by (auto simp: printed_def teletype_def s1_def int10_def)
  ultimately show ?case by blast
qed

definition hex_char :: "nat \<Rightarrow> u8" where
  "hex_char n = (if n < 10 then 48 + word_of_nat n else 55 + word_of_nat n)"

lemma hex_digit_char: "hex_digit dx = hex_char (unat dx mod 16)"
proof -
  have m: "dx AND 0x000F = take_bit 4 dx" by (simp add: take_bit_eq_mask mask_eq_exp_minus_1)
  have u: "unat (take_bit 4 dx) = unat dx mod 16" by (simp only: unsigned_take_bit_eq) (simp add: take_bit_eq_mod)
  define n where "n = unat dx mod 16"
  have "n < 16" by (simp add: n_def)
  then have "n \<in> set [0..<16]" by simp
  have "ucast (dx AND 0x000F) = (word_of_nat n :: u8)" unfolding m n_def u [symmetric] by (simp only: of_nat_unat)
  moreover have "(let al = word_of_nat n + 0x30 in if al \<le>s 0x39 then al else al + 7) = hex_char n"
    using \<open>n \<in> set [0..<16]\<close> by (auto simp: upt_rec hex_char_def Let_def)
  ultimately show ?thesis by (simp add: hex_digit_def n_def)
qed

text \<open>The four digits of a number, the first one last in the loop.\<close>

definition hex4 :: "u16 \<Rightarrow> u8 list" where
  "hex4 dx = map (\<lambda>k. hex_char (unat dx div 16 ^ k mod 16)) [3, 2, 1, 0]"

lemma rotated_nibble: "k < 4 \<Longrightarrow> unat (word_rotr (4 * k) (dx :: u16)) mod 16 = unat dx div 16 ^ k mod 16"
proof -
  assume k: "k < 4"
  have "take_bit 4 (word_rotr (4 * k) dx) = take_bit 4 (drop_bit (4 * k) dx)"
    by (rule bit_word_eqI) (use k in \<open>auto simp: bit_simps bit_word_rotr_iff add.commute\<close>)
  from arg_cong [OF this, of unat] show ?thesis
    by (simp only: unsigned_take_bit_eq unat_drop_bit_eq) (simp add: take_bit_eq_mod drop_bit_eq_div power_mult)
qed

lemma rotations: "word_rotr 4 (word_rotr 4 dx) = word_rotr 8 dx" "word_rotr 4 (word_rotr 8 dx) = word_rotr 12 dx"
  "word_rotr 4 (word_rotr 12 dx) = dx" for dx :: u16
  by (simp_all add: word_rotr_word_rotr_eq) (rule bit_word_eqI, simp add: bit_word_rotr_iff)

lemma mbr_hex_loop_result:
  "mbr_hex_loop h 4 0 dx m = (dx, m(ucast (h + 5) := hex4 dx ! 3, ucast (h + 4) := hex4 dx ! 2, ucast (h + 3) := hex4 dx ! 1, ucast (h + 2) := hex4 dx ! 0))"
proof -
  have "hex_digit dx = hex4 dx ! 3" "hex_digit (word_rotr 4 dx) = hex4 dx ! 2" "hex_digit (word_rotr 8 dx) = hex4 dx ! 1"
    "hex_digit (word_rotr 12 dx) = hex4 dx ! 0"
    using rotated_nibble [of 1 dx] rotated_nibble [of 2 dx] rotated_nibble [of 3 dx] by (simp_all add: hex_digit_char hex4_def)
  moreover have "4 = Suc (Suc (Suc (Suc 0)))" by simp
  from arg_cong [OF this, of "\<lambda>n. mbr_hex_loop h n 0 dx m"]
  have "mbr_hex_loop h 4 0 dx m = (dx, m(ucast (h + 5) := hex_digit dx, ucast (h + 4) := hex_digit (word_rotr 4 dx),
      ucast (h + 3) := hex_digit (word_rotr 8 dx), ucast (h + 2) := hex_digit (word_rotr 12 dx)))"
    by (simp add: rotations add.commute)
  ultimately show ?thesis by simp
qed

lemma ucast_addr_eq: "(ucast (a :: u16) :: u32) = ucast b \<longleftrightarrow> a = b"
proof -
  have "unat (ucast w :: u32) = unat w" for w :: u16
    using unsigned_less [of w, where ?'a = nat] by (simp add: unsigned_ucast_eq take_bit_nat_eq_self)
  then show ?thesis by (simp only: word_unat_eq_iff)
qed

lemma hex_char_nonzero: "n < 16 \<Longrightarrow> hex_char n \<noteq> 0"
proof -
  assume "n < 16"
  then have "n \<in> set [0..<16]" by simp
  then show ?thesis by (auto simp: upt_rec hex_char_def)
qed

text \<open>\<open>print_hex\<close> prints \<open>0x\<close> and the four digits.\<close>

theorem print_hex_text:
  assumes "rm_mem s (ucast h) = 0x30" "rm_mem s (ucast (h + 1)) = 0x78" "rm_mem s (ucast (h + 6)) = 0"
  shows "\<exists>t calls. print_hex h dx s = Some t \<and> video_calls t = video_calls s @ calls \<and> teletype calls ([0x30, 0x78] @ hex4 dx)"
proof -
  define m where "m = snd (mbr_hex_loop h 4 0 dx (rm_mem s))"
  have "text_at m h ([0x30, 0x78] @ hex4 dx)"
    unfolding m_def mbr_hex_loop_result using assms hex_char_nonzero by (simp add: hex4_def ucast_addr_eq add.assoc)
  then have "text_at (rm_mem (s\<lparr>rm_mem := m\<rparr>)) h ([0x30, 0x78] @ hex4 dx)" by simp
  then obtain t where
    "print_start 4 dx h (s\<lparr>rm_mem := m\<rparr>) = Some t" "printed ([0x30, 0x78] @ hex4 dx) (s\<lparr>rm_mem := m\<rparr>) t"
    using print_start_text by blast
  then show ?thesis unfolding print_hex_def mbr_hex_loop_result by (auto simp: m_def mbr_hex_loop_result printed_def)
qed

subsection \<open>The boot sector\<close>

text \<open>
  A successful read of the eight sectors behind the boot sector, which hold \<open>ldr\<close>: AL is their number, and no
  memory but the buffer is written.
\<close>

definition disk_service :: "bios \<Rightarrow> (nat \<Rightarrow> u8) \<Rightarrow> bool" where
  "disk_service b ldr \<longleftrightarrow>
     (\<forall>m. \<exists>ax dx m'. int13 b 0x0208 0x8000 0x0002 0x0080 m = (False, ax, dx, m') \<and> ax AND 0x00FF = 8 \<and>
        only_in {0x8000..<0x9000} m m' \<and> (\<forall>i < 4096. m' (word_of_nat (0x8000 + i)) = ldr i))"

lemma e820_at_kept:
  assumes "only_in {0x8000..<0x9000} m m'" "i < 1000"
  shows "e820_at m' 0x9000 i = e820_at m 0x9000 i"
proof -
  have "same_on m m' 0x9000 0x10000" by (rule only_in_same_on [OF assms(1)]) auto
  from e820_at_same [OF this, of "0x9000" i] assms(2) show ?thesis by simp
qed


text \<open>Errors of the disk end in the endless loop, with a message; nothing is jumped to.\<close>

theorem disk_load_errors:
  assumes "int13 b (0x0200 OR drop_bit 8 dx) bx 0x0002 (dx AND 0x00FF) (rm_mem s) = (cf, ax, dx', m)"
    and bad: "cf \<or> ax AND 0x00FF \<noteq> drop_bit 8 dx"
    and labels: "text_at m (disk_error_msg l) disk_text" "text_at m (sectors_error_msg l) sectors_text"
      "m (ucast (hex_out_label l)) = 0x30" "m (ucast (hex_out_label l + 1)) = 0x78" "m (ucast (hex_out_label l + 6)) = 0"
  shows "\<exists>t calls. disk_load b l dx bx s = Some (Inl t) \<and> video_calls t = video_calls s @ calls \<and>
    teletype calls (if cf then disk_text @ [10, 13] @ [0x30, 0x78] @ hex4 ((ax AND 0xFF00) OR (dx' AND 0x00FF)) else sectors_text)"
proof (cases cf)
  case True
  define s0 where "s0 = s\<lparr>rm_mem := m\<rparr>"
  have "text_at (rm_mem s0) (disk_error_msg l) disk_text" using labels by (simp add: s0_def)
  then obtain s1 where s1: "print_start 2 dx' (disk_error_msg l) s0 = Some s1" "printed disk_text s0 s1"
    using print_start_text by blast
  define s2 where "s2 = print_nl (disk_error_msg l) 2 dx' s1"
  have "rm_mem s2 = m" using s1(2) by (simp add: s2_def print_nl_def int10_def printed_def s0_def)
  with labels print_hex_text [of s2 "hex_out_label l"] obtain t calls where
    t: "print_hex (hex_out_label l) ((ax AND 0xFF00) OR (dx' AND 0x00FF)) s2 = Some t" "video_calls t = video_calls s2 @ calls"
      "teletype calls ([0x30, 0x78] @ hex4 ((ax AND 0xFF00) OR (dx' AND 0x00FF)))" by metis
  have "disk_load b l dx bx s = Some (Inl t)"
    using True t(1) s1(1) by (simp add: disk_load_def assms(1) disk_error_def s0_def [symmetric] s2_def [symmetric])
  moreover obtain calls1 where "video_calls s1 = video_calls s @ calls1" "teletype calls1 disk_text"
    using s1(2) by (auto simp: printed_def s0_def)
  ultimately show ?thesis using True t(2,3)
    by (auto simp: s2_def print_nl_def int10_def teletype_def intro!: exI [of _ "calls1 @ _ # _ # calls"])
next
  case False
  have "text_at (rm_mem (s\<lparr>rm_mem := m\<rparr>)) (sectors_error_msg l) sectors_text" using labels by simp
  then obtain t where "print_start 2 dx (sectors_error_msg l) (s\<lparr>rm_mem := m\<rparr>) = Some t" "printed sectors_text (s\<lparr>rm_mem := m\<rparr>) t"
    using print_start_text by blast
  with False bad show ?thesis by (auto simp: disk_load_def assms(1) printed_def)
qed

end
