(* ===== verification/Paging.thy ===== *)
theory Paging
  imports Vmm
begin

text \<open>
  Demand paging: the accesses of the kernel to its virtual memory, each of which reaches the page
  fault handler of \<open>08.kernel-mm/kernel/mem/vmm.c\<close> when the page is not mapped. The result is why the
  heap may be modelled over one flat memory: every page that is touched gets a frame of its own.
\<close>

text \<open>An access to \<open>va\<close>: on a fault the processor leaves the address in CR2 and enters the handler.\<close>

definition touch ::
  "interrupt_frame \<Rightarrow> u32 \<Rightarrow> 'a vmm_state_scheme \<Rightarrow> ('a vmm_state_scheme, 'a vmm_state_scheme) outcome option" where
  "touch frame va s = (if mmu s va = None then vmm_page_fault_handler frame (s\<lparr>cr2 := va\<rparr>) else Some (Inr s))"

primrec touch_all ::
  "interrupt_frame \<Rightarrow> u32 list \<Rightarrow> 'a vmm_state_scheme \<Rightarrow> ('a vmm_state_scheme, 'a vmm_state_scheme) outcome option" where
  "touch_all frame [] s = Some (Inr s)"
| "touch_all frame (va # vas) s =
     (case touch frame va s of Some (Inr s) \<Rightarrow> touch_all frame vas s | r \<Rightarrow> r)"

definition frame_no :: "u32 \<Rightarrow> nat" where
  "frame_no pa = unat pa div 4096"

text \<open>
  \<open>s'\<close> has all translations of \<open>s\<close>; the new ones go to frames that were in the pool and have left
  it, different pages to different frames.
\<close>

definition privately_grown :: "'a vmm_state_scheme \<Rightarrow> 'a vmm_state_scheme \<Rightarrow> bool" where
  "privately_grown s s' \<longleftrightarrow> pmm_avail s' \<subseteq> pmm_avail s \<and> (\<forall>va pa. mmu s va = Some pa \<longrightarrow> mmu s' va = Some pa) \<and>
     (\<forall>va pa. mmu s va = None \<longrightarrow> mmu s' va = Some pa \<longrightarrow> frame_no pa \<in> pmm_avail s - pmm_avail s') \<and>
     (\<forall>va vb pa pb. mmu s va = None \<longrightarrow> mmu s vb = None \<longrightarrow> mmu s' va = Some pa \<longrightarrow> mmu s' vb = Some pb \<longrightarrow>
        drop_bit 12 va \<noteq> drop_bit 12 vb \<longrightarrow> frame_no pa \<noteq> frame_no pb)"

definition paging_ok :: "'a vmm_state_scheme \<Rightarrow> bool" where
  "paging_ok s \<longleftrightarrow> kernel_layout s \<and> tlb_coherent s \<and> pmm_ok s"

lemma privately_grown_refl [simp]: "privately_grown s s"
  by (simp add: privately_grown_def)

lemma privately_grownD:
  assumes "privately_grown s s'"
  shows "pmm_avail s' \<subseteq> pmm_avail s" "mmu s va = Some pa \<Longrightarrow> mmu s' va = Some pa"
    "mmu s va = None \<Longrightarrow> mmu s' va = Some pa \<Longrightarrow> frame_no pa \<in> pmm_avail s - pmm_avail s'"
    "mmu s va = None \<Longrightarrow> mmu s vb = None \<Longrightarrow> mmu s' va = Some pa \<Longrightarrow> mmu s' vb = Some pb \<Longrightarrow>
       drop_bit 12 va \<noteq> drop_bit 12 vb \<Longrightarrow> frame_no pa \<noteq> frame_no pb"
  using assms unfolding privately_grown_def by blast+

lemma privately_grown_trans [trans]:
  assumes a: "privately_grown s t" and b: "privately_grown t u"
  shows "privately_grown s u"
  unfolding privately_grown_def
proof (intro conjI allI impI)
  note a = privately_grownD [OF a] and b = privately_grownD [OF b]
  show "pmm_avail u \<subseteq> pmm_avail s" using a(1) b(1) by blast
  show "mmu u va = Some pa" if "mmu s va = Some pa" for va pa by (rule b(2) [OF a(2) [OF that]])
  have fate: "mmu t va = Some pa \<and> frame_no pa \<in> pmm_avail s - pmm_avail t \<or>
      mmu t va = None \<and> frame_no pa \<in> pmm_avail t - pmm_avail u" if "mmu s va = None" "mmu u va = Some pa" for va pa
  proof (cases "mmu t va")
    case None
    then show ?thesis using b(3) [OF None that(2)] by simp
  next
    case (Some qa)
    then show ?thesis using a(3) [OF that(1) Some] b(2) [OF Some] that(2) by simp
  qed
  show "frame_no pa \<in> pmm_avail s - pmm_avail u" if "mmu s va = None" "mmu u va = Some pa" for va pa
    using fate [OF that] a(1) b(1) by blast
  show "frame_no pa \<noteq> frame_no pb"
    if n: "mmu s va = None" "mmu s vb = None" and m: "mmu u va = Some pa" "mmu u vb = Some pb"
      and d: "drop_bit 12 va \<noteq> drop_bit 12 vb" for va vb pa pb
    using fate [OF n(1) m(1)] fate [OF n(2) m(2)]
  proof (elim disjE conjE)
    assume "mmu t va = Some pa" "mmu t vb = Some pb"
    then show ?thesis using a(4) [OF n _ _ d] by blast
  next
    assume "mmu t va = None" "mmu t vb = None"
    then show ?thesis using b(4) [OF _ _ m d] by blast
  qed auto
qed

lemma mmu_same_page:
  assumes "drop_bit 12 vb = drop_bit 12 va"
  shows "mmu s vb = None \<longleftrightarrow> mmu s va = None" "mmu s va = Some (f + (va AND 0xFFF)) \<Longrightarrow> mmu s vb = Some (f + (vb AND 0xFFF))"
  using write_entry_same_page(3,4) [OF assms, of s] by (auto simp: mmu_def split: if_splits)

lemma frame_no_offset:
  assumes "p < 1048576"
  shows "frame_no (of_nat (p * 4096) + (va AND 0xFFF)) = p"
proof -
  have "unat (of_nat (p * 4096) :: u32) = p * 4096" using assms by (intro unat_of_nat_u32) simp
  moreover have "unat (va AND 0xFFF) = unat va mod 4096" by (rule unat_and_masks)
  moreover have "p * 4096 + unat va mod 4096 < 4294967296" using assms mod_less_divisor [of 4096 "unat va"] by linarith
  ultimately show ?thesis by (simp add: frame_no_def unat_add_u32)
qed

lemma avail_bound:
  assumes "pmm_ok s" "p \<in> pmm_avail s"
  shows "p < 1048576"
  using assms by (auto simp: pmm_avail_def pmm_ok_def)

lemma finite_avail: "finite (pmm_avail s)"
  by (simp add: pmm_avail_def)

lemma paging_cong:
  assumes "phys t = phys s" "cr3 t = cr3 s" "tlb t = tlb s"
  shows "mmu t = mmu s" "kernel_layout t = kernel_layout s" "tlb_coherent t = tlb_coherent s"
proof -
  show m: "mmu t = mmu s" by (rule ext) (simp add: assms mmu_def pte_def pte_addr_def pde_def pde_addr_def)
  show "kernel_layout t = kernel_layout s" by (simp add: assms kernel_layout_def dir_base_def)
  show "tlb_coherent t = tlb_coherent s" by (simp add: assms tlb_coherent_def m)
qed

lemma cr2_irrelevant [simp]:
  "mmu (s\<lparr>cr2 := x\<rparr>) = mmu s" "kernel_layout (s\<lparr>cr2 := x\<rparr>) = kernel_layout s" "tlb_coherent (s\<lparr>cr2 := x\<rparr>) = tlb_coherent s"
  "pmm_ok (s\<lparr>cr2 := x\<rparr>) = pmm_ok s" "pmm_avail (s\<lparr>cr2 := x\<rparr>) = pmm_avail s"
  by (simp_all add: paging_cong [of "s\<lparr>cr2 := x\<rparr>" s])
    (simp_all add: pmm_ok_def counted_def free_set_def used_def pmm_avail_def allocatable_def)

lemma touch_grows:
  assumes ok: "paging_ok s" and va: "KERNEL_LOAD_VIRTUAL_ADDR \<le> va" and av: "mmu s va = None \<Longrightarrow> pmm_avail s \<noteq> {}"
  shows "\<exists>s'. touch frame va s = Some (Inr s') \<and> mmu s' va \<noteq> None \<and> privately_grown s s' \<and> paging_ok s' \<and>
    (if mmu s va = None then card (pmm_avail s) = Suc (card (pmm_avail s')) else s' = s) \<and>
    (\<forall>pa. 0x200000 \<le> unat pa \<longrightarrow> phys s' pa = phys s pa)"
proof (cases "mmu s va = None")
  case False
  then show ?thesis using ok False by (intro exI [of _ s]) (simp add: touch_def del: not_None_eq)
next
  case True
  have h: "kernel_layout (s\<lparr>cr2 := va\<rparr>)" "tlb_coherent (s\<lparr>cr2 := va\<rparr>)" "pmm_ok (s\<lparr>cr2 := va\<rparr>)"
    "KERNEL_LOAD_VIRTUAL_ADDR \<le> cr2 (s\<lparr>cr2 := va\<rparr>)" "pmm_avail (s\<lparr>cr2 := va\<rparr>) \<noteq> {}"
    using ok va av [OF True] by (simp_all add: paging_ok_def)
  from page_fault_maps [OF h, of frame] obtain s' p where
    s': "vmm_page_fault_handler frame (s\<lparr>cr2 := va\<rparr>) = Some (Inr s')" "p \<in> pmm_avail s"
      "mmu s' va = Some (of_nat (p * 4096) + (va AND 0xFFF))"
      "\<And>vb. drop_bit 12 vb \<noteq> drop_bit 12 va \<Longrightarrow> mmu s' vb = mmu s vb"
      "pmm_avail s' = pmm_avail s - {p}" "pmm_ok s'" "kernel_layout s'" "tlb_coherent s'"
      "\<forall>pa. 0x200000 \<le> unat pa \<longrightarrow> phys s' pa = phys s pa" by auto
  have p: "p < 1048576" using avail_bound [OF _ s'(2)] ok by (simp add: paging_ok_def)
  have new: "drop_bit 12 vb = drop_bit 12 va \<and> frame_no pb = p" if "mmu s vb = None" "mmu s' vb = Some pb" for vb pb
  proof -
    have d: "drop_bit 12 vb = drop_bit 12 va" using s'(4) [of vb] that by fastforce
    have "pb = of_nat (p * 4096) + (vb AND 0xFFF)" using mmu_same_page(2) [OF d s'(3)] that(2) by simp
    with d show ?thesis by (simp only: frame_no_offset [OF p])
  qed
  have old: "mmu s' vb = Some pb" if "mmu s vb = Some pb" for vb pb
    using s'(4) [of vb] mmu_same_page(1) [of vb va s] True that by fastforce
  have "privately_grown s s'"
    unfolding privately_grown_def
  proof (intro conjI allI impI)
    show "pmm_avail s' \<subseteq> pmm_avail s" using s'(5) by blast
    show "mmu s' vb = Some pb" if "mmu s vb = Some pb" for vb pb by (rule old [OF that])
    show "frame_no pb \<in> pmm_avail s - pmm_avail s'" if "mmu s vb = None" "mmu s' vb = Some pb" for vb pb
      using new [OF that] s'(2,5) by simp
    show "frame_no pa \<noteq> frame_no pb"
      if n: "mmu s vb = None" "mmu s vc = None" and m: "mmu s' vb = Some pa" "mmu s' vc = Some pb"
        and d: "drop_bit 12 vb \<noteq> drop_bit 12 vc" for vb vc pa pb
      using new [OF n(1) m(1)] new [OF n(2) m(2)] d by simp
  qed
  moreover have "card (pmm_avail s) = Suc (card (pmm_avail s'))"
    unfolding s'(5) by (rule card.remove [OF finite_avail s'(2)])
  ultimately show ?thesis using s' True by (intro exI [of _ s']) (simp add: touch_def paging_ok_def)
qed

text \<open>The pages of the accesses that are not mapped yet.\<close>

definition fresh_pages :: "'a vmm_state_scheme \<Rightarrow> u32 list \<Rightarrow> u32 set" where
  "fresh_pages s vas = (\<lambda>va. drop_bit 12 va) ` {va \<in> set vas. mmu s va = None}"

lemma fresh_pages_mapped: "mmu s va \<noteq> None \<Longrightarrow> fresh_pages s (va # vas) = fresh_pages s vas"
  by (auto simp: fresh_pages_def)

lemma fresh_pages_touched:
  assumes "mmu s va = None" "mmu t va \<noteq> None" "privately_grown s t"
  shows "Suc (card (fresh_pages t vas)) \<le> card (fresh_pages s (va # vas))"
proof -
  have "drop_bit 12 va \<notin> fresh_pages t vas" using mmu_same_page(1) [of _ va t] assms(2) by (force simp: fresh_pages_def)
  moreover have "fresh_pages t vas \<subseteq> fresh_pages s (va # vas)"
    using privately_grownD(2) [OF assms(3)] unfolding fresh_pages_def
    by (intro image_mono Collect_mono) (metis list.set_intros(2) not_None_eq)
  moreover have "drop_bit 12 va \<in> fresh_pages s (va # vas)" using assms(1) by (simp add: fresh_pages_def)
  ultimately have "insert (drop_bit 12 va) (fresh_pages t vas) \<subseteq> fresh_pages s (va # vas)" by blast
  from card_mono [OF _ this] show ?thesis
    using \<open>drop_bit 12 va \<notin> fresh_pages t vas\<close> by (simp add: fresh_pages_def)
qed

lemma touch_enough:
  assumes "paging_ok s" "KERNEL_LOAD_VIRTUAL_ADDR \<le> va" "card (fresh_pages s (va # vas)) \<le> card (pmm_avail s)"
  shows "\<exists>t. touch frame va s = Some (Inr t) \<and> mmu t va \<noteq> None \<and> privately_grown s t \<and> paging_ok t \<and>
    card (fresh_pages t vas) \<le> card (pmm_avail t) \<and> (\<forall>pa. 0x200000 \<le> unat pa \<longrightarrow> phys t pa = phys s pa)"
proof -
  have "pmm_avail s \<noteq> {}" if "mmu s va = None"
  proof -
    have "0 < card (fresh_pages s (va # vas))" using that by (auto simp: fresh_pages_def card_gt_0_iff)
    then show ?thesis using assms(3) by auto
  qed
  with touch_grows [OF assms(1,2), of frame] obtain t where
    t: "touch frame va s = Some (Inr t)" "mmu t va \<noteq> None" "privately_grown s t" "paging_ok t"
      "if mmu s va = None then card (pmm_avail s) = Suc (card (pmm_avail t)) else t = s"
      "\<forall>pa. 0x200000 \<le> unat pa \<longrightarrow> phys t pa = phys s pa" by auto
  have "card (fresh_pages t vas) \<le> card (pmm_avail t)"
  proof (cases "mmu s va = None")
    case True
    then show ?thesis using fresh_pages_touched [OF True t(2,3), of vas] t(5) assms(3) by simp
  next
    case False
    then show ?thesis using fresh_pages_mapped [OF False] t(5) assms(3) by simp
  qed
  then show ?thesis using t by blast
qed

lemma touch_all_grows:
  "paging_ok s \<Longrightarrow> \<forall>va \<in> set vas. KERNEL_LOAD_VIRTUAL_ADDR \<le> va \<Longrightarrow> card (fresh_pages s vas) \<le> card (pmm_avail s) \<Longrightarrow>
   \<exists>s'. touch_all frame vas s = Some (Inr s') \<and> (\<forall>va \<in> set vas. mmu s' va \<noteq> None) \<and> privately_grown s s' \<and> paging_ok s'"
proof (induction vas arbitrary: s)
  case (Cons va vas)
  from touch_enough [OF Cons.prems(1) _ Cons.prems(3), of frame] Cons.prems(2) obtain t where
    t: "touch frame va s = Some (Inr t)" "mmu t va \<noteq> None" "privately_grown s t" "paging_ok t"
      "card (fresh_pages t vas) \<le> card (pmm_avail t)" by auto
  with Cons.IH [OF t(4)] Cons.prems(2) obtain u where
    u: "touch_all frame vas t = Some (Inr u)" "\<forall>va \<in> set vas. mmu u va \<noteq> None" "privately_grown t u" "paging_ok u"
    by auto
  have "mmu u va \<noteq> None" using t(2) privately_grownD(2) [OF u(3)] by fastforce
  then show ?case using t(1) u privately_grown_trans [OF t(3) u(3)] by auto
qed simp

text \<open>C6: Every sequence of accesses to kernel addresses is served by the page fault handler as
  long as there are frames for the pages not yet mapped: every page is mapped afterwards,
  existing translations stay, and each new page gets a frame of its own, which was in the pool
  and has left it.\<close>

theorem demand_paging_private:
  assumes "kernel_layout s" "tlb_coherent s" "pmm_ok s"
    and "\<forall>va \<in> set vas. KERNEL_LOAD_VIRTUAL_ADDR \<le> va" "card (fresh_pages s vas) \<le> card (pmm_avail s)"
  shows "\<exists>s'. touch_all frame vas s = Some (Inr s') \<and> (\<forall>va \<in> set vas. mmu s' va \<noteq> None) \<and>
    privately_grown s s' \<and> kernel_layout s' \<and> tlb_coherent s' \<and> pmm_ok s'"
  using touch_all_grows [OF _ assms(4,5), of frame] assms(1-3) by (auto simp: paging_ok_def)

subsection \<open>The page tables that the loader does not clear\<close>

lemma fold_store32_elsewhere:
  assumes "\<And>k. k \<in> set ks \<Longrightarrow> unat (f k) + 4 \<le> b" "b \<le> unat pa"
  shows "fold (\<lambda>k m. store32 m (f k) (g k)) ks m pa = m pa"
  using assms(1)
proof (induction ks arbitrary: m)
  case (Cons k ks)
  then show ?case using store32_elsewhere [OF _ assms(2)] by simp
qed simp

lemma setup_page_high:
  assumes "0x102000 \<le> unat pa"
  shows "setup_page m pa = m pa"
proof -
  note el = store32_elsewhere [OF _ assms] and fl = fold_store32_elsewhere [OF _ assms]
  have dir: "unat (0x101000 + 770 * 4 + 4 * word_of_nat k :: u32) + 4 \<le> 0x102000" if "k \<in> set [0..<254]" for k
  proof -
    have "unat (4 * word_of_nat k :: u32) = 4 * k" using that by (simp add: unat_word_ariths unat_of_nat_u32)
    then show ?thesis using that by (subst unat_add_u32) simp_all
  qed
  have tab: "unat (0x100000 + 4 * word_of_nat k :: u32) + 4 \<le> 0x102000" if "k \<in> set [0..<256]" for k
  proof -
    have "unat (4 * word_of_nat k :: u32) = 4 * k" using that by (simp add: unat_word_ariths unat_of_nat_u32)
    then show ?thesis using that by (subst unat_add_u32) simp_all
  qed
  have f1: "fold (\<lambda>k m. store32 m (0x101000 + 770 * 4 + 4 * word_of_nat k) (g k)) [0..<254] m' pa = m' pa" for g m'
    by (rule fl) (rule dir)
  have f2: "fold (\<lambda>k m. store32 m (0x100000 + 4 * word_of_nat k) (g k)) [0..<256] m' pa = m' pa" for g m'
    by (rule fl) (rule tab)
  have "\<not> pa < 0x102000" using assms by (simp add: word_less_nat_alt)
  then have "store32 (store32 (store32 (zero_page 0x101000 m) (0x101000 + 0) x) (0x101000 + 768 * 4) y) (0x101000 + 769 * 4) z pa = m pa" for x y z
    by (simp add: el zero_page_def)
  then show ?thesis
    unfolding setup_page_def Let_def by (simp only: f1 f2)
qed

lemma kernel_table:
  assumes "kernel_layout s" "KERNEL_LOAD_VIRTUAL_ADDR \<le> va"
  shows "0x102000 \<le> unat (pte_addr s va)" "unat (pte_addr s va) + 4 \<le> 0x200000"
proof -
  have d: "770 \<le> unat (dir_index va)" using assms(2) by (simp add: word_le_nat_alt unat_indices)
  then have "boot_table (unat (dir_index va)) = Some (0x102 + (unat (dir_index va) - 770))"
    using index_bounds(1) [of va] by (simp add: boot_table_def)
  then show "0x102000 \<le> unat (pte_addr s va)" "unat (pte_addr s va) + 4 \<le> 0x200000"
    using layout_pde(1) [OF assms(1), of va] layout_pte_low [OF assms(1), of va] by auto
qed

text \<open>
  What the entries of the kernel's page tables hold after \<open>setup_page\<close> is what the memory held before;
  only if that is zero, no kernel address is mapped before its first use.
\<close>

theorem setup_page_tables_as_found:
  assumes "phys s = setup_page m" "dir_base s = KERNEL_PAGE_DIR_PHY" "KERNEL_LOAD_VIRTUAL_ADDR \<le> va"
  shows "pte s va = decode_pte (load32 m (pte_addr s va))"
    and "\<forall>a. 0x102000 \<le> unat a \<longrightarrow> unat a < 0x200000 \<longrightarrow> m a = 0 \<Longrightarrow> mmu s va = None"
proof -
  define b where "b = pte_addr s va"
  have l: "kernel_layout s" by (rule setup_page_kernel_layout [OF assms(1,2)])
  note t = kernel_table [OF l assms(3), folded b_def]
  have a: "unat (b + 1) = unat b + 1" "unat (b + 2) = unat b + 2" "unat (b + 3) = unat b + 3"
    using t by (simp_all add: unat_add_u32)
  have "load32 (setup_page m) b = load32 m b" using t a by (simp add: load32_def setup_page_high)
  then show e: "pte s va = decode_pte (load32 m (pte_addr s va))" by (simp add: pte_def assms(1) b_def)
  assume z: "\<forall>a. 0x102000 \<le> unat a \<longrightarrow> unat a < 0x200000 \<longrightarrow> m a = 0"
  then have "load32 m b = 0" using t a by (simp add: load32_def)
  then show "mmu s va = None" by (simp add: mmu_def e b_def [symmetric] decode_pte_def)
qed

end
