(* ===== verification/Ordered_array.thy ===== *)
theory Ordered_array
  imports Ram
begin

text \<open>
  \<open>08.kernel-mm/kernel/lib/ordered_array.c\<close>: an array of words kept in memory, in the order of a
  comparator. The comparator reads memory (the one of the heap reads the sizes in the block
  headers), so it takes the memory as an argument. \<open>elems\<close> is the list the array holds; the
  operations are insertion behind the elements not greater, and removal, on that list, and they
  write only inside the array.
\<close>

record ordered_array =
  oa_array :: u32
  oa_size :: u32
  oa_max_size :: u32
  oa_comparator :: "ram \<Rightarrow> u32 \<Rightarrow> u32 \<Rightarrow> u32"

definition standard_comparator :: "ram \<Rightarrow> u32 \<Rightarrow> u32 \<Rightarrow> u32" where
  "standard_comparator m a b = (if a < b then - 1 else if a = b then 0 else 1)"

definition ordered_array_create :: "u32 \<Rightarrow> u32 \<Rightarrow> (ram \<Rightarrow> u32 \<Rightarrow> u32 \<Rightarrow> u32) \<Rightarrow> ordered_array" where
  "ordered_array_create array max_size comparator =
     \<lparr>oa_array = array, oa_size = 0, oa_max_size = max_size, oa_comparator = comparator\<rparr>"

text \<open>The address of \<open>this->array[i]\<close>.\<close>

definition slot :: "ordered_array \<Rightarrow> u32 \<Rightarrow> u32" where
  "slot this i = oa_array this + 4 * i"

subsection \<open>Insertion\<close>

function insert_position :: "ordered_array \<Rightarrow> u32 \<Rightarrow> ram \<Rightarrow> u32 \<Rightarrow> u32" where
  "insert_position this item m iterator =
     (if iterator < oa_size this \<and> sint (oa_comparator this m (load32 m (slot this iterator)) item) \<le> 0
      then insert_position this item m (iterator + 1) else iterator)"
  by auto
termination
  by (relation "measure (\<lambda>(this, item, m, i). unat (oa_size this) - unat i)")
    (auto simp: unat_inc_u32 word_less_nat_alt)

declare insert_position.simps [simp del]

function shift_up :: "ordered_array \<Rightarrow> u32 \<Rightarrow> u32 \<Rightarrow> ram \<Rightarrow> ram" where
  "shift_up this iterator i m =
     (if iterator < i
      then shift_up this iterator (i - 1) (store32 m (slot this i) (load32 m (slot this (i - 1))))
      else m)"
  by auto
termination
  by (relation "measure (\<lambda>(this, k, i, m). unat i)") (auto simp: unat_dec_u32 word_less_nat_alt)

declare shift_up.simps [simp del]

text \<open>The result is the value returned, the array and the memory after the call.\<close>

definition ordered_array_insert :: "ordered_array \<Rightarrow> u32 \<Rightarrow> ram \<Rightarrow> u32 \<times> ordered_array \<times> ram" where
  "ordered_array_insert this item m =
     (if oa_size this \<ge> oa_max_size this then (0, this, m)
      else let iterator = insert_position this item m 0;
               this = this\<lparr>oa_size := oa_size this + 1\<rparr>;
               m = shift_up this iterator (oa_size this - 1) m
           in (1, this, store32 m (slot this iterator) item))"

definition ordered_array_get :: "ordered_array \<Rightarrow> u32 \<Rightarrow> ram \<Rightarrow> u32" where
  "ordered_array_get this i m = (if i \<ge> oa_size this then 0 else load32 m (slot this i))"

subsection \<open>Removal\<close>

function shift_down :: "ordered_array \<Rightarrow> u32 \<Rightarrow> ram \<Rightarrow> ram" where
  "shift_down this i m =
     (if i < oa_size this - 1
      then shift_down this (i + 1) (store32 m (slot this i) (load32 m (slot this (i + 1))))
      else m)"
  by auto
termination
  by (relation "measure (\<lambda>(this, i, m). unat (oa_size this - 1) - unat i)")
    (auto simp: unat_inc_u32 word_less_nat_alt)

declare shift_down.simps [simp del]

definition ordered_array_remove :: "ordered_array \<Rightarrow> u32 \<Rightarrow> ram \<Rightarrow> u32 \<times> ordered_array \<times> ram" where
  "ordered_array_remove this i m =
     (if i \<ge> oa_size this then (0, this, m)
      else (1, this\<lparr>oa_size := oa_size this - 1\<rparr>, shift_down this i m))"

function find_index :: "ordered_array \<Rightarrow> u32 \<Rightarrow> ram \<Rightarrow> u32 \<Rightarrow> u32" where
  "find_index this ele m i =
     (if i < oa_size this
      then if load32 m (slot this i) = ele then i else find_index this ele m (i + 1)
      else oa_size this)"
  by auto
termination
  by (relation "measure (\<lambda>(this, ele, m, i). unat (oa_size this) - unat i)")
    (auto simp: unat_inc_u32 word_less_nat_alt)

declare find_index.simps [simp del]

definition ordered_array_find_element :: "ordered_array \<Rightarrow> u32 \<Rightarrow> ram \<Rightarrow> u32" where
  "ordered_array_find_element this ele m = find_index this ele m 0"

definition ordered_array_remove_element :: "ordered_array \<Rightarrow> u32 \<Rightarrow> ram \<Rightarrow> u32 \<times> ordered_array \<times> ram" where
  "ordered_array_remove_element this ele m =
     (let index = find_index this ele m 0
      in if index = oa_size this then (0, this, m)
         else (1, this\<lparr>oa_size := oa_size this - 1\<rparr>, shift_down this index m))"

subsection \<open>The list an array holds\<close>

definition oa_ok :: "ordered_array \<Rightarrow> bool" where
  "oa_ok this \<longleftrightarrow> unat (oa_array this) + 4 * unat (oa_max_size this) \<le> 4294967296
     \<and> unat (oa_size this) \<le> unat (oa_max_size this)"

text \<open>The addresses of the first \<open>n\<close> slots.\<close>

definition oa_slots :: "ordered_array \<Rightarrow> nat \<Rightarrow> nat set" where
  "oa_slots this n = {unat (oa_array this)..<unat (oa_array this) + 4 * n}"

definition cell_at :: "ordered_array \<Rightarrow> ram \<Rightarrow> nat \<Rightarrow> u32" where
  "cell_at this m i = load32 m (slot this (word_of_nat i))"

definition elems :: "ordered_array \<Rightarrow> ram \<Rightarrow> u32 list" where
  "elems this m = map (cell_at this m) [0..<unat (oa_size this)]"

lemma length_elems [simp]: "length (elems this m) = unat (oa_size this)"
  by (simp add: elems_def)

lemma nth_elems [simp]: "i < unat (oa_size this) \<Longrightarrow> elems this m ! i = cell_at this m i"
  by (simp add: elems_def)

lemma slot_nat: "slot this (word_of_nat i) = word_of_nat (unat (oa_array this) + 4 * i)"
  by (simp add: slot_def)

lemma cell_at_unat: "load32 m (slot this i) = cell_at this m (unat i)"
  by (simp add: cell_at_def)

lemma cell_at_store:
  assumes "oa_ok this" "i < unat (oa_max_size this)" "j < unat (oa_max_size this)"
  shows "cell_at this (store32 m (slot this (word_of_nat i)) v) j = (if i = j then v else cell_at this m j)"
proof (cases "i = j")
  case False
  then have "unat (oa_array this) + 4 * i + 4 \<le> unat (oa_array this) + 4 * j \<or>
      unat (oa_array this) + 4 * j + 4 \<le> unat (oa_array this) + 4 * i" by linarith
  then show ?thesis
    unfolding cell_at_def slot_nat using assms False
    by (subst load32_store32_other) (auto simp: oa_ok_def)
qed (simp add: cell_at_def)

lemma store_slot_only_in:
  assumes "oa_ok this" "i < unat (oa_max_size this)" "oa_slots this (Suc i) \<subseteq> R" "only_in R m m'"
  shows "only_in R m (store32 m' (slot this (word_of_nat i)) v)"
  unfolding slot_nat using assms by (intro only_in_store32) (auto simp: oa_slots_def oa_ok_def)

lemma oa_slots_mono: "i \<le> j \<Longrightarrow> oa_slots this i \<subseteq> oa_slots this j"
  by (auto simp: oa_slots_def)

text \<open>Changing the size field moves no element.\<close>

lemma size_update_simps [simp]:
  "slot (this\<lparr>oa_size := n\<rparr>) = slot this"
  "cell_at (this\<lparr>oa_size := n\<rparr>) = cell_at this"
  "oa_slots (this\<lparr>oa_size := n\<rparr>) = oa_slots this"
  by (simp_all add: slot_def cell_at_def oa_slots_def fun_eq_iff)

lemma oa_ok_bounds:
  assumes "oa_ok this"
  shows "unat (oa_max_size this) \<le> 1073741824" "unat (oa_size this) \<le> unat (oa_max_size this)"
  using assms by (auto simp: oa_ok_def)


subsection \<open>The loops\<close>

lemma of_nat_pred: "0 < i \<Longrightarrow> (word_of_nat i :: u32) - 1 = word_of_nat (i - 1)"
  by (simp add: of_nat_diff)

lemma shift_up_spec:
  assumes "k < 4294967296" "oa_ok this" "i < unat (oa_max_size this)" "oa_slots this (Suc i) \<subseteq> R" "only_in R m0 m"
  shows "(\<forall>j < unat (oa_max_size this). cell_at this (shift_up this (word_of_nat k) (word_of_nat i) m) j =
      (if k < j \<and> j \<le> i then cell_at this m (j - 1) else cell_at this m j)) \<and>
    only_in R m0 (shift_up this (word_of_nat k) (word_of_nat i) m)"
  using assms(2-5)
proof (induction i arbitrary: m)
  case 0
  then show ?case by (simp add: shift_up.simps)
next
  case (Suc i)
  have b: "Suc i < 4294967296" using Suc.prems(2) unat_u32_bound [of "oa_max_size this"] by simp
  define m1 where "m1 = store32 m (slot this (word_of_nat (Suc i))) (cell_at this m i)"
  have st: "shift_up this (word_of_nat k) (word_of_nat (Suc i)) m =
      (if k < Suc i then shift_up this (word_of_nat k) (word_of_nat i) m1 else m)"
    using of_nat_u32_less_iff [OF assms(1) b] of_nat_pred [of "Suc i"]
    by (subst shift_up.simps) (simp add: m1_def cell_at_def del: of_nat_Suc)
  show ?case
  proof (cases "k < Suc i")
    case True
    have c1: "cell_at this m1 j = (if j = Suc i then cell_at this m i else cell_at this m j)"
      if "j < unat (oa_max_size this)" for j
      unfolding m1_def using cell_at_store [OF Suc.prems(1,2) that] by auto
    have r1: "only_in R m0 m1"
      unfolding m1_def by (rule store_slot_only_in [OF Suc.prems])
    have sub: "oa_slots this (Suc i) \<subseteq> R"
      using Suc.prems(3) oa_slots_mono [of "Suc i" "Suc (Suc i)" this] by simp
    from Suc.IH [OF Suc.prems(1) _ sub r1] Suc.prems(2) show ?thesis
      unfolding st using True by (auto simp: c1 le_Suc_eq)
  qed (use Suc.prems st in auto)
qed

lemma shift_down_spec:
  assumes "oa_ok this" "i < unat (oa_size this)" "only_in R m0 m" "oa_slots this (unat (oa_size this)) \<subseteq> R"
  shows "(\<forall>j < unat (oa_max_size this). cell_at this (shift_down this (word_of_nat i) m) j =
      (if i \<le> j \<and> j < unat (oa_size this) - 1 then cell_at this m (j + 1) else cell_at this m j)) \<and>
    only_in R m0 (shift_down this (word_of_nat i) m)"
  using assms(2,3)
proof (induction "unat (oa_size this) - 1 - i" arbitrary: i m)
  case 0
  have "unat (oa_size this - 1) = unat (oa_size this) - 1"
    using 0 by (intro unat_dec_u32 [of 0]) (simp add: word_less_nat_alt)
  moreover have "unat (word_of_nat i :: u32) = i"
    using 0 unat_u32_bound [of "oa_size this"] by (intro unat_of_nat_u32) simp
  moreover have "\<not> i < unat (oa_size this) - 1" using 0 by simp
  ultimately have "shift_down this (word_of_nat i) m = m"
    by (subst shift_down.simps) (simp add: word_less_nat_alt)
  then show ?case using 0 by auto
next
  case (Suc n)
  have mx: "Suc i < unat (oa_size this)" "unat (oa_size this) \<le> unat (oa_max_size this)"
    using Suc oa_ok_bounds [OF assms(1)] by simp_all
  have "unat (oa_size this - 1) = unat (oa_size this) - 1"
    using mx by (intro unat_dec_u32 [of 0]) (simp add: word_less_nat_alt)
  moreover have "unat (word_of_nat i :: u32) = i"
    using mx unat_u32_bound [of "oa_size this"] by (intro unat_of_nat_u32) simp
  moreover have "i < unat (oa_size this) - 1" using mx by simp
  moreover define m1 where "m1 = store32 m (slot this (word_of_nat i)) (cell_at this m (Suc i))"
  ultimately have st: "shift_down this (word_of_nat i) m = shift_down this (word_of_nat (Suc i)) m1"
    by (subst shift_down.simps) (simp add: word_less_nat_alt cell_at_def add.commute)
  have c1: "cell_at this m1 j = (if j = i then cell_at this m (Suc i) else cell_at this m j)"
    if "j < unat (oa_max_size this)" for j
    unfolding m1_def using cell_at_store [OF assms(1) _ that, of i m "cell_at this m (Suc i)"] mx by auto
  have "oa_slots this (Suc i) \<subseteq> R"
    using assms(4) oa_slots_mono [of "Suc i" "unat (oa_size this)" this] mx by simp
  then have r1: "only_in R m0 m1"
    unfolding m1_def using mx by (intro store_slot_only_in [OF assms(1) _ _ Suc.prems(2)]) simp_all
  have "n = unat (oa_size this) - 1 - Suc i" using Suc.hyps(2) by simp
  from Suc.hyps(1) [OF this mx(1) r1] show ?case
    unfolding st using mx by (auto simp: c1)
qed

lemma insert_position_spec:
  fixes this item m
  defines "P \<equiv> \<lambda>x. sint (oa_comparator this m x item) \<le> 0"
  assumes "i \<le> unat (oa_size this)"
  shows "unat (insert_position this item m (word_of_nat i)) =
    i + length (takeWhile P (drop i (elems this m)))"
  using assms(2)
proof (induction "unat (oa_size this) - i" arbitrary: i)
  case 0
  have "unat (word_of_nat i :: u32) = i"
    using 0 unat_u32_bound [of "oa_size this"] by (intro unat_of_nat_u32) simp
  with 0 show ?case by (simp add: insert_position.simps word_less_nat_alt)
next
  case (Suc n)
  then have i: "i < unat (oa_size this)" by simp
  have u: "unat (word_of_nat i :: u32) = i"
    using i unat_u32_bound [of "oa_size this"] by (intro unat_of_nat_u32) simp
  have d: "drop i (elems this m) = cell_at this m i # drop (Suc i) (elems this m)"
    using i by (simp add: Cons_nth_drop_Suc [symmetric])
  have st: "insert_position this item m (word_of_nat i) =
      (if P (cell_at this m i) then insert_position this item m (word_of_nat (Suc i)) else word_of_nat i)"
    using i u by (subst insert_position.simps) (simp add: word_less_nat_alt P_def cell_at_def add.commute)
  have "n = unat (oa_size this) - Suc i" using Suc.hyps(2) by simp
  from Suc.hyps(1) [OF this] i show ?case
    unfolding st d using u by simp
qed

lemma find_index_spec:
  assumes "i \<le> unat (oa_size this)"
  shows "unat (find_index this ele m (word_of_nat i)) =
    i + length (takeWhile (\<lambda>x. x \<noteq> ele) (drop i (elems this m)))"
  using assms
proof (induction "unat (oa_size this) - i" arbitrary: i)
  case 0
  have "unat (word_of_nat i :: u32) = i"
    using 0 unat_u32_bound [of "oa_size this"] by (intro unat_of_nat_u32) simp
  with 0 show ?case by (simp add: find_index.simps word_less_nat_alt)
next
  case (Suc n)
  then have i: "i < unat (oa_size this)" by simp
  have u: "unat (word_of_nat i :: u32) = i"
    using i unat_u32_bound [of "oa_size this"] by (intro unat_of_nat_u32) simp
  have d: "drop i (elems this m) = cell_at this m i # drop (Suc i) (elems this m)"
    using i by (simp add: Cons_nth_drop_Suc [symmetric])
  have st: "find_index this ele m (word_of_nat i) =
      (if cell_at this m i = ele then word_of_nat i else find_index this ele m (word_of_nat (Suc i)))"
    using i u by (subst find_index.simps) (simp add: word_less_nat_alt cell_at_def add.commute)
  have "n = unat (oa_size this) - Suc i" using Suc.hyps(2) by simp
  from Suc.hyps(1) [OF this] i show ?case
    unfolding st d using u by simp
qed


subsection \<open>The operations on the list\<close>

lemma elems_create [simp]: "elems (ordered_array_create a n cmp) m = []"
  by (simp add: elems_def ordered_array_create_def)

lemma ordered_array_get_elems:
  "i < oa_size this \<Longrightarrow> ordered_array_get this i m = elems this m ! unat i"
  by (simp add: ordered_array_get_def word_less_nat_alt cell_at_unat word_le_nat_alt)

lemma drop_length_takeWhile: "drop (length (takeWhile P xs)) xs = dropWhile P xs"
  by (simp add: dropWhile_eq_drop)

lemma ordered_array_insert_elems:
  fixes this item m
  defines "P \<equiv> \<lambda>x. sint (oa_comparator this m x item) \<le> 0"
  assumes ok: "oa_ok this" and room: "oa_size this < oa_max_size this"
  shows "\<exists>this' m'. ordered_array_insert this item m = (1, this', m') \<and>
    this' = this\<lparr>oa_size := oa_size this + 1\<rparr> \<and> oa_ok this' \<and>
    elems this' m' = takeWhile P (elems this m) @ item # dropWhile P (elems this m) \<and>
    only_in (oa_slots this (Suc (unat (oa_size this)))) m m'"
proof -
  define n where "n = unat (oa_size this)"
  define k where "k = length (takeWhile P (elems this m))"
  define this' where "this' = this\<lparr>oa_size := oa_size this + 1\<rparr>"
  have n1: "unat (oa_size this + 1) = Suc n" "n < unat (oa_max_size this)"
    using room by (auto simp: n_def unat_inc_u32 [OF room] word_less_nat_alt)
  have ok': "oa_ok this'" using ok n1 by (simp add: oa_ok_def this'_def)
  have kn: "k \<le> n" unfolding k_def n_def by (metis length_elems length_takeWhile_le)
  have ip: "insert_position this item m 0 = word_of_nat k"
    using insert_position_spec [of 0 this item m] by (simp add: k_def P_def word_unat_eq_iff unat_of_nat_u32
        le_less_trans [OF kn [unfolded n_def k_def P_def] unat_u32_bound])
  have k32: "k < 4294967296" using kn n1(2) unat_u32_bound [of "oa_max_size this"] by simp
  have top: "oa_size this' - 1 = word_of_nat n" by (simp add: this'_def n_def)
  define m1 where "m1 = shift_up this' (word_of_nat k) (word_of_nat n) m"
  define m2 where "m2 = store32 m1 (slot this' (word_of_nat k)) item"
  have run: "ordered_array_insert this item m = (1, this', m2)"
    using room top unfolding ordered_array_insert_def Let_def ip m2_def m1_def this'_def by (simp add: not_le)
  have mx: "oa_max_size this' = oa_max_size this" "oa_slots this' = oa_slots this" "cell_at this' = cell_at this"
    by (simp_all add: this'_def)
  have c: "\<forall>j < unat (oa_max_size this). cell_at this m1 j = (if k < j \<and> j \<le> n then cell_at this m (j - 1) else cell_at this m j)"
    "only_in (oa_slots this (Suc n)) m m1"
    using shift_up_spec [OF k32 ok', of n "oa_slots this (Suc n)" m m] n1(2) unfolding m1_def mx by simp_all
  have c2: "cell_at this m2 j = (if j = k then item else cell_at this m1 j)" if "j \<le> n" for j
    unfolding m2_def using cell_at_store [OF ok', of k j m1 item] that kn n1(2) unfolding mx by auto
  have "oa_slots this (Suc k) \<subseteq> oa_slots this (Suc n)" using kn by (intro oa_slots_mono) simp
  then have r2: "only_in (oa_slots this (Suc n)) m m2"
    unfolding m2_def using store_slot_only_in [OF ok', of k "oa_slots this (Suc n)" m m1 item] c(2) kn n1(2)
    unfolding mx by simp
  have "elems this' m2 = take k (elems this m) @ item # drop k (elems this m)"
  proof (rule nth_equalityI)
    show "length (elems this' m2) = length (take k (elems this m) @ item # drop k (elems this m))"
      using n1 kn by (simp add: this'_def n_def)
  next
    fix j assume "j < length (elems this' m2)"
    then have j: "j \<le> n" using n1 by (simp add: this'_def)
    then have "elems this' m2 ! j = cell_at this m2 j" using n1 by (simp add: this'_def)
    also have "\<dots> = (if j = k then item else if k < j then cell_at this m (j - 1) else cell_at this m j)"
      using c2 [OF j] c(1) j n1(2) by simp
    also have "\<dots> = (take k (elems this m) @ item # drop k (elems this m)) ! j"
      using j kn n1 by (auto simp: nth_append n_def nth_Cons')
    finally show "elems this' m2 ! j = (take k (elems this m) @ item # drop k (elems this m)) ! j" .
  qed
  then show ?thesis
    using run ok' r2 unfolding n_def k_def takeWhile_eq_take [symmetric] drop_length_takeWhile this'_def by blast
qed

lemma ordered_array_insert_full:
  "oa_max_size this \<le> oa_size this \<Longrightarrow> ordered_array_insert this item m = (0, this, m)"
  by (simp add: ordered_array_insert_def)

lemma shift_down_elems:
  fixes this m i
  assumes ok: "oa_ok this" and i: "i < unat (oa_size this)"
  defines "this' \<equiv> this\<lparr>oa_size := oa_size this - 1\<rparr>" and "m' \<equiv> shift_down this (word_of_nat i) m"
  shows "oa_ok this' \<and> elems this' m' = take i (elems this m) @ drop (Suc i) (elems this m) \<and>
    only_in (oa_slots this (unat (oa_size this))) m m'"
proof (intro conjI)
  have n1: "unat (oa_size this - 1) = unat (oa_size this) - 1"
    using i by (intro unat_dec_u32 [of 0]) (simp add: word_less_nat_alt)
  have mx: "unat (oa_size this) \<le> unat (oa_max_size this)" using ok by (simp add: oa_ok_def)
  show "oa_ok this'" using ok n1 mx by (auto simp: oa_ok_def this'_def)
  note c = shift_down_spec [OF ok i only_in_refl order_refl, of m]
  show "only_in (oa_slots this (unat (oa_size this))) m m'" using c by (simp add: m'_def)
  show "elems this' m' = take i (elems this m) @ drop (Suc i) (elems this m)"
  proof (rule nth_equalityI)
    show "length (elems this' m') = length (take i (elems this m) @ drop (Suc i) (elems this m))"
      using n1 i by (simp add: this'_def)
  next
    fix j assume "j < length (elems this' m')"
    then have j: "j < unat (oa_size this) - 1" using n1 by (simp add: this'_def)
    then have "elems this' m' ! j = cell_at this m' j" using n1 by (simp add: this'_def)
    also have "\<dots> = (if i \<le> j then cell_at this m (Suc j) else cell_at this m j)"
      using c j mx by (simp add: m'_def)
    also have "\<dots> = (take i (elems this m) @ drop (Suc i) (elems this m)) ! j"
      using j i by (auto simp: nth_append)
    finally show "elems this' m' ! j = (take i (elems this m) @ drop (Suc i) (elems this m)) ! j" .
  qed
qed


lemma ordered_array_remove_elems:
  assumes "oa_ok this" "i < oa_size this"
  shows "\<exists>this' m'. ordered_array_remove this i m = (1, this', m') \<and>
    this' = this\<lparr>oa_size := oa_size this - 1\<rparr> \<and> oa_ok this' \<and>
    elems this' m' = take (unat i) (elems this m) @ drop (Suc (unat i)) (elems this m) \<and>
    only_in (oa_slots this (unat (oa_size this))) m m'"
  using shift_down_elems [OF assms(1), of "unat i" m] assms(2)
  by (simp add: ordered_array_remove_def word_less_nat_alt word_le_nat_alt)

lemma length_takeWhile_member: "x \<in> set xs \<Longrightarrow> \<not> P x \<Longrightarrow> length (takeWhile P xs) < length xs"
  by (induction xs) auto

lemma find_index_elems:
  assumes "ele \<in> set (elems this m)"
  shows "unat (find_index this ele m 0) = length (takeWhile (\<lambda>x. x \<noteq> ele) (elems this m))"
    "find_index this ele m 0 < oa_size this"
proof -
  show f: "unat (find_index this ele m 0) = length (takeWhile (\<lambda>x. x \<noteq> ele) (elems this m))"
    using find_index_spec [of 0 this ele m] by simp
  have "length (takeWhile (\<lambda>x. x \<noteq> ele) (elems this m)) < length (elems this m)"
    by (rule length_takeWhile_member [OF assms]) simp
  then show "find_index this ele m 0 < oa_size this" using f by (simp add: word_less_nat_alt)
qed

lemma find_index_absent: "ele \<notin> set (elems this m) \<Longrightarrow> find_index this ele m 0 = oa_size this"
  using find_index_spec [of 0 this ele m]
  by (subst word_unat_eq_iff) (simp, metis (mono_tags, lifting) length_elems takeWhile_eq_all_conv)

lemma remove1_take_drop:
  "x \<in> set xs \<Longrightarrow> remove1 x xs =
     take (length (takeWhile (\<lambda>y. y \<noteq> x) xs)) xs @ drop (Suc (length (takeWhile (\<lambda>y. y \<noteq> x) xs))) xs"
  by (induction xs) auto

lemma find_element_spec:
  "ordered_array_find_element this ele m < oa_size this \<longleftrightarrow> ele \<in> set (elems this m)"
  unfolding ordered_array_find_element_def
  using find_index_elems(2) find_index_absent by (metis less_irrefl)

lemma remove_element_elems:
  assumes "oa_ok this" "ele \<in> set (elems this m)"
  shows "\<exists>this' m'. ordered_array_remove_element this ele m = (1, this', m') \<and>
    this' = this\<lparr>oa_size := oa_size this - 1\<rparr> \<and> oa_ok this' \<and>
    elems this' m' = remove1 ele (elems this m) \<and> only_in (oa_slots this (unat (oa_size this))) m m'"
proof -
  note f = find_index_elems [OF assms(2)]
  have n: "unat (find_index this ele m 0) < unat (oa_size this)" using f(2) by (simp add: word_less_nat_alt)
  have ne: "find_index this ele m 0 \<noteq> oa_size this" using f(2) by simp
  show ?thesis
    using shift_down_elems [OF assms(1) n, of m] ne
    unfolding remove1_take_drop [OF assms(2)] f(1) [symmetric]
    by (simp add: ordered_array_remove_element_def)
qed

lemma remove_element_absent:
  "ele \<notin> set (elems this m) \<Longrightarrow> ordered_array_remove_element this ele m = (0, this, m)"
  by (simp add: ordered_array_remove_element_def find_index_absent)

subsection \<open>The comparator interface\<close>

text \<open>
  What the array needs of a comparator: its answers are those of a key that each memory gives
  the elements. Then insertion keeps the elements in ascending order.
\<close>

locale key_comparator =
  fixes cmp :: "ram \<Rightarrow> u32 \<Rightarrow> u32 \<Rightarrow> u32"
    and key :: "ram \<Rightarrow> u32 \<Rightarrow> u32"
  assumes cmp_le: "sint (cmp m a b) \<le> 0 \<longleftrightarrow> key m a \<le> key m b"
begin

definition ascending :: "ram \<Rightarrow> u32 list \<Rightarrow> bool" where
  "ascending m xs \<longleftrightarrow> sorted (map (key m) xs)"

lemma insert_ascending:
  assumes "ascending m xs"
  shows "ascending m (takeWhile (\<lambda>x. sint (cmp m x item) \<le> 0) xs @ item # dropWhile (\<lambda>x. sint (cmp m x item) \<le> 0) xs)"
proof -
  have "key m item \<le> key m x" if "x \<in> set (dropWhile (\<lambda>x. key m x \<le> key m item) xs)" for x
    using assms that by (induction xs) (auto simp: ascending_def split: if_splits)
  moreover have "key m x \<le> key m item" if "x \<in> set (takeWhile (\<lambda>x. key m x \<le> key m item) xs)" for x
    using that set_takeWhileD by fastforce
  moreover have "sorted (map (key m) (takeWhile (\<lambda>x. key m x \<le> key m item) xs))"
    "sorted (map (key m) (dropWhile (\<lambda>x. key m x \<le> key m item) xs))"
    using assms by (simp_all add: ascending_def sorted_map sorted_wrt_takeWhile sorted_wrt_dropWhile)
  ultimately show ?thesis
    by (auto simp: ascending_def sorted_append cmp_le intro: order_trans)
qed

lemma ascending_remove1: "ascending m xs \<Longrightarrow> ascending m (remove1 x xs)"
  by (simp add: ascending_def sorted_map_remove1)

lemma ascending_cong: "\<forall>x \<in> set xs. key m' x = key m x \<Longrightarrow> ascending m' xs = ascending m xs"
  by (simp add: ascending_def cong: map_cong)

lemma array_insert_ascending:
  assumes "oa_ok this" "oa_size this < oa_max_size this" "oa_comparator this = cmp" "ascending m (elems this m)"
    "ordered_array_insert this item m = (r, this', m')"
  shows "r = 1 \<and> ascending m (elems this' m') \<and> mset (elems this' m') = add_mset item (mset (elems this m))"
proof -
  have "mset (takeWhile P (elems this m)) + mset (dropWhile P (elems this m)) = mset (elems this m)" for P
    by (simp only: mset_append [symmetric] takeWhile_dropWhile_id)
  then show ?thesis
    using ordered_array_insert_elems [OF assms(1,2), of item m] insert_ascending [OF assms(4), of item] assms(3,5)
    by (auto simp: add.commute)
qed

end

lemma standard_comparator_le: "sint (standard_comparator m a b) \<le> 0 \<longleftrightarrow> a \<le> b"
  by (auto simp: standard_comparator_def)

interpretation standard: key_comparator standard_comparator "\<lambda>m x. x"
  by unfold_locales (rule standard_comparator_le)

end
