(* ===== verification/Locks.thy ===== *)
theory Locks
  imports Machine
begin

text \<open>
  \<open>08.kernel-mm/kernel/sync\<close>: the atomic primitives of \<open>lock.S\<close>, the spin lock of \<open>spinlock.c\<close>
  and the yield lock of \<open>yieldlock.c\<close>. A primitive takes the word in memory and returns the value
  of EAX and the new word; the busy-wait loops are partial functions whose value is \<open>None\<close> when
  they spin for ever.

  The second part puts several threads and the interrupt flag of the single processor into a
  step relation: mutual exclusion under any interleaving, the exact restoration of the interrupt
  flag, and the deadlock that the two ways of locking can run into together.
\<close>

subsection \<open>Atomic primitives\<close>

definition atomic_exchange :: "u32 \<Rightarrow> u32 \<Rightarrow> u32 \<times> u32" where
  "atomic_exchange dst src = (dst, src)"

definition compare_and_exchange :: "u32 \<Rightarrow> u32 \<Rightarrow> u32 \<Rightarrow> u32 \<times> u32" where
  "compare_and_exchange ptr expected newval = (if ptr = expected then (1, newval) else (0, ptr))"

definition atomic_fetch_add :: "u32 \<Rightarrow> u32 \<Rightarrow> u32 \<times> u32" where
  "atomic_fetch_add ptr addend = (ptr, ptr + addend)"

definition atomic_inc :: "u32 \<Rightarrow> u32 \<times> u32" where
  "atomic_inc ptr = (let (eax, ptr) = atomic_fetch_add ptr 1 in (eax + 1, ptr))"

definition atomic_dec :: "u32 \<Rightarrow> u32 \<times> u32" where
  "atomic_dec ptr = (let (eax, ptr) = atomic_fetch_add ptr (- 1) in (eax - 1, ptr))"

definition get_eflags :: "'a machine_scheme \<Rightarrow> u32" where
  "get_eflags s = eflags s"

definition set_eflags :: "u32 \<Rightarrow> 'a machine_scheme \<Rightarrow> 'a machine_scheme" where
  "set_eflags v s = s\<lparr>eflags := v\<rparr>"

definition cpu_cli :: "'a machine_scheme \<Rightarrow> 'a machine_scheme" where
  "cpu_cli s = s\<lparr>eflags := eflags s AND NOT (push_bit 9 1)\<rparr>"

definition cpu_sti :: "'a machine_scheme \<Rightarrow> 'a machine_scheme" where
  "cpu_sti s = s\<lparr>eflags := eflags s OR push_bit 9 1\<rparr>"

definition cpu_save_flags_and_cli :: "'a machine_scheme \<Rightarrow> u32 \<times> 'a machine_scheme" where
  "cpu_save_flags_and_cli s = (eflags s, cpu_cli s)"

subsection \<open>The two locks\<close>

definition LOCKED_YES :: u32 where [simp]: "LOCKED_YES = 1"
definition LOCKED_NO :: u32 where [simp]: "LOCKED_NO = 0"

record yieldlock =
  lock :: u32

record spinlock = yieldlock +
  interrupt_mask :: u32

definition yieldlock_init :: "yieldlock \<Rightarrow> yieldlock" where
  "yieldlock_init splock = splock\<lparr>lock := LOCKED_NO\<rparr>"

partial_function (option) yieldlock_lock :: "yieldlock \<Rightarrow> yieldlock option" where
  "yieldlock_lock splock =
     (let (eax, v) = atomic_exchange (lock splock) LOCKED_YES; splock = splock\<lparr>lock := v\<rparr>
      in if eax \<noteq> LOCKED_NO then yieldlock_lock splock else Some splock)"

definition yieldlock_trylock :: "yieldlock \<Rightarrow> bool \<times> yieldlock" where
  "yieldlock_trylock splock =
     (let (eax, v) = atomic_exchange (lock splock) LOCKED_YES
      in (eax = LOCKED_NO, splock\<lparr>lock := v\<rparr>))"

definition yieldlock_unlock :: "yieldlock \<Rightarrow> yieldlock" where
  "yieldlock_unlock splock = splock\<lparr>lock := LOCKED_NO\<rparr>"

definition spinlock_init :: "spinlock \<Rightarrow> spinlock" where
  "spinlock_init splock = splock\<lparr>lock := LOCKED_NO, interrupt_mask := 0\<rparr>"

partial_function (option) spinlock_lock :: "spinlock \<Rightarrow> spinlock option" where
  "spinlock_lock splock =
     (let (eax, v) = atomic_exchange (lock splock) LOCKED_YES; splock = splock\<lparr>lock := v\<rparr>
      in if eax \<noteq> LOCKED_NO then spinlock_lock splock else Some splock)"

definition spinlock_lock_irqsave ::
  "spinlock \<Rightarrow> 'a machine_scheme \<Rightarrow> (spinlock \<times> 'a machine_scheme) option" where
  "spinlock_lock_irqsave splock s =
     (let fl = get_eflags s;
          s = disable_interrupts s;
          splock = splock\<lparr>interrupt_mask := fl AND push_bit 9 1\<rparr>
      in map_option (\<lambda>splock. (splock, s)) (spinlock_lock splock))"

definition spinlock_unlock :: "spinlock \<Rightarrow> spinlock" where
  "spinlock_unlock splock = splock\<lparr>lock := LOCKED_NO\<rparr>"

definition spinlock_unlock_irqrestore ::
  "spinlock \<Rightarrow> 'a machine_scheme \<Rightarrow> spinlock \<times> 'a machine_scheme" where
  "spinlock_unlock_irqrestore splock s =
     (let splock = splock\<lparr>lock := LOCKED_NO\<rparr>
      in (splock, if interrupt_mask splock \<noteq> 0 then enable_interrupts s else s))"

subsection \<open>The lock interface\<close>

text \<open>
  What a caller relies on: a free lock is acquired, a held one is waited for (for ever, as long
  as nobody else runs), and after a release the lock is free again.
\<close>

locale mutex =
  fixes init :: "'l \<Rightarrow> 'l"
    and acquire :: "'l \<Rightarrow> 'l option"
    and release :: "'l \<Rightarrow> 'l"
    and free :: "'l \<Rightarrow> bool"
  assumes init_free: "free (init l)"
    and acquire_free: "free l \<Longrightarrow> \<exists>l'. acquire l = Some l' \<and> \<not> free l'"
    and acquire_held: "\<not> free l \<Longrightarrow> acquire l = None"
    and release_free: "free (release l)"
begin

lemma acquire_iff: "(\<exists>l'. acquire l = Some l') \<longleftrightarrow> free l"
  using acquire_free acquire_held by (metis option.distinct(1))

lemma acquire_SomeD: "acquire l = Some l' \<Longrightarrow> free l \<and> \<not> free l'"
  using acquire_free acquire_held by (metis option.distinct(1) option.inject)

lemma acquire_twice: "acquire l = Some l' \<Longrightarrow> acquire l' = None"
  using acquire_SomeD [of l l'] acquire_held [of l'] by blast

lemma reacquire: "\<exists>l'. acquire (release l) = Some l' \<and> acquire (init l) \<noteq> None"
  using acquire_iff release_free init_free by (metis option.distinct(1))

end

text \<open>A lock that can also be tried: the attempt never waits, and a failed one changes nothing for the holder.\<close>

locale try_mutex = mutex init acquire release free
  for init :: "'l \<Rightarrow> 'l" and acquire :: "'l \<Rightarrow> 'l option" and release :: "'l \<Rightarrow> 'l" and free :: "'l \<Rightarrow> bool" +
  fixes attempt :: "'l \<Rightarrow> bool \<times> 'l"
  assumes attempt_free: "free l \<Longrightarrow> acquire l = Some l' \<Longrightarrow> attempt l = (True, l')"
    and attempt_held: "\<not> free l \<Longrightarrow> \<exists>l'. attempt l = (False, l') \<and> \<not> free l'"
begin

lemma attempt_iff: "attempt l = (True, l') \<longleftrightarrow> acquire l = Some l'"
proof (cases "free l")
  case True
  then obtain l1 where "acquire l = Some l1" using acquire_free by blast
  with attempt_free [OF True this] show ?thesis by auto
next
  case False
  with attempt_held [OF False] acquire_held [OF False] show ?thesis by auto
qed

lemma attempt_holds: "\<not> free (snd (attempt l))"
proof (cases "free l")
  case True
  then obtain l1 where "acquire l = Some l1" "\<not> free l1" using acquire_free by blast
  with attempt_free [OF True this(1)] show ?thesis by simp
next
  case False
  with attempt_held [OF False] show ?thesis by auto
qed

end

lemma yieldlock_lock_free:
  "lock l = LOCKED_NO \<Longrightarrow> yieldlock_lock l = Some (l\<lparr>lock := LOCKED_YES\<rparr>)"
  by (subst yieldlock_lock.simps) (simp add: atomic_exchange_def)

lemma yieldlock_lock_SomeD: "yieldlock_lock l = Some l' \<Longrightarrow> lock l = LOCKED_NO"
  by (erule yieldlock_lock.raw_induct [rotated])
    (force simp: atomic_exchange_def Let_def split: if_splits)

lemma spinlock_lock_free:
  "lock l = LOCKED_NO \<Longrightarrow> spinlock_lock l = Some (l\<lparr>lock := LOCKED_YES\<rparr>)"
  by (subst spinlock_lock.simps) (simp add: atomic_exchange_def)

lemma spinlock_lock_SomeD: "spinlock_lock l = Some l' \<Longrightarrow> lock l = LOCKED_NO"
  by (erule spinlock_lock.raw_induct [rotated])
    (force simp: atomic_exchange_def Let_def split: if_splits)

interpretation yieldmutex: mutex yieldlock_init yieldlock_lock yieldlock_unlock "\<lambda>l. lock l = LOCKED_NO"
proof
  show "lock l \<noteq> LOCKED_NO \<Longrightarrow> yieldlock_lock l = None" for l
    using yieldlock_lock_SomeD [of l] by (cases "yieldlock_lock l") auto
qed (simp_all add: yieldlock_init_def yieldlock_lock_free yieldlock_unlock_def)

interpretation yieldtry: try_mutex yieldlock_init yieldlock_lock yieldlock_unlock "\<lambda>l. lock l = LOCKED_NO" yieldlock_trylock
proof
  fix l
  show "yieldlock_trylock l = (True, l')" if "lock l = LOCKED_NO" "yieldlock_lock l = Some l'" for l'
    using that by (simp add: yieldlock_lock_free yieldlock_trylock_def atomic_exchange_def)
  show "\<exists>l'. yieldlock_trylock l = (False, l') \<and> lock l' \<noteq> LOCKED_NO" if "lock l \<noteq> LOCKED_NO"
    using that by (simp add: yieldlock_trylock_def atomic_exchange_def)
qed

text \<open>\<open>yieldlock_trylock\<close> succeeds exactly when \<open>yieldlock_lock\<close> would return, with the same lock; either way the lock is held.\<close>

theorem yieldlock_trylock_lock:
  "(yieldlock_trylock l = (True, l') \<longleftrightarrow> yieldlock_lock l = Some l') \<and> lock (snd (yieldlock_trylock l)) \<noteq> LOCKED_NO"
  using yieldtry.attempt_iff [of l l'] yieldtry.attempt_holds [of l] by blast

interpretation spinmutex: mutex spinlock_init spinlock_lock spinlock_unlock "\<lambda>l. lock l = LOCKED_NO"
proof
  show "lock l \<noteq> LOCKED_NO \<Longrightarrow> spinlock_lock l = None" for l
    using spinlock_lock_SomeD [of l] by (cases "spinlock_lock l") auto
qed (simp_all add: spinlock_init_def spinlock_lock_free spinlock_unlock_def)

text \<open>The interrupt flag after an uncontended critical section is the one before it.\<close>

lemma bit_IF [simp]: "bit (512 :: u32) n \<longleftrightarrow> n = 9"
proof -
  have "(512 :: u32) = push_bit 9 1" by simp
  then show ?thesis by (simp only: bit_push_bit_iff) (auto simp: bit_1_iff)
qed

lemma u32_eq_iff: "(x :: u32) = y \<longleftrightarrow> (\<forall>n < 32. bit x n \<longleftrightarrow> bit y n)"
  by (auto intro: bit_word_eqI)

lemma eflags_restore [simp]:
  "(fl AND - 513) OR 512 = (fl :: u32) \<longleftrightarrow> bit fl 9"
  "fl AND - 513 = (fl :: u32) \<longleftrightarrow> \<not> bit fl 9"
  "fl AND 512 = (0 :: u32) \<longleftrightarrow> \<not> bit fl 9"
proof -
  have not_IF: "(- 513 :: u32) = NOT 512" by simp
  show "(fl AND - 513) OR 512 = fl \<longleftrightarrow> bit fl 9" "fl AND - 513 = fl \<longleftrightarrow> \<not> bit fl 9"
    "fl AND 512 = 0 \<longleftrightarrow> \<not> bit fl 9"
    unfolding not_IF u32_eq_iff bit_or_iff bit_and_iff bit_not_iff bit_IF
    by (auto dest: spec [of _ 9])
qed

theorem irqsave_irqrestore:
  assumes "lock l = LOCKED_NO"
  shows "\<exists>l' s'. spinlock_lock_irqsave l s = Some (l', s') \<and> \<not> interrupts_enabled s' \<and>
    lock l' = LOCKED_YES \<and> snd (spinlock_unlock_irqrestore l' s') = s \<and>
    lock (fst (spinlock_unlock_irqrestore l' s')) = LOCKED_NO"
proof -
  have "spinlock_lock_irqsave l s = Some (l\<lparr>interrupt_mask := eflags s AND push_bit 9 1, lock := LOCKED_YES\<rparr>,
      disable_interrupts s)"
    using assms by (simp add: spinlock_lock_irqsave_def Let_def spinlock_lock_free get_eflags_def)
  then show ?thesis
    by (simp add: spinlock_unlock_irqrestore_def Let_def enable_interrupts_def disable_interrupts_def
        interrupts_enabled_def bit_and_iff)
qed

subsection \<open>Several threads on one processor\<close>

text \<open>
  A thread is idle, in \<open>spinlock_lock\<close> or its critical section, or at one of the statements of
  \<open>spinlock_lock_irqsave\<close> and \<open>spinlock_unlock_irqrestore\<close>; there it carries the interrupt flag
  it found on entry. Only the current thread runs, and another becomes current only while
  interrupts are enabled. The first argument of the step relation says whether threads use the
  variant without interrupt control as well.
\<close>

datatype pc =
    Idle
  | Plain_spin
  | Plain_crit
  | Irq_got bool
  | Irq_cli bool
  | Irq_spin bool
  | Irq_crit bool
  | Irq_freed bool

record threads =
  pcs :: "nat \<Rightarrow> pc"
  running :: nat
  ifl :: bool
  spl :: spinlock

definition goto :: "pc \<Rightarrow> threads \<Rightarrow> threads" where
  "goto p s = s\<lparr>pcs := (pcs s)(running s := p)\<rparr>"

inductive lock_step :: "bool \<Rightarrow> threads \<Rightarrow> threads \<Rightarrow> bool" where
  preempt: "ifl s \<Longrightarrow> lock_step mixed s (s\<lparr>running := t\<rparr>)"
| plain_enter: "mixed \<Longrightarrow> pcs s (running s) = Idle \<Longrightarrow> lock_step mixed s (goto Plain_spin s)"
| plain_xchg:
    "pcs s (running s) = Plain_spin \<Longrightarrow> atomic_exchange (lock (spl s)) LOCKED_YES = (eax, v) \<Longrightarrow>
     lock_step mixed s (goto (if eax \<noteq> LOCKED_NO then Plain_spin else Plain_crit)
                     (s\<lparr>spl := (spl s)\<lparr>lock := v\<rparr>\<rparr>))"
| plain_unlock:
    "pcs s (running s) = Plain_crit \<Longrightarrow>
     lock_step mixed s (goto Idle (s\<lparr>spl := (spl s)\<lparr>lock := LOCKED_NO\<rparr>\<rparr>))"
| irq_get: "pcs s (running s) = Idle \<Longrightarrow> lock_step mixed s (goto (Irq_got (ifl s)) s)"
| irq_cli:
    "pcs s (running s) = Irq_got b \<Longrightarrow> lock_step mixed s (goto (Irq_cli b) (s\<lparr>ifl := False\<rparr>))"
| irq_mask:
    "pcs s (running s) = Irq_cli b \<Longrightarrow>
     lock_step mixed s (goto (Irq_spin b) (s\<lparr>spl := (spl s)\<lparr>interrupt_mask := (if b then push_bit 9 1 else 0)\<rparr>\<rparr>))"
| irq_xchg:
    "pcs s (running s) = Irq_spin b \<Longrightarrow> atomic_exchange (lock (spl s)) LOCKED_YES = (eax, v) \<Longrightarrow>
     lock_step mixed s (goto (if eax \<noteq> LOCKED_NO then Irq_spin b else Irq_crit b)
                     (s\<lparr>spl := (spl s)\<lparr>lock := v\<rparr>\<rparr>))"
| irq_unlock:
    "pcs s (running s) = Irq_crit b \<Longrightarrow>
     lock_step mixed s (goto (Irq_freed b) (s\<lparr>spl := (spl s)\<lparr>lock := LOCKED_NO\<rparr>\<rparr>))"
| irq_restore:
    "pcs s (running s) = Irq_freed b \<Longrightarrow>
     lock_step mixed s (goto Idle (s\<lparr>ifl := (if interrupt_mask (spl s) \<noteq> 0 then True else ifl s)\<rparr>))"

definition threads_start :: "threads \<Rightarrow> bool" where
  "threads_start s \<longleftrightarrow> pcs s = (\<lambda>t. Idle) \<and> lock (spl s) = LOCKED_NO"

inductive lock_reach :: "bool \<Rightarrow> threads \<Rightarrow> bool" for mixed where
  reach_start: "threads_start s \<Longrightarrow> lock_reach mixed s"
| reach_step: "lock_reach mixed s \<Longrightarrow> lock_step mixed s s' \<Longrightarrow> lock_reach mixed s'"

definition in_crit :: "pc \<Rightarrow> bool" where
  "in_crit p \<longleftrightarrow> p = Plain_crit \<or> (\<exists>b. p = Irq_crit b)"

lemma in_crit_simps [simp]:
  "\<not> in_crit Idle" "\<not> in_crit Plain_spin" "in_crit Plain_crit" "\<not> in_crit (Irq_got b)"
  "\<not> in_crit (Irq_cli b)" "\<not> in_crit (Irq_spin b)" "in_crit (Irq_crit b)" "\<not> in_crit (Irq_freed b)"
  by (simp_all add: in_crit_def)

lemma goto_simps [simp]:
  "pcs (goto p s) = (pcs s)(running s := p)" "running (goto p s) = running s" "ifl (goto p s) = ifl s"
  "spl (goto p s) = spl s"
  by (simp_all add: goto_def)

text \<open>Mutual exclusion: whoever is in its critical section is alone there, and the lock is held.\<close>

definition exclusive :: "threads \<Rightarrow> bool" where
  "exclusive s \<longleftrightarrow> (\<forall>t. in_crit (pcs s t) \<longrightarrow> lock (spl s) \<noteq> LOCKED_NO
     \<and> (\<forall>u. in_crit (pcs s u) \<longrightarrow> u = t))"

lemma exclusive_step: "lock_step mixed s s' \<Longrightarrow> exclusive s \<Longrightarrow> exclusive s'"
  by (induction rule: lock_step.induct) (auto simp: exclusive_def atomic_exchange_def split: if_splits)

lemma reach_exclusive: "lock_reach mixed s \<Longrightarrow> exclusive s"
proof (induction rule: lock_reach.induct)
  case (reach_start s)
  then show ?case by (simp add: threads_start_def exclusive_def)
qed (rule exclusive_step)

text \<open>C21: In every interleaving of threads on one processor that use the spinlock with or without
  interrupt control, at most one thread is between taking and releasing the lock.\<close>

theorem spinlock_mutual_exclusion:
  "lock_reach mixed s \<Longrightarrow> in_crit (pcs s t) \<Longrightarrow> in_crit (pcs s u) \<Longrightarrow> t = u"
  using reach_exclusive [of mixed s] by (auto simp: exclusive_def)

text \<open>
  When every thread uses the \<open>irqsave\<close> variant: a thread between \<open>cli\<close> and the restoration is the
  current one and interrupts are off, the shared mask is its own, and the lock is free when it
  tries to take it.
\<close>

definition irq_ok :: "threads \<Rightarrow> bool" where
  "irq_ok s \<longleftrightarrow>
     (\<forall>t. t \<noteq> running s \<longrightarrow> pcs s t = Idle \<or> pcs s t = Irq_got True) \<and>
     (case pcs s (running s) of
        Idle \<Rightarrow> lock (spl s) = LOCKED_NO
      | Irq_got b \<Rightarrow> ifl s = b \<and> lock (spl s) = LOCKED_NO
      | Irq_cli b \<Rightarrow> \<not> ifl s \<and> lock (spl s) = LOCKED_NO
      | Irq_spin b \<Rightarrow> \<not> ifl s \<and> lock (spl s) = LOCKED_NO \<and> (interrupt_mask (spl s) \<noteq> 0 \<longleftrightarrow> b)
      | Irq_crit b \<Rightarrow> \<not> ifl s \<and> lock (spl s) = LOCKED_YES \<and> (interrupt_mask (spl s) \<noteq> 0 \<longleftrightarrow> b)
      | Irq_freed b \<Rightarrow> \<not> ifl s \<and> lock (spl s) = LOCKED_NO \<and> (interrupt_mask (spl s) \<noteq> 0 \<longleftrightarrow> b)
      | Plain_spin \<Rightarrow> False
      | Plain_crit \<Rightarrow> False)"

inductive_cases lock_stepE: "lock_step mixed s s'"

lemma irq_ok_preempt:
  assumes "irq_ok s" "ifl s"
  shows "irq_ok (s\<lparr>running := t\<rparr>)"
proof -
  have "pcs s (running s) = Idle \<or> pcs s (running s) = Irq_got True" "lock (spl s) = LOCKED_NO"
    using assms by (auto simp: irq_ok_def split: pc.splits)
  moreover have "u \<noteq> running s \<Longrightarrow> pcs s u = Idle \<or> pcs s u = Irq_got True" for u
    using assms(1) by (simp add: irq_ok_def)
  ultimately have all: "pcs s u = Idle \<or> pcs s u = Irq_got True" for u
    by (cases "u = running s") auto
  then show ?thesis
    using all [of t] assms(2) \<open>lock (spl s) = LOCKED_NO\<close>
    by (elim disjE) (simp_all add: irq_ok_def)
qed

lemma irq_ok_step: "lock_step False s s' \<Longrightarrow> irq_ok s \<Longrightarrow> irq_ok s'"
proof (erule lock_stepE)
  show "irq_ok s'" if "irq_ok s" "ifl s" "s' = s\<lparr>running := t\<rparr>" for t
    using that irq_ok_preempt by simp
qed (auto simp: irq_ok_def atomic_exchange_def split: pc.splits if_splits)

lemma reach_irq_ok: "lock_reach False s \<Longrightarrow> irq_ok s"
proof (induction rule: lock_reach.induct)
  case (reach_start s)
  then show ?case by (simp add: threads_start_def irq_ok_def)
qed (rule irq_ok_step)

text \<open>C25: When every thread takes the lock with spinlock_lock_irqsave, the lock is free whenever
  a thread reaches the exchange, so that it never spins.\<close>

theorem irqsave_never_spins:
  "lock_reach False s \<Longrightarrow> pcs s (running s) = Irq_spin b \<Longrightarrow> lock (spl s) = LOCKED_NO"
  using reach_irq_ok [of s] by (simp add: irq_ok_def)

theorem irqrestore_exact:
  "lock_reach False s \<Longrightarrow> pcs s (running s) = Irq_freed b \<Longrightarrow> lock_step False s s' \<Longrightarrow> pcs s' (running s) = Idle \<Longrightarrow>
   running s' = running s \<and> ifl s' = b"
  using reach_irq_ok [of s]
  by (elim lock_stepE) (auto simp: irq_ok_def split: if_splits)

text \<open>
  With both variants in use: a thread that holds the lock with interrupts enabled is preempted by
  one that takes it with interrupts disabled, and that one spins for ever.
\<close>

definition stuck :: "threads \<Rightarrow> bool" where
  "stuck s \<longleftrightarrow> \<not> ifl s \<and> lock (spl s) = LOCKED_YES \<and> (\<exists>b. pcs s (running s) = Irq_spin b)"

lemma stuck_step: "lock_step mixed s s' \<Longrightarrow> stuck s \<Longrightarrow> stuck s' \<and> running s' = running s"
  by (erule lock_stepE) (auto simp: stuck_def atomic_exchange_def)

lemma stuck_forever: "(lock_step mixed)\<^sup>*\<^sup>* s s' \<Longrightarrow> stuck s \<Longrightarrow> stuck s' \<and> running s' = running s"
  by (induction rule: rtranclp_induct) (auto dest: stuck_step)


end
