(* ===== verification/Kheap.thy ===== *)
theory Kheap
  imports Ordered_array Vmm Locks
begin

text \<open>
  \<open>08.kernel-mm/kernel/mem/kheap.c\<close>: the kernel heap. Blocks lie one behind the other in memory,
  each with a 9-byte header (magic, hole flag, size) and an 8-byte footer (magic, header
  address); the holes are indexed by an ordered array, by ascending size. The functions work on
  the static \<open>kheap\<close>, the only heap of the kernel.

  Memory is \<open>mem\<close>, the kernel's virtual memory as it is behind the page fault handler, which
  maps a page of unknown content at the first access or panics.
\<close>

subsection \<open>Data\<close>

definition KHEAP_START :: u32 where "KHEAP_START = 0xC0C00000"
definition KHEAP_MIN_SIZE :: u32 where "KHEAP_MIN_SIZE = 0x300000"
definition KHEAP_MAX :: u32 where "KHEAP_MAX = 0xE0000000"
definition KHEAP_INDEX_NUM :: u32 where "KHEAP_INDEX_NUM = 0x20000"
definition KHEAP_MAGIC :: u32 where "KHEAP_MAGIC = 0x12345678"
definition HEADER_SIZE :: u32 where [simp]: "HEADER_SIZE = 9"
definition FOOTER_SIZE :: u32 where [simp]: "FOOTER_SIZE = 8"
definition BLOCK_META_SIZE :: u32 where [simp]: "BLOCK_META_SIZE = 17"
definition IS_HOLE :: u8 where [simp]: "IS_HOLE = 1"
definition NOT_HOLE :: u8 where [simp]: "NOT_HOLE = 0"

record kheap_t =
  kh_index :: ordered_array
  kh_start_address :: u32
  kh_end_address :: u32
  kh_size :: u32
  kh_max_address :: u32
  kh_supervisor :: u8
  kh_readonly :: u8

record kheap_state = vmm_state +
  kheap :: kheap_t
  kheap_lock :: yieldlock

text \<open>The packed structures \<open>kheap_block_header_t\<close> and \<open>kheap_block_footer_t\<close>.\<close>

definition header_magic :: "ram \<Rightarrow> u32 \<Rightarrow> u32" where "header_magic m h = load32 m h"
definition header_is_hole :: "ram \<Rightarrow> u32 \<Rightarrow> u8" where "header_is_hole m h = m (h + 4)"
definition header_size :: "ram \<Rightarrow> u32 \<Rightarrow> u32" where "header_size m h = load32 m (h + 5)"
definition footer_magic :: "ram \<Rightarrow> u32 \<Rightarrow> u32" where "footer_magic m f = load32 m f"
definition footer_header :: "ram \<Rightarrow> u32 \<Rightarrow> u32" where "footer_header m f = load32 m (f + 4)"

definition align_to_page :: "u32 \<Rightarrow> u32" where
  "align_to_page num = (if num AND 0xFFF \<noteq> 0 then (num AND 0xFFFFF000) + of_nat PAGE_SIZE else num)"

subsection \<open>Assertions and the index of the heap\<close>

definition kheap_assert ::
  "bool \<Rightarrow> string \<Rightarrow> nat \<Rightarrow> 'a kheap_state_scheme \<Rightarrow> ('a kheap_state_scheme, 'a kheap_state_scheme) outcome" where
  "kheap_assert condition func line s = ASSERT condition ''kernel/mem/kheap.c'' func line s"

definition index_insert :: "u32 \<Rightarrow> 'a kheap_state_scheme \<Rightarrow> u32 \<times> 'a kheap_state_scheme" where
  "index_insert item s =
     (let (r, index, m) = ordered_array_insert (kh_index (kheap s)) item (mem s)
      in (r, s\<lparr>mem := m, kheap := (kheap s)\<lparr>kh_index := index\<rparr>\<rparr>))"

definition index_remove :: "u32 \<Rightarrow> 'a kheap_state_scheme \<Rightarrow> u32 \<times> 'a kheap_state_scheme" where
  "index_remove i s =
     (let (r, index, m) = ordered_array_remove (kh_index (kheap s)) i (mem s)
      in (r, s\<lparr>mem := m, kheap := (kheap s)\<lparr>kh_index := index\<rparr>\<rparr>))"

definition index_remove_element :: "u32 \<Rightarrow> 'a kheap_state_scheme \<Rightarrow> u32 \<times> 'a kheap_state_scheme" where
  "index_remove_element ele s =
     (let (r, index, m) = ordered_array_remove_element (kh_index (kheap s)) ele (mem s)
      in (r, s\<lparr>mem := m, kheap := (kheap s)\<lparr>kh_index := index\<rparr>\<rparr>))"

subsection \<open>Blocks\<close>

definition kheap_expand ::
  "u32 \<Rightarrow> 'a kheap_state_scheme \<Rightarrow> ('a kheap_state_scheme, u32 \<times> 'a kheap_state_scheme) outcome" where
  "kheap_expand expand_size s =
     (let s = printk ''kheap expand size = %d, end_address = %p, max_address = %p \<newline>''
                [Word expand_size, Word (kh_end_address (kheap s)), Word (kh_max_address (kheap s))] s;
          expand_size = align_to_page expand_size
      in if expand_size \<le> 0 then Inr (0, s)
         else let new_end = kh_end_address (kheap s) + expand_size
              in seq_bind (kheap_assert (new_end \<le> kh_max_address (kheap s)) ''kheap_expand'' 36 s)
                   (\<lambda>s. Inr (expand_size, s\<lparr>kheap := (kheap s)\<lparr>kh_end_address := new_end,
                              kh_size := kh_size (kheap s) + expand_size\<rparr>\<rparr>)))"

definition kheap_contract :: "u32 \<Rightarrow> 'a kheap_state_scheme \<Rightarrow> u32 \<times> 'a kheap_state_scheme" where
  "kheap_contract contract_size s =
     (let contract_size = align_to_page contract_size
      in if contract_size \<le> 0 then (0, s)
         else let new_size = kh_size (kheap s) - contract_size;
                  new_size = (if new_size < KHEAP_MIN_SIZE then KHEAP_MIN_SIZE else new_size)
              in (new_size, s\<lparr>kheap := (kheap s)\<lparr>kh_size := new_size,
                              kh_end_address := kh_start_address (kheap s) + new_size\<rparr>\<rparr>))"

definition make_block ::
  "u32 \<Rightarrow> u32 \<Rightarrow> u8 \<Rightarrow> 'a kheap_state_scheme \<Rightarrow> ('a kheap_state_scheme, u32 \<times> 'a kheap_state_scheme) outcome" where
  "make_block start sz is_hole s =
     seq_bind (kheap_assert (sz > 0) ''make_block'' 63 s) (\<lambda>s.
       let end = start + sz + BLOCK_META_SIZE;
           m = store32 (mem s) start KHEAP_MAGIC;
           m = store32 m (start + 5) sz;
           m = store8 m (start + 4) is_hole;
           block_footer = end - FOOTER_SIZE;
           m = store32 m block_footer KHEAP_MAGIC;
           m = store32 m (block_footer + 4) start
       in Inr (start, s\<lparr>mem := m\<rparr>))"

definition kheap_block_comparator :: "ram \<Rightarrow> u32 \<Rightarrow> u32 \<Rightarrow> u32" where
  "kheap_block_comparator m x y =
     (let size1 = header_size m x; size2 = header_size m y
      in if size1 < size2 then - 1 else if size1 = size2 then 0 else 1)"

definition create_kheap ::
  "u32 \<Rightarrow> u32 \<Rightarrow> u32 \<Rightarrow> u8 \<Rightarrow> u8 \<Rightarrow> 'a kheap_state_scheme \<Rightarrow>
   ('a kheap_state_scheme, kheap_t \<times> 'a kheap_state_scheme) outcome" where
  "create_kheap start end max_addr supervisor readonly s =
     seq_bind (kheap_assert (start AND 0xFFF = 0) ''create_kheap'' 89 s) (\<lambda>s.
     seq_bind (kheap_assert (end AND 0xFFF = 0) ''create_kheap'' 90 s) (\<lambda>s.
       let index = ordered_array_create start KHEAP_INDEX_NUM kheap_block_comparator;
           start = start + 4 * KHEAP_INDEX_NUM;
           kh = \<lparr>kh_index = index, kh_start_address = start, kh_end_address = end, kh_size = end - start,
                 kh_max_address = max_addr, kh_supervisor = supervisor, kh_readonly = readonly\<rparr>
       in seq_bind (make_block start (end - start - BLOCK_META_SIZE) IS_HOLE s) (\<lambda>(_, s).
            let (_, index, m) = ordered_array_insert (kh_index kh) start (mem s)
            in Inr (kh\<lparr>kh_index := index\<rparr>, s\<lparr>mem := m\<rparr>))))"

subsection \<open>Allocation\<close>

text \<open>
  The inner loop of \<open>find_hole\<close> leaves at the latest in its second round: one page on, the
  distance from \<open>start\<close> is above \<open>BLOCK_META_SIZE\<close>.
\<close>

lemma aligned_fit_step: "\<not> (17 :: u32) < d \<Longrightarrow> 17 < d + 4096"
proof -
  assume "\<not> 17 < d"
  then have "unat d \<le> 17" by (simp add: word_less_nat_alt)
  then show ?thesis by (simp add: word_less_nat_alt unat_add_u32)
qed

function aligned_fit :: "u32 \<Rightarrow> u32 \<Rightarrow> u32 \<Rightarrow> u32 \<Rightarrow> u32 option" where
  "aligned_fit start sz end next_page_align =
     (if next_page_align + sz \<le> end
      then if next_page_align - start > BLOCK_META_SIZE then Some next_page_align
           else aligned_fit start sz end (next_page_align + of_nat PAGE_SIZE)
      else None)"
  by auto
termination
proof (relation "measure (\<lambda>(start, sz, e, next). if next - start > 17 then 0 else 1)", goal_cases)
  case (2 start sz e n)
  then have "n + 4096 - start > 17" using aligned_fit_step [of "n - start"] by (simp add: algebra_simps)
  with 2 show ?case by simp
qed simp

declare aligned_fit.simps [simp del]

text \<open>\<open>find_hole\<close>: the position in the index and the address, or \<open>None\<close> for its -1.\<close>

function find_hole_from :: "kheap_t \<Rightarrow> ram \<Rightarrow> u32 \<Rightarrow> u8 \<Rightarrow> u32 \<Rightarrow> (u32 \<times> u32) option" where
  "find_hole_from this m sz page_align i =
     (if i < oa_size (kh_index this) then
        let header = ordered_array_get (kh_index this) i m;
            start = header + HEADER_SIZE
        in if page_align \<noteq> 0 then
             (case aligned_fit start sz (start + header_size m header) (align_to_page start) of
                Some alloc_pos \<Rightarrow> Some (i, alloc_pos)
              | None \<Rightarrow> find_hole_from this m sz page_align (i + 1))
           else if header_size m header \<ge> sz then Some (i, start)
           else find_hole_from this m sz page_align (i + 1)
      else None)"
  by auto
termination
  by (relation "measure (\<lambda>(this, m, sz, al, i). unat (oa_size (kh_index this)) - unat i)")
    (auto simp: unat_inc_u32 word_less_nat_alt)

declare find_hole_from.simps [simp del]

definition find_hole :: "u32 \<Rightarrow> u8 \<Rightarrow> 'a kheap_state_scheme \<Rightarrow> (u32 \<times> u32) option" where
  "find_hole sz page_align s = find_hole_from (kheap s) (mem s) sz page_align 0"

text \<open>The branch of \<open>alloc\<close> without a fitting hole: the heap grows, and the new room joins the
  last block when that is a hole.\<close>

definition alloc_grow :: "u32 \<Rightarrow> 'a kheap_state_scheme \<Rightarrow> ('a kheap_state_scheme, 'a kheap_state_scheme) outcome" where
  "alloc_grow sz s =
     (let old_end_address = kh_end_address (kheap s)
      in seq_bind (kheap_expand (sz + BLOCK_META_SIZE) s) (\<lambda>(extended_size, s).
           let last_header = footer_header (mem s) (old_end_address - FOOTER_SIZE)
           in if header_is_hole (mem s) last_header \<noteq> 0 then
                seq_bind (make_block last_header (header_size (mem s) last_header + extended_size) IS_HOLE s)
                  (\<lambda>(_, s). let (remove, s) = index_remove_element last_header s
                     in seq_bind (kheap_assert (remove \<noteq> 0) ''alloc'' 170 s)
                          (\<lambda>s. Inr (snd (index_insert last_header s))))
              else
                seq_bind (make_block old_end_address (extended_size - BLOCK_META_SIZE) IS_HOLE s)
                  (\<lambda>(new_last_header, s). Inr (snd (index_insert new_last_header s)))))"

text \<open>The page-aligned case: the front of the hole is cut off as a hole of its own. The result is
  the header of the rest and its size.\<close>

definition cut_front ::
  "u32 \<Rightarrow> u32 \<Rightarrow> u32 \<Rightarrow> u8 \<Rightarrow> 'a kheap_state_scheme \<Rightarrow>
   ('a kheap_state_scheme, u32 \<times> u32 \<times> 'a kheap_state_scheme) outcome" where
  "cut_front alloc_pos header block_size page_align s =
     (let alloc_block_header = alloc_pos - HEADER_SIZE
      in if page_align \<noteq> 0 \<and> alloc_block_header > header then
           let cut_block_size = alloc_block_header - header
           in seq_bind (kheap_assert (cut_block_size > BLOCK_META_SIZE) ''alloc'' 197 s) (\<lambda>s.
              seq_bind (make_block header (cut_block_size - BLOCK_META_SIZE) IS_HOLE s) (\<lambda>(_, s).
                Inr (alloc_block_header, block_size - cut_block_size, snd (index_insert header s))))
         else Inr (header, block_size, s))"

definition use_block ::
  "u32 \<Rightarrow> u32 \<Rightarrow> u32 \<Rightarrow> 'a kheap_state_scheme \<Rightarrow> ('a kheap_state_scheme, 'a kheap_state_scheme) outcome" where
  "use_block header block_size sz s =
     seq_bind (kheap_assert (block_size \<ge> sz) ''alloc'' 206 s) (\<lambda>s.
       let remain_size = block_size - sz;
           (sz, remain_size) = (if remain_size \<le> BLOCK_META_SIZE then (block_size, 0) else (sz, remain_size))
       in seq_bind (make_block header sz NOT_HOLE s) (\<lambda>(_, s).
            if remain_size > 0 then
              seq_bind (kheap_assert (remain_size > BLOCK_META_SIZE) ''alloc'' 219 s) (\<lambda>s.
              seq_bind (make_block (header + BLOCK_META_SIZE + sz) (remain_size - BLOCK_META_SIZE) IS_HOLE s)
                (\<lambda>(remain_hole_header, s). Inr (snd (index_insert remain_hole_header s))))
            else Inr s))"

definition alloc_use ::
  "u32 \<Rightarrow> u32 \<Rightarrow> u32 \<Rightarrow> u8 \<Rightarrow> 'a kheap_state_scheme \<Rightarrow> ('a kheap_state_scheme, u32 \<times> 'a kheap_state_scheme) outcome" where
  "alloc_use iterator alloc_pos sz page_align s =
     (let header = ordered_array_get (kh_index (kheap s)) iterator (mem s)
      in seq_bind (kheap_assert (header_magic (mem s) header = KHEAP_MAGIC) ''alloc'' 186 s) (\<lambda>s.
           let block_size = header_size (mem s) header;
               s = snd (index_remove iterator s)
           in seq_bind (cut_front alloc_pos header block_size page_align s) (\<lambda>(header, block_size, s).
              seq_bind (use_block header block_size sz s) (\<lambda>s. Inr (alloc_pos, s)))))"

text \<open>\<open>None\<close> is a call that does not return: \<open>alloc\<close> calls itself after every expansion.\<close>

partial_function (option) alloc ::
  "u32 \<Rightarrow> u8 \<Rightarrow> 'a kheap_state_scheme \<Rightarrow> ('a kheap_state_scheme, u32 \<times> 'a kheap_state_scheme) outcome option" where
  "alloc sz page_align s =
     (case kheap_assert (sz > 0) ''alloc'' 152 s of
        Inl p \<Rightarrow> Some (Inl p)
      | Inr s \<Rightarrow>
          (case find_hole sz page_align s of
             None \<Rightarrow> (case alloc_grow sz s of Inl p \<Rightarrow> Some (Inl p) | Inr s \<Rightarrow> alloc sz page_align s)
           | Some (iterator, alloc_pos) \<Rightarrow> Some (alloc_use iterator alloc_pos sz page_align s)))"

subsection \<open>Release\<close>

definition merge_right ::
  "u32 \<Rightarrow> u32 \<Rightarrow> 'a kheap_state_scheme \<Rightarrow> ('a kheap_state_scheme, 'a kheap_state_scheme) outcome" where
  "merge_right header footer s =
     (let right_header = footer + FOOTER_SIZE
      in if header_magic (mem s) right_header = KHEAP_MAGIC \<and> header_is_hole (mem s) right_header \<noteq> 0 then
           seq_bind (make_block header
              (header_size (mem s) header + header_size (mem s) right_header + BLOCK_META_SIZE) IS_HOLE s)
             (\<lambda>(_, s). let (remove, s) = index_remove_element right_header s
                in kheap_assert (remove \<noteq> 0) ''free'' 251 s)
         else Inr s)"

text \<open>The result is the header of the merged hole.\<close>

definition merge_left ::
  "u32 \<Rightarrow> 'a kheap_state_scheme \<Rightarrow> ('a kheap_state_scheme, u32 \<times> 'a kheap_state_scheme) outcome" where
  "merge_left header s =
     (let left_footer = header - FOOTER_SIZE
      in if footer_magic (mem s) left_footer = KHEAP_MAGIC
            \<and> header_is_hole (mem s) (footer_header (mem s) left_footer) = 1 then
           let left_header = footer_header (mem s) left_footer
           in seq_bind (make_block left_header
                (header_size (mem s) left_header + header_size (mem s) header + BLOCK_META_SIZE) IS_HOLE s)
                (\<lambda>(_, s). let (remove, s) = index_remove_element left_header s
                   in seq_bind (kheap_assert (remove \<noteq> 0) ''free'' 261 s) (\<lambda>s. Inr (left_header, s)))
         else Inr (header, s))"

definition free :: "u32 \<Rightarrow> 'a kheap_state_scheme \<Rightarrow> ('a kheap_state_scheme, 'a kheap_state_scheme) outcome" where
  "free ptr s =
     (if ptr = 0 then Inr s
      else
        let header = ptr - HEADER_SIZE;
            footer = ptr + header_size (mem s) header
        in seq_bind (kheap_assert (header_magic (mem s) header = KHEAP_MAGIC) ''free'' 238 s) (\<lambda>s.
           seq_bind (kheap_assert (footer_magic (mem s) footer = KHEAP_MAGIC) ''free'' 239 s) (\<lambda>s.
             let s = s\<lparr>mem := store8 (mem s) (header + 4) 1\<rparr>
             in seq_bind (merge_right header footer s) (\<lambda>s.
                seq_bind (merge_left header s) (\<lambda>(new_hole, s). Inr (snd (index_insert new_hole s)))))))"

subsection \<open>The interface of the kernel\<close>

definition init_kheap :: "'a kheap_state_scheme \<Rightarrow> ('a kheap_state_scheme, 'a kheap_state_scheme) outcome" where
  "init_kheap s =
     (let s = s\<lparr>kheap_lock := yieldlock_init (kheap_lock s)\<rparr>
      in seq_bind (create_kheap KHEAP_START (KHEAP_START + KHEAP_MIN_SIZE) KHEAP_MAX 0 0 s)
           (\<lambda>(kh, s). Inr (s\<lparr>kheap := kh\<rparr>)))"

text \<open>An operation that may fail to return: \<open>None\<close> when it does not.\<close>

type_synonym ('s, 'a) run = "('s, 'a) outcome option"

definition run_bind :: "('s, 'a) run \<Rightarrow> ('a \<Rightarrow> ('s, 'b) run) \<Rightarrow> ('s, 'b) run" where
  "run_bind r k = (case r of None \<Rightarrow> None | Some (Inl p) \<Rightarrow> Some (Inl p) | Some (Inr x) \<Rightarrow> k x)"

lemma run_bind_simps [simp]:
  "run_bind None k = None" "run_bind (Some (Inl p)) k = Some (Inl p)" "run_bind (Some (Inr x)) k = k x"
  by (simp_all add: run_bind_def)

definition kmalloc_impl ::
  "u32 \<Rightarrow> u8 \<Rightarrow> 'a kheap_state_scheme \<Rightarrow> ('a kheap_state_scheme, u32 \<times> 'a kheap_state_scheme) run" where
  "kmalloc_impl sz align s =
     (if sz = 0 then Some (Inr (0, s))
      else run_bind (alloc sz align s) (\<lambda>(ptr, s).
             if ptr = 0 then Some (kernel_panic ''kernel/mem/kheap.c'' ''kmalloc_impl'' 327 s)
             else Some (Inr (ptr, s))))"

definition lock_kheap :: "'a kheap_state_scheme \<Rightarrow> 'a kheap_state_scheme option" where
  "lock_kheap s = map_option (\<lambda>l. s\<lparr>kheap_lock := l\<rparr>) (yieldlock_lock (kheap_lock s))"

definition unlock_kheap :: "'a kheap_state_scheme \<Rightarrow> 'a kheap_state_scheme" where
  "unlock_kheap s = s\<lparr>kheap_lock := yieldlock_unlock (kheap_lock s)\<rparr>"

definition kmalloc :: "u32 \<Rightarrow> 'a kheap_state_scheme \<Rightarrow> ('a kheap_state_scheme, u32 \<times> 'a kheap_state_scheme) run" where
  "kmalloc sz s =
     (case lock_kheap s of
        None \<Rightarrow> None
      | Some s \<Rightarrow> run_bind (kmalloc_impl sz 0 s) (\<lambda>(ptr, s). Some (Inr (ptr, unlock_kheap s))))"

definition kmalloc_aligned ::
  "u32 \<Rightarrow> 'a kheap_state_scheme \<Rightarrow> ('a kheap_state_scheme, u32 \<times> 'a kheap_state_scheme) run" where
  "kmalloc_aligned sz s =
     (case lock_kheap s of
        None \<Rightarrow> None
      | Some s \<Rightarrow> run_bind (kmalloc_impl sz 1 s) (\<lambda>(ptr, s). Some (Inr (ptr, unlock_kheap s))))"

definition kfree :: "u32 \<Rightarrow> 'a kheap_state_scheme \<Rightarrow> ('a kheap_state_scheme, 'a kheap_state_scheme) run" where
  "kfree ptr s =
     (if ptr = 0 then Some (Inr s)
      else (case lock_kheap s of
              None \<Rightarrow> None
            | Some s \<Rightarrow> run_bind (Some (free ptr s)) (\<lambda>s. Some (Inr (unlock_kheap s)))))"

subsection \<open>Validation\<close>

definition print_block :: "string \<Rightarrow> u32 \<Rightarrow> 'a kheap_state_scheme \<Rightarrow> 'a kheap_state_scheme" where
  "print_block fmt header s =
     printk fmt [Word header, Word (header + header_size (mem s) header + BLOCK_META_SIZE),
                 Word (header_size (mem s) header)] s"

text \<open>The loop of \<open>kheap_validate_print\<close>, with its counters of holes and of allocated blocks.\<close>

partial_function (option) validate_loop ::
  "u8 \<Rightarrow> u32 \<Rightarrow> u32 \<Rightarrow> u32 \<Rightarrow> 'a kheap_state_scheme \<Rightarrow> ('a kheap_state_scheme, u32 \<times> u32 \<times> 'a kheap_state_scheme) run"
where
  "validate_loop print start hole_num alloc_num s =
     (if start < kh_end_address (kheap s) then
        let header = start;
            is_hole = header_is_hole (mem s) header \<noteq> 0;
            checked = seq_bind (kheap_assert (header_magic (mem s) header = KHEAP_MAGIC) ''kheap_validate_print'' 281 s)
              (\<lambda>s. if is_hole then
                 kheap_assert (ordered_array_find_element (kh_index (kheap s)) header (mem s) < oa_size (kh_index (kheap s)))
                   ''kheap_validate_print'' 284 s else Inr s);
            printed = seq_bind checked (\<lambda>s. Inr (if print = 0 then s else if is_hole
              then print_block ''[]--- start:%x end:%x size: %d\<newline>'' header s
              else print_block ''      start:%x end:%x size: %d\<newline>'' header s));
            next_start = start + (header_size (mem s) header + BLOCK_META_SIZE)
        in (case seq_bind printed (\<lambda>s. kheap_assert (next_start \<le> kh_end_address (kheap s)) ''kheap_validate_print'' 302 s) of
              Inl p \<Rightarrow> Some (Inl p)
            | Inr s \<Rightarrow> validate_loop print next_start (if is_hole then hole_num + 1 else hole_num)
                        (if is_hole then alloc_num else alloc_num + 1) s)
      else Some (Inr (hole_num, alloc_num, s)))"

definition kheap_validate_print ::
  "u8 \<Rightarrow> 'a kheap_state_scheme \<Rightarrow> ('a kheap_state_scheme, u32 \<times> 'a kheap_state_scheme) run" where
  "kheap_validate_print print s =
     (let s = (if print \<noteq> 0
               then printk ''*************************** kheap *****************************\<newline>'' [] s else s)
      in run_bind (validate_loop print (kh_start_address (kheap s)) 0 0 s) (\<lambda>(hole_num, alloc_num, s).
           let s = (if print \<noteq> 0
                    then printk ''***************************************************************\<newline>'' [] s else s)
           in Some (seq_bind (kheap_assert (hole_num = oa_size (kh_index (kheap s))) ''kheap_validate_print'' 308 s)
                (\<lambda>s. Inr (alloc_num, s)))))"

end
