(* ===== verification/Paged_memory.thy ===== *)
theory Paged_memory
  imports Paging Kheap
begin

text \<open>
  The heap's area of the address space as a memory: loads and stores of the processor through the
  page tables, with the page fault handler behind them, behave as loads and stores of one flat
  memory. The model of the heap (theory \<open>Kheap\<close> and the theories after it) is over that memory.
\<close>

datatype access = Load u32 | Store u32 u8

primrec access_addr :: "access \<Rightarrow> u32" where
  "access_addr (Load va) = va"
| "access_addr (Store va v) = va"

text \<open>The flat memory: the byte that is loaded or stored, and the memory afterwards.\<close>

primrec flat_access :: "access \<Rightarrow> ram \<Rightarrow> u8 \<times> ram" where
  "flat_access (Load va) m = (m va, m)"
| "flat_access (Store va v) m = (v, m(va := v))"

fun flat_run :: "access list \<Rightarrow> ram \<Rightarrow> u8 list \<times> ram" where
  "flat_run [] m = ([], m)"
| "flat_run (a # as) m = (let (v, m) = flat_access a m; (vs, m) = flat_run as m in (v # vs, m))"

text \<open>The processor: the fault, if there is one, then the access to the physical address.\<close>

definition phys_access :: "access \<Rightarrow> u32 \<Rightarrow> 'a vmm_state_scheme \<Rightarrow> u8 \<times> 'a vmm_state_scheme" where
  "phys_access a pa s =
     (case a of Load va \<Rightarrow> (phys s pa, s) | Store va v \<Rightarrow> (v, s\<lparr>phys := (phys s)(pa := v)\<rparr>))"

definition paged_access ::
  "interrupt_frame \<Rightarrow> access \<Rightarrow> 'a vmm_state_scheme \<Rightarrow> (u8 \<times> 'a vmm_state_scheme) option" where
  "paged_access frame a s =
     (case touch frame (access_addr a) s of
        Some (Inr s) \<Rightarrow> map_option (\<lambda>pa. phys_access a pa s) (mmu s (access_addr a))
      | _ \<Rightarrow> None)"

fun paged_run :: "interrupt_frame \<Rightarrow> access list \<Rightarrow> 'a vmm_state_scheme \<Rightarrow> (u8 list \<times> 'a vmm_state_scheme) option" where
  "paged_run frame [] s = Some ([], s)"
| "paged_run frame (a # as) s =
     (case paged_access frame a s of
        None \<Rightarrow> None
      | Some (v, s) \<Rightarrow> map_option (\<lambda>(vs, s). (v # vs, s)) (paged_run frame as s))"

definition heap_area :: "u32 \<Rightarrow> bool" where
  "heap_area va \<longleftrightarrow> KHEAP_START \<le> va \<and> va < KHEAP_MAX"

text \<open>Mapped pages of the area have frames of their own, outside the page tables and the pool.\<close>

definition private_area :: "'a vmm_state_scheme \<Rightarrow> bool" where
  "private_area s \<longleftrightarrow>
     (\<forall>va pa. heap_area va \<longrightarrow> mmu s va = Some pa \<longrightarrow> 0x200000 \<le> unat pa \<and> frame_no pa \<notin> pmm_avail s) \<and>
     (\<forall>va vb pa pb. heap_area va \<longrightarrow> heap_area vb \<longrightarrow> mmu s va = Some pa \<longrightarrow> mmu s vb = Some pb \<longrightarrow>
        drop_bit 12 va \<noteq> drop_bit 12 vb \<longrightarrow> frame_no pa \<noteq> frame_no pb)"

text \<open>The flat memory has the bytes of the mapped pages; elsewhere it is not determined yet.\<close>

definition shows_memory :: "'a vmm_state_scheme \<Rightarrow> ram \<Rightarrow> bool" where
  "shows_memory s m \<longleftrightarrow> (\<forall>va pa. heap_area va \<longrightarrow> mmu s va = Some pa \<longrightarrow> m va = phys s pa)"

lemma avail_high: "p \<in> pmm_avail s \<Longrightarrow> 512 \<le> p"
  by (simp add: pmm_avail_def allocatable_def)

lemma area_kernel: "heap_area va \<Longrightarrow> KERNEL_LOAD_VIRTUAL_ADDR \<le> va"
  by (simp add: heap_area_def KHEAP_START_def word_le_nat_alt)

lemma private_area_grown:
  assumes "private_area s" "privately_grown s t"
  shows "private_area t"
  unfolding private_area_def
proof (intro conjI allI impI)
  note P = assms(1) [unfolded private_area_def] and G = privately_grownD [OF assms(2)]
  have fate: "mmu s va = Some pa \<and> 0x200000 \<le> unat pa \<and> frame_no pa \<notin> pmm_avail s \<or>
      mmu s va = None \<and> 0x200000 \<le> unat pa \<and> frame_no pa \<in> pmm_avail s \<and> frame_no pa \<notin> pmm_avail t"
    if "heap_area va" "mmu t va = Some pa" for va pa
  proof (cases "mmu s va")
    case None
    from G(3) [OF None that(2)] have "frame_no pa \<in> pmm_avail s" "frame_no pa \<notin> pmm_avail t" by auto
    with avail_high [OF this(1)] None show ?thesis by (simp add: frame_no_def)
  next
    case (Some qa)
    then show ?thesis using G(2) [OF Some] that P by auto
  qed
  fix va vb pa pb assume a: "heap_area va"
  show "0x200000 \<le> unat pa" "frame_no pa \<notin> pmm_avail t" if "mmu t va = Some pa"
    using fate [OF a that] G(1) by auto
  assume b: "heap_area vb" and m: "mmu t va = Some pa" "mmu t vb = Some pb" and d: "drop_bit 12 va \<noteq> drop_bit 12 vb"
  show "frame_no pa \<noteq> frame_no pb"
    using fate [OF a m(1)] fate [OF b m(2)]
  proof (elim disjE conjE)
    assume "mmu s va = Some pa" "mmu s vb = Some pb"
    then show ?thesis using P a b d by blast
  next
    assume "mmu s va = None" "mmu s vb = None"
    then show ?thesis using G(4) m d by blast
  qed auto
qed

subsection \<open>Physical stores and the page tables\<close>

lemma load32_low:
  assumes "unat a + 4 \<le> 0x200000" "0x200000 \<le> unat pa"
  shows "load32 (m(pa := v)) a = load32 m a"
proof -
  have "unat (a + 1) = unat a + 1" "unat (a + 2) = unat a + 2" "unat (a + 3) = unat a + 3"
    using assms by (simp_all add: unat_add_u32)
  then have "a \<noteq> pa" "a + 1 \<noteq> pa" "a + 2 \<noteq> pa" "a + 3 \<noteq> pa" using assms by auto
  then show ?thesis by (simp add: load32_def)
qed

lemma phys_store_paging:
  fixes s :: "'a vmm_state_scheme" and v
  assumes "paging_ok s" "0x200000 \<le> unat pa"
  defines "t \<equiv> s\<lparr>phys := (phys s)(pa := v)\<rparr>"
  shows "mmu t = mmu s" "paging_ok t" "pmm_avail t = pmm_avail s"
proof -
  have l: "kernel_layout s" "tlb_coherent s" "pmm_ok s" using assms(1) by (simp_all add: paging_ok_def)
  have pde_addr: "pde_addr t va = pde_addr s va" for va by (simp add: t_def pde_addr_def)
  have "unat (pde_addr s va) + 4 \<le> 0x200000" for va
    using layout_pde(2) [OF l(1), of va] index_bounds(1) [of va] by simp
  then have pde: "pde t va = pde s va" for va
    using load32_low [OF _ assms(2)] by (simp add: pde_def pde_addr) (simp add: t_def)
  then have pte_addr: "pte_addr t va = pte_addr s va" for va by (simp add: pte_addr_def)
  have pte: "pte t va = pte s va" if "present (pde s va)" for va
    using load32_low [OF layout_pte_low [OF l(1) that] assms(2)] by (simp add: pte_def pte_addr) (simp add: t_def)
  show m: "mmu t = mmu s" by (rule ext) (auto simp: mmu_def pde pte)
  have "load32 (phys t) (KERNEL_PAGE_DIR_PHY + 4 * of_nat i) = load32 (phys s) (KERNEL_PAGE_DIR_PHY + 4 * of_nat i)"
    if "i < 1024" for i
  proof -
    have "unat (4 * word_of_nat i :: u32) = 4 * i" using that by (simp add: unat_word_ariths unat_of_nat_u32)
    then have "unat (KERNEL_PAGE_DIR_PHY + 4 * of_nat i) + 4 \<le> 0x200000" using that by (simp add: unat_add_u32)
    from load32_low [OF this assms(2)] show ?thesis by (simp add: t_def)
  qed
  then have "kernel_layout t" using l(1) by (simp add: kernel_layout_def) (simp add: t_def dir_base_def)
  moreover have "tlb_coherent t" using l(2) by (simp add: tlb_coherent_def m) (simp add: t_def)
  moreover have "pmm_ok t" using l(3) by (simp add: t_def pmm_ok_def counted_def free_set_def used_def)
  ultimately show "paging_ok t" by (simp add: paging_ok_def)
  show "pmm_avail t = pmm_avail s" by (simp add: t_def pmm_avail_def allocatable_def used_def)
qed

lemma private_area_cong: "mmu t = mmu s \<Longrightarrow> pmm_avail t = pmm_avail s \<Longrightarrow> private_area t = private_area s"
  by (simp add: private_area_def)

lemma private_area_inj:
  assumes "private_area s" "heap_area va" "heap_area vb" "va \<noteq> vb" "mmu s va = Some pa" "mmu s vb = Some pb"
  shows "pa \<noteq> pb"
proof (cases "drop_bit 12 va = drop_bit 12 vb")
  case True
  obtain f where pa: "pa = f + (va AND 0xFFF)" using assms(5) by (auto simp: mmu_def split: if_splits)
  have pb: "pb = f + (vb AND 0xFFF)" using mmu_same_page(2) [OF True [symmetric], of s f] assms(5,6) pa by simp
  have "unat (drop_bit 12 va) = unat (drop_bit 12 vb)" by (rule arg_cong [OF True])
  then have "unat va div 4096 = unat vb div 4096"
    by (simp only: unat_drop_bit_eq) (simp only: drop_bit_eq_div, simp)
  moreover have "unat va \<noteq> unat vb" using assms(4) by (simp add: word_unat_eq_iff)
  ultimately have "unat va mod 4096 \<noteq> unat vb mod 4096" by (metis div_mult_mod_eq)
  then have "va AND 0xFFF \<noteq> vb AND 0xFFF" by (metis unat_and_masks(1))
  then show ?thesis by (simp add: pa pb)
next
  case False
  then show ?thesis using assms unfolding private_area_def by metis
qed

subsection \<open>One access\<close>

lemma paged_access_flat:
  assumes ok: "paging_ok s" "private_area s" and area: "heap_area (access_addr a)"
    and enough: "card (fresh_pages s (access_addr a # vas)) \<le> card (pmm_avail s)"
  shows "\<exists>v t. paged_access frame a s = Some (v, t) \<and> paging_ok t \<and> private_area t \<and>
    card (fresh_pages t vas) \<le> card (pmm_avail t) \<and>
    (\<forall>m1. shows_memory t m1 \<longrightarrow> (\<exists>m0. shows_memory s m0 \<and> flat_access a m0 = (v, m1)))"
proof -
  from touch_enough [OF ok(1) area_kernel [OF area] enough, of frame] obtain u where
    u: "touch frame (access_addr a) s = Some (Inr u)" "mmu u (access_addr a) \<noteq> None" "privately_grown s u" "paging_ok u"
      "card (fresh_pages u vas) \<le> card (pmm_avail u)" "\<forall>pa. 0x200000 \<le> unat pa \<longrightarrow> phys u pa = phys s pa" by blast
  have pr: "private_area u" by (rule private_area_grown [OF ok(2) u(3)])
  obtain pa where pa: "mmu u (access_addr a) = Some pa" using u(2) by blast
  have high: "0x200000 \<le> unat pa" using pr area pa by (auto simp: private_area_def)
  have step: "paged_access frame a s = Some (phys_access a pa u)" using u(1) pa by (simp add: paged_access_def)
  have old: "mmu u vb = Some pb \<and> phys u pb = phys s pb" if "heap_area vb" "mmu s vb = Some pb" for vb pb
    using privately_grownD(2) [OF u(3) that(2)] u(6) ok(2) that by (auto simp: private_area_def)
  show ?thesis
  proof (cases a)
    case (Load va)
    have "\<exists>m0. shows_memory s m0 \<and> flat_access a m0 = (phys u pa, m1)" if "shows_memory u m1" for m1
      using that old area pa Load by (intro exI [of _ m1]) (auto simp: shows_memory_def)
    with step u(4,5) pr show ?thesis by (simp add: phys_access_def Load)
  next
    case (Store va v)
    define t where "t = u\<lparr>phys := (phys u)(pa := v)\<rparr>"
    note T = phys_store_paging [OF u(4) high, of v, folded t_def]
    have phys_t: "phys t = (phys u)(pa := v)" by (simp add: t_def)
    have "\<exists>m0. shows_memory s m0 \<and> flat_access a m0 = (v, m1)" if m1: "shows_memory t m1" for m1
    proof (intro exI conjI)
      have "m1 va = v" using m1 area pa Store by (simp add: shows_memory_def T(1) phys_t)
      then show "flat_access a (m1(va := phys u pa)) = (v, m1)" by (simp add: Store fun_upd_idem)
      show "shows_memory s (m1(va := phys u pa))"
        unfolding shows_memory_def
      proof (intro allI impI)
        fix vb pb assume b: "heap_area vb" "mmu s vb = Some pb"
        note o = old [OF b]
        show "(m1(va := phys u pa)) vb = phys s pb"
        proof (cases "vb = va")
          case False
          then have "pb \<noteq> pa" using private_area_inj [OF pr b(1) area] o pa Store by auto
          then show ?thesis using False m1 b(1) o by (simp add: shows_memory_def T(1) phys_t)
        qed (use o pa Store in simp)
      qed
    qed
    moreover have "fresh_pages t vas = fresh_pages u vas" by (simp add: fresh_pages_def T(1))
    ultimately show ?thesis
      using step u(5) T pr private_area_cong [OF T(1,3)]
      by (intro exI [of _ v] exI [of _ t]) (simp add: phys_access_def Store t_def [symmetric])
  qed
qed

subsection \<open>Runs\<close>

lemma paged_run_flat:
  "paging_ok s \<Longrightarrow> private_area s \<Longrightarrow> \<forall>a \<in> set as. heap_area (access_addr a) \<Longrightarrow>
   card (fresh_pages s (map access_addr as)) \<le> card (pmm_avail s) \<Longrightarrow>
   \<exists>vs t. paged_run frame as s = Some (vs, t) \<and> paging_ok t \<and> private_area t \<and>
     (\<forall>m1. shows_memory t m1 \<longrightarrow> (\<exists>m0. shows_memory s m0 \<and> flat_run as m0 = (vs, m1)))"
proof (induction as arbitrary: s)
  case (Cons a as)
  have "heap_area (access_addr a)" using Cons.prems(3) by simp
  from paged_access_flat [OF Cons.prems(1,2) this, of "map access_addr as" frame] Cons.prems(4) obtain v t where
    t: "paged_access frame a s = Some (v, t)" "paging_ok t" "private_area t"
      "card (fresh_pages t (map access_addr as)) \<le> card (pmm_avail t)"
      "\<And>m1. shows_memory t m1 \<Longrightarrow> \<exists>m0. shows_memory s m0 \<and> flat_access a m0 = (v, m1)" by auto
  from Cons.IH [OF t(2,3) _ t(4)] Cons.prems(3) obtain vs u where
    u: "paged_run frame as t = Some (vs, u)" "paging_ok u" "private_area u"
      "\<And>m2. shows_memory u m2 \<Longrightarrow> \<exists>m1. shows_memory t m1 \<and> flat_run as m1 = (vs, m2)" by auto
  have "\<exists>m0. shows_memory s m0 \<and> flat_run (a # as) m0 = (v # vs, m2)" if m2: "shows_memory u m2" for m2
  proof -
    obtain m1 where m1: "shows_memory t m1" "flat_run as m1 = (vs, m2)" using u(4) [OF m2] by blast
    then obtain m0 where "shows_memory s m0" "flat_access a m0 = (v, m1)" using t(5) by blast
    with m1(2) show ?thesis by (intro exI [of _ m0]) simp
  qed
  with t(1) u(1-3) show ?case by simp
qed simp

lemma shows_some_memory: "\<exists>m. shows_memory s m"
  by (intro exI [of _ "\<lambda>va. case mmu s va of None \<Rightarrow> 0 | Some pa \<Rightarrow> phys s pa"]) (simp add: shows_memory_def)

text \<open>C3: Loads and stores of the processor in the address range of the heap, through the page
  tables and with the page fault handler behind them, return what loads and stores of one flat
  memory return, in every sequence for whose pages there are frames: this is the memory over
  which the heap is modelled.\<close>

theorem paged_memory_flat:
  assumes "kernel_layout s" "tlb_coherent s" "pmm_ok s" "private_area s"
    and "\<forall>a \<in> set as. heap_area (access_addr a)" "card (fresh_pages s (map access_addr as)) \<le> card (pmm_avail s)"
  shows "\<exists>vs s' m m'. paged_run frame as s = Some (vs, s') \<and> flat_run as m = (vs, m') \<and>
    shows_memory s m \<and> shows_memory s' m' \<and> private_area s'"
proof -
  obtain vs t where t: "paged_run frame as s = Some (vs, t)" "private_area t"
    "\<And>m1. shows_memory t m1 \<Longrightarrow> \<exists>m0. shows_memory s m0 \<and> flat_run as m0 = (vs, m1)"
    using paged_run_flat [OF _ assms(4-6), of frame] assms(1-3) by (auto simp: paging_ok_def)
  obtain m' where m': "shows_memory t m'" using shows_some_memory by blast
  from t(3) [OF m'] obtain m where "shows_memory s m" "flat_run as m = (vs, m')" by blast
  with t(1,2) m' show ?thesis by blast
qed

end
