(* ===== verification/Cstring.thy ===== *)
theory Cstring
  imports Ram
begin

text \<open>
  \<open>08.kernel-mm/kernel/lib/string.c\<close> over the byte memory. A counted loop (\<open>while (len--)\<close>) is
  recursion on the count; a loop that stops only at a NUL byte is a
  \<^theory_text>\<open>partial_function\<close> whose value \<open>None\<close> means that it does not return. Pointers wrap as
  32-bit words do.
\<close>

subsection \<open>Block operations\<close>

primrec memset_loop :: "nat \<Rightarrow> u32 \<Rightarrow> u8 \<Rightarrow> ram \<Rightarrow> ram" where
  "memset_loop 0 ptr v m = m"
| "memset_loop (Suc len) ptr v m = memset_loop len (ptr + 1) v (m(ptr := v))"

definition memset :: "u32 \<Rightarrow> u32 \<Rightarrow> u32 \<Rightarrow> ram \<Rightarrow> u32 \<times> ram" where
  "memset dest val len m = (dest, memset_loop (unat len) dest (ucast val) m)"

primrec copy_up :: "nat \<Rightarrow> u32 \<Rightarrow> u32 \<Rightarrow> ram \<Rightarrow> ram" where
  "copy_up 0 d s m = m"
| "copy_up (Suc len) d s m = copy_up len (d + 1) (s + 1) (m(d := m s))"

primrec copy_down :: "nat \<Rightarrow> u32 \<Rightarrow> u32 \<Rightarrow> ram \<Rightarrow> ram" where
  "copy_down 0 d s m = m"
| "copy_down (Suc len) d s m = copy_down len (d - 1) (s - 1) (m(d - 1 := m (s - 1)))"

definition memcpy :: "u32 \<Rightarrow> u32 \<Rightarrow> u32 \<Rightarrow> ram \<Rightarrow> u32 \<times> ram" where
  "memcpy dest src len m = (dest, copy_up (unat len) dest src m)"

definition memmove :: "u32 \<Rightarrow> u32 \<Rightarrow> u32 \<Rightarrow> ram \<Rightarrow> u32 \<times> ram" where
  "memmove dest src len m =
     (if dest = src then (dest, m)
      else if dest < src then (dest, copy_up (unat len) dest src m)
      else (dest, copy_down (unat len) (dest + len) (src + len) m))"

subsection \<open>NUL-terminated strings\<close>

partial_function (option) strlen_loop :: "ram \<Rightarrow> u32 \<Rightarrow> u32 \<Rightarrow> u32 option" where
  "strlen_loop m str len =
     (if m str \<noteq> 0 then strlen_loop m (str + 1) (len + 1) else Some len)"

definition strlen :: "u32 \<Rightarrow> ram \<Rightarrow> u32 option" where
  "strlen str m = strlen_loop m str 0"

partial_function (option) strcmp :: "ram \<Rightarrow> u32 \<Rightarrow> u32 \<Rightarrow> u32 option" where
  "strcmp m s1 s2 =
     (if m s1 \<noteq> 0 \<and> m s1 = m s2 then strcmp m (s1 + 1) (s2 + 1)
      else Some (ucast (m s1) - ucast (m s2)))"

partial_function (option) strcpy_loop :: "u32 \<Rightarrow> u32 \<Rightarrow> ram \<Rightarrow> ram option" where
  "strcpy_loop dest src m =
     (if m src \<noteq> 0 then strcpy_loop (dest + 1) (src + 1) (m(dest := m src))
      else Some (m(dest := m src)))"

definition strcpy :: "u32 \<Rightarrow> u32 \<Rightarrow> ram \<Rightarrow> (u32 \<times> ram) option" where
  "strcpy dest src m = map_option (Pair dest) (strcpy_loop dest src m)"

function strncpy_copy :: "u32 \<Rightarrow> u32 \<Rightarrow> u32 \<Rightarrow> u32 \<Rightarrow> ram \<Rightarrow> u32 \<times> ram" where
  "strncpy_copy dest src n i m =
     (if i < n \<and> m (src + i) \<noteq> 0
      then strncpy_copy dest src n (i + 1) (m(dest + i := m (src + i))) else (i, m))"
  by pat_completeness auto
termination
  by (relation "measure (\<lambda>(dest, src, n, i, m). unat n - unat i)")
    (auto simp: unat_inc_u32 word_less_nat_alt)

function strncpy_pad :: "u32 \<Rightarrow> u32 \<Rightarrow> u32 \<Rightarrow> ram \<Rightarrow> ram" where
  "strncpy_pad dest n i m =
     (if i < n then strncpy_pad dest n (i + 1) (m(dest + i := 0)) else m)"
  by pat_completeness auto
termination
  by (relation "measure (\<lambda>(dest, n, i, m). unat n - unat i)")
    (auto simp: unat_inc_u32 word_less_nat_alt)

declare strncpy_copy.simps [simp del] strncpy_pad.simps [simp del]

definition strncpy :: "u32 \<Rightarrow> u32 \<Rightarrow> u32 \<Rightarrow> ram \<Rightarrow> u32 \<times> ram" where
  "strncpy dest src n m =
     (let (i, m') = strncpy_copy dest src n 0 m in (dest, strncpy_pad dest n i m'))"

subsection \<open>What the block operations do\<close>

text \<open>
  Each loop is characterised byte by byte. A byte \<open>x\<close> is in the block of \<open>len\<close> bytes at
  \<open>dest\<close> when \<open>x - dest < len\<close>, which also reads correctly for a block that wraps.
\<close>

lemma memset_loop_spec:
  "len \<le> 4294967296 \<Longrightarrow> memset_loop len p v m x = (if unat (x - p) < len then v else m x)"
proof (induction len arbitrary: p m)
  case (Suc len)
  then show ?case
    using unat_less_Suc_dec [of len "x - p"] by (auto simp: diff_diff_eq)
qed simp

theorem memset_spec:
  "snd (memset dest val len m) x = (if x - dest < len then ucast val else m x)"
  by (simp add: memset_def memset_loop_spec word_less_nat_alt less_imp_le[OF unat_u32_bound])

lemma copy_up_spec:
  "unat (s - d) + len \<le> 4294967296 \<Longrightarrow>
   copy_up len d s m x = (if unat (x - d) < len then m (s + (x - d)) else m x)"
proof (induction len arbitrary: d s m)
  case (Suc len)
  have IH: "copy_up len (d + 1) (s + 1) (m(d := m s)) x =
     (if unat (x - (d + 1)) < len then (m(d := m s)) (s + 1 + (x - (d + 1))) else (m(d := m s)) x)"
    using Suc.prems by (intro Suc.IH) simp
  have keep: "(m(d := m s)) (s + (x - d)) = m (s + (x - d))" if "unat (x - d) < Suc len"
  proof (cases "s = d")
    case False
    have "s + (x - d) \<noteq> d"
    proof
      assume "s + (x - d) = d"
      then have "x - d = - (s - d)" by (simp add: algebra_simps)
      moreover have "unat (- (s - d)) = 4294967296 - unat (s - d)"
        using False unat_swap_u32 [of d s] by simp
      ultimately show False using that Suc.prems by simp
    qed
    then show ?thesis by simp
  qed simp
  show ?case
    using IH keep unat_less_Suc_dec [of len "x - d"] Suc.prems
    by (auto simp: diff_diff_eq algebra_simps)
qed simp

lemma copy_down_spec:
  "unat (d - s) + len \<le> 4294967296 \<Longrightarrow>
   copy_down len d s m x = (if unat (d - 1 - x) < len then m (s - (d - x)) else m x)"
proof (induction len arbitrary: d s m)
  case (Suc len)
  have IH: "copy_down len (d - 1) (s - 1) (m(d - 1 := m (s - 1))) x =
     (if unat (d - 1 - 1 - x) < len then (m(d - 1 := m (s - 1))) (s - 1 - (d - 1 - x))
      else (m(d - 1 := m (s - 1))) x)"
    using Suc.prems by (intro Suc.IH) simp
  have keep: "(m(d - 1 := m (s - 1))) (s - (d - x)) = m (s - (d - x))"
    if "unat (d - 1 - x) < Suc len"
  proof (cases "s = d")
    case False
    have "s - (d - x) \<noteq> d - 1"
    proof
      assume "s - (d - x) = d - 1"
      then have "d - 1 - x = s - d" by (simp add: algebra_simps)
      moreover have "unat (s - d) = 4294967296 - unat (d - s)"
        using False by (intro unat_swap_u32) simp
      ultimately have "unat (d - 1 - x) = 4294967296 - unat (d - s)" by (simp only:)
      with that Suc.prems show False by linarith
    qed
    then show ?thesis by simp
  qed simp
  show ?case
    using IH keep unat_less_Suc_dec [of len "d - 1 - x"] Suc.prems
    by (auto simp: algebra_simps)
qed simp

theorem memcpy_spec:
  assumes "unat (src - dest) + unat len \<le> 4294967296"
  shows "snd (memcpy dest src len m) x = (if x - dest < len then m (src + (x - dest)) else m x)"
  using assms by (simp add: memcpy_def copy_up_spec word_less_nat_alt)

theorem memmove_spec:
  assumes "unat dest + unat len \<le> 4294967296" and "unat src + unat len \<le> 4294967296"
  shows "snd (memmove dest src len m) x = (if x - dest < len then m (src + (x - dest)) else m x)"
proof -
  consider "dest = src" | "dest < src" | "src < dest" by fastforce
  then show ?thesis
  proof cases
    case 1
    then show ?thesis by (simp add: memmove_def)
  next
    case 2
    then have "unat (src - dest) = unat src - unat dest"
      by (intro unat_sub_u32) (simp add: word_less_nat_alt)
    with 2 assms show ?thesis
      by (simp add: memmove_def copy_up_spec word_less_nat_alt)
  next
    case 3
    then have "unat (dest - src) = unat dest - unat src"
      by (intro unat_sub_u32) (simp add: word_less_nat_alt)
    moreover have "unat (dest + len - 1 - x) < unat len \<longleftrightarrow> x - dest < len"
    proof (cases "len = 0")
      case False
      have "dest + len - 1 - x = len - 1 - (x - dest)" by (simp add: algebra_simps)
      with False show ?thesis
        by (simp only: unat_rev_index word_less_nat_alt not_False_eq_True)
    qed simp
    moreover have "snd (memmove dest src len m) x = copy_down (unat len) (dest + len) (src + len) m x"
      using 3 by (auto simp: memmove_def)
    moreover have "src + len - (dest + len - x) = src + (x - dest)" by simp
    ultimately show ?thesis using assms by (simp add: copy_down_spec)
  qed
qed

subsection \<open>What the string operations do\<close>

text \<open>\<open>cstr m p s\<close>: the bytes \<open>s\<close>, none of them NUL, stand at \<open>p\<close>, followed by a NUL.\<close>

primrec cstr :: "ram \<Rightarrow> u32 \<Rightarrow> u8 list \<Rightarrow> bool" where
  "cstr m p [] \<longleftrightarrow> m p = 0"
| "cstr m p (c # cs) \<longleftrightarrow> c \<noteq> 0 \<and> m p = c \<and> cstr m (p + 1) cs"

lemma strlen_loop_spec: "cstr m p s \<Longrightarrow> strlen_loop m p n = Some (n + word_of_nat (length s))"
  by (induction s arbitrary: p n) (auto simp: strlen_loop.simps)

theorem strlen_spec: "cstr m p s \<Longrightarrow> strlen p m = Some (word_of_nat (length s))"
  by (simp add: strlen_def strlen_loop_spec)

theorem strcmp_spec:
  "cstr m p s \<Longrightarrow> cstr m q t \<Longrightarrow> \<exists>r. strcmp m p q = Some r \<and> (r = 0 \<longleftrightarrow> s = t)
     \<and> (sint r < 0 \<longleftrightarrow> (s, t) \<in> lexord {(a, b). a < b})"
proof (induction s arbitrary: t p q)
  case Nil
  then show ?case
    using byte_diff_eq_0 [of 0 "m q"] byte_diff_neg [of 0 "m q"]
    by (cases t) (auto simp: strcmp.simps word_gt_0)
next
  case (Cons a s)
  then show ?case
  proof (cases t)
    case (Cons b t')
    with Cons.prems Cons.IH [of "p + 1" "q + 1" t'] show ?thesis
      using byte_diff_eq_0 [of a b] byte_diff_neg [of a b]
      by (cases "a = b") (auto simp: strcmp.simps [of m p q])
  qed (use byte_diff_eq_0 [of a 0] byte_diff_neg [of a 0] in \<open>auto simp: strcmp.simps [of m p q]\<close>)
qed

lemma cstr_upd: "cstr m p s \<Longrightarrow> length s < unat (x - p) \<Longrightarrow> cstr (m(x := v)) p s"
proof (induction s arbitrary: p)
  case (Cons c s)
  then have "x \<noteq> p" by auto
  moreover have "unat (x - (p + 1)) = unat (x - p) - 1"
    using \<open>x \<noteq> p\<close> by (simp add: unat_minus_one flip: diff_diff_eq)
  ultimately show ?case using Cons by simp
qed auto

lemma strcpy_loop_spec:
  "cstr m src s \<Longrightarrow> dest = src \<or> length s < unat (dest - src) \<Longrightarrow>
   strcpy_loop dest src m = Some (copy_up (Suc (length s)) dest src m)"
proof (induction s arbitrary: m dest src)
  case Nil
  then show ?case by (simp add: strcpy_loop.simps [of dest src m] fun_upd_def)
next
  case (Cons c s)
  have "cstr (m(dest := m src)) (src + 1) s"
  proof (cases "dest = src")
    case False
    then have "unat (dest - (src + 1)) = unat (dest - src) - 1"
      by (simp add: unat_minus_one flip: diff_diff_eq)
    with False Cons.prems show ?thesis by (intro cstr_upd) auto
  qed (use Cons.prems in \<open>simp add: fun_upd_idem\<close>)
  moreover have "dest + 1 = src + 1 \<or> length s < unat (dest + 1 - (src + 1))"
    using Cons.prems by auto
  ultimately have "strcpy_loop (dest + 1) (src + 1) (m(dest := m src)) =
      Some (copy_up (Suc (length s)) (dest + 1) (src + 1) (m(dest := m src)))"
    by (rule Cons.IH)
  then show ?case
    using Cons.prems by (simp only: strcpy_loop.simps [of dest src m] copy_up.simps(2)) simp
qed

lemma cstr_nth: "cstr m p s \<longleftrightarrow> (\<forall>i < length s. m (p + word_of_nat i) = s ! i \<and> s ! i \<noteq> 0)
    \<and> m (p + word_of_nat (length s)) = 0"
proof (induction s arbitrary: p)
  case (Cons c s)
  show ?case
    using Cons [of "p + 1"] by (auto simp: All_less_Suc2 add.assoc)
qed simp

theorem strcpy_spec:
  assumes "cstr m src s" and "length s < unat (dest - src)" and "length s < unat (src - dest)"
  shows "\<exists>m'. strcpy dest src m = Some (dest, m') \<and> cstr m' dest s \<and>
    (\<forall>x. length s < unat (x - dest) \<longrightarrow> m' x = m x)"
proof -
  let ?m = "copy_up (Suc (length s)) dest src m"
  have "dest \<noteq> src" using assms by auto
  then have "unat (src - dest) + Suc (length s) \<le> 4294967296"
    using assms(2) unat_swap_u32 [of dest src] unat_u32_bound [of "src - dest"] by linarith
  note copy = copy_up_spec [OF this]
  have len: "length s < 4294967296" using assms(2) unat_u32_bound [of "dest - src"] by linarith
  have "?m (dest + word_of_nat i) = m (src + word_of_nat i)" if "i \<le> length s" for i
    using that len by (simp only: copy) (simp add: unat_of_nat_u32)
  with assms(1) have "cstr ?m dest s" by (auto simp: cstr_nth)
  moreover have "\<forall>x. length s < unat (x - dest) \<longrightarrow> ?m x = m x"
    by (simp only: copy) simp
  moreover have "strcpy dest src m = Some (dest, ?m)"
    using strcpy_loop_spec [OF assms(1), of dest] assms(2) by (simp add: strcpy_def)
  ultimately show ?thesis by blast
qed

text \<open>\<open>poke p bs m\<close> is the memory after writing the bytes \<open>bs\<close> from \<open>p\<close> on.\<close>

primrec poke :: "u32 \<Rightarrow> u8 list \<Rightarrow> ram \<Rightarrow> ram" where
  "poke p [] m = m"
| "poke p (c # cs) m = poke (p + 1) cs (m(p := c))"

lemma poke_append: "poke p (xs @ ys) m = poke (p + word_of_nat (length xs)) ys (poke p xs m)"
  by (induction xs arbitrary: p m) (simp_all add: add.assoc)

lemma poke_byte:
  "length bs \<le> 4294967296 \<Longrightarrow>
   poke p bs m x = (if unat (x - p) < length bs then bs ! unat (x - p) else m x)"
proof (induction bs arbitrary: p m)
  case (Cons b bs)
  have IH: "poke (p + 1) bs (m(p := b)) x =
      (if unat (x - (p + 1)) < length bs then bs ! unat (x - (p + 1)) else (m(p := b)) x)"
    using Cons by simp
  show ?case
  proof (cases "x = p")
    case True
    have "unat (- 1 :: u32) = 4294967295" using unat_neg_u32 [of 1] by simp
    with True IH Cons.prems show ?thesis by simp
  next
    case False
    then have "unat (x - (p + 1)) = unat (x - p) - 1" "0 < unat (x - p)"
      by (simp_all add: unat_minus_one unat_gt_0 flip: diff_diff_eq)
    with False IH show ?thesis by (auto simp: nth_Cons')
  qed
qed simp

lemma strncpy_pad_poke:
  "unat i \<le> unat n \<Longrightarrow> strncpy_pad dest n i m = poke (dest + i) (replicate (unat n - unat i) 0) m"
proof (induction dest n i m rule: strncpy_pad.induct)
  case (1 dest n i m)
  show ?case
  proof (cases "i < n")
    case True
    then have i: "unat (i + 1) = Suc (unat i)" "unat i < unat n"
      by (simp_all add: unat_inc_u32 word_less_nat_alt)
    then obtain k where "unat n - unat i = Suc k" "unat n - unat (i + 1) = k"
      by (metis Suc_diff_Suc)
    with True i 1 show ?thesis
      by (simp add: strncpy_pad.simps [of dest n i m] add.assoc fun_upd_def)
  next
    case False
    with 1 have "unat n - unat i = 0" by (simp add: word_less_nat_alt)
    with False show ?thesis by (simp add: strncpy_pad.simps [of dest n i m])
  qed
qed

lemma strncpy_copy_poke:
  "cstr m (src + i) s \<Longrightarrow> length s < unat (dest - src) \<Longrightarrow> unat i \<le> unat n \<Longrightarrow>
   strncpy_copy dest src n i m =
     (i + word_of_nat (min (length s) (unat n - unat i)),
      poke (dest + i) (take (unat n - unat i) s) m)"
proof (induction s arbitrary: i m)
  case Nil
  then show ?case by (simp add: strncpy_copy.simps [of dest src n i m])
next
  case (Cons c s)
  show ?case
  proof (cases "i < n")
    case True
    then have i: "unat (i + 1) = Suc (unat i)" "unat i < unat n"
      by (simp_all add: unat_inc_u32 word_less_nat_alt)
    then obtain k where k: "unat n - unat i = Suc k" "unat n - unat (i + 1) = k"
      by (metis Suc_diff_Suc)
    have "dest + i - (src + i + 1) = dest - src - 1" by simp
    moreover have "dest - src \<noteq> 0" using Cons.prems by auto
    ultimately have "unat (dest + i - (src + i + 1)) = unat (dest - src) - 1"
      by (simp only: unat_minus_one not_False_eq_True)
    with Cons.prems have "cstr (m(dest + i := c)) (src + (i + 1)) s"
      by (simp add: cstr_upd add.assoc [symmetric])
    with Cons.IH [OF this] Cons.prems i k True show ?thesis
      by (simp add: strncpy_copy.simps [of dest src n i m] add.assoc fun_upd_def)
  next
    case False
    with Cons.prems have "unat n - unat i = 0" by (simp add: word_less_nat_alt)
    with False show ?thesis by (simp add: strncpy_copy.simps [of dest src n i m])
  qed
qed

theorem strncpy_spec:
  assumes "cstr m src s" and "length s < unat (dest - src)"
  shows "strncpy dest src n m = (dest, poke dest (take (unat n) (s @ replicate (unat n) 0)) m)"
proof -
  let ?j = "min (length s) (unat n)"
  have j: "unat (word_of_nat ?j :: u32) = ?j"
    using unat_u32_bound [of n] by (intro unat_of_nat_u32) simp
  have "strncpy_copy dest src n 0 m = (word_of_nat ?j, poke dest (take (unat n) s) m)"
    using strncpy_copy_poke [of m src 0 s dest n] assms by simp
  moreover have "take (unat n) (s @ replicate (unat n) (0 :: u8)) = take (unat n) s @ replicate (unat n - ?j) 0"
    by (auto simp: min_def)
  moreover have "length (take (unat n) s) = ?j" by simp
  ultimately show ?thesis
    using j by (simp add: strncpy_def strncpy_pad_poke poke_append)
qed

end
