(* ===== verification/Elf.thy ===== *)
theory Elf
  imports Cstring
begin

text \<open>
  The ELF loader \<open>do_load_kernel\<close> of \<open>08.kernel-mm/boot/loader.S\<close>: the segments of the image that
  was read from the disk to \<open>0xFFF00000\<close> are copied to their virtual addresses. The memory is the flat
  one the processor sees; that the addresses are mapped is theorem \<open>loader_maps\<close> (theory \<open>Loader\<close>).
  The specification overlays the segments of the original image, the last one on top.
\<close>

definition KERNEL_BIN_MAX_SIZE :: u32 where [simp]: "KERNEL_BIN_MAX_SIZE = 1024 * 1024"
definition KERNEL_BIN_LOAD_VIRTUAL_ADDR :: u32 where [simp]: "KERNEL_BIN_LOAD_VIRTUAL_ADDR = 0xFFFFFFFF - KERNEL_BIN_MAX_SIZE + 1"

definition ELF_E_ENTRY :: u32 where [simp]: "ELF_E_ENTRY = 24"
definition ELF_E_PHOFF :: u32 where [simp]: "ELF_E_PHOFF = 28"
definition ELF_E_PHENTSIZE :: u32 where [simp]: "ELF_E_PHENTSIZE = 42"
definition ELF_E_PHNUM :: u32 where [simp]: "ELF_E_PHNUM = 44"

definition load16 :: "ram \<Rightarrow> u32 \<Rightarrow> u32" where
  "load16 m a = ucast (m a) OR push_bit 8 (ucast (m (a + 1)))"

text \<open>The fields of a program header the loader reads, at \<open>PH_TYPE\<close> and the other offsets.\<close>

record program_header =
  p_type :: u32
  p_offset :: u32
  p_vaddr :: u32
  p_filesz :: u32

definition program_header_at :: "ram \<Rightarrow> u32 \<Rightarrow> program_header" where
  "program_header_at m a =
     \<lparr>p_type = load32 m a, p_offset = load32 m (a + 4), p_vaddr = load32 m (a + 8), p_filesz = load32 m (a + 16)\<rparr>"

text \<open>The body of \<open>.load_each_segment\<close>; \<open>memcpy\<close> of the loader is \<open>rep movsb\<close>, upwards.\<close>

primrec load_each_segment :: "nat \<Rightarrow> u32 \<Rightarrow> u32 \<Rightarrow> ram \<Rightarrow> ram" where
  "load_each_segment 0 ebx edx m = m"
| "load_each_segment (Suc ecx) ebx edx m =
     (let h = program_header_at m ebx in
      load_each_segment ecx (ebx + edx) edx
        (if p_type h = 1 then copy_up (unat (p_filesz h)) (p_vaddr h) (p_offset h + KERNEL_BIN_LOAD_VIRTUAL_ADDR) m else m))"

text \<open>The entry point, left in EAX, and the memory. \<open>loop\<close> decrements ECX before it tests it.\<close>

definition do_load_kernel :: "ram \<Rightarrow> u32 \<times> ram" where
  "do_load_kernel m =
     (let ebx = load32 m (KERNEL_BIN_LOAD_VIRTUAL_ADDR + ELF_E_PHOFF) + KERNEL_BIN_LOAD_VIRTUAL_ADDR;
          ecx = load16 m (KERNEL_BIN_LOAD_VIRTUAL_ADDR + ELF_E_PHNUM);
          edx = load16 m (KERNEL_BIN_LOAD_VIRTUAL_ADDR + ELF_E_PHENTSIZE);
          m = load_each_segment (if ecx = 0 then 2 ^ 32 else unat ecx) ebx edx m
      in (load32 m (KERNEL_BIN_LOAD_VIRTUAL_ADDR + ELF_E_ENTRY), m))"

subsection \<open>The image and its segments\<close>

definition e_phoff :: "ram \<Rightarrow> nat" where
  "e_phoff m = unat (load32 m (KERNEL_BIN_LOAD_VIRTUAL_ADDR + ELF_E_PHOFF))"

definition e_phnum :: "ram \<Rightarrow> nat" where
  "e_phnum m = unat (load16 m (KERNEL_BIN_LOAD_VIRTUAL_ADDR + ELF_E_PHNUM))"

definition e_phentsize :: "ram \<Rightarrow> nat" where
  "e_phentsize m = unat (load16 m (KERNEL_BIN_LOAD_VIRTUAL_ADDR + ELF_E_PHENTSIZE))"

definition segments :: "ram \<Rightarrow> program_header list" where
  "segments m = filter (\<lambda>h. p_type h = 1)
     (map (\<lambda>i. program_header_at m (word_of_nat (0xFFF00000 + e_phoff m + i * e_phentsize m))) [0..<e_phnum m])"

text \<open>The program headers and the contents of the segments are within the image, their destinations below it.\<close>

definition loadable :: "ram \<Rightarrow> bool" where
  "loadable m \<longleftrightarrow> 0 < e_phnum m \<and> 20 \<le> e_phentsize m \<and> e_phoff m + e_phnum m * e_phentsize m \<le> 0x100000 \<and>
     (\<forall>h \<in> set (segments m). unat (p_vaddr h) + unat (p_filesz h) \<le> 0xFFF00000 \<and> unat (p_offset h) + unat (p_filesz h) \<le> 0x100000)"

definition covers :: "u32 \<Rightarrow> program_header \<Rightarrow> bool" where
  "covers x h \<longleftrightarrow> unat (p_vaddr h) \<le> unat x \<and> unat x < unat (p_vaddr h) + unat (p_filesz h)"

definition overlay :: "ram \<Rightarrow> program_header list \<Rightarrow> ram \<Rightarrow> ram" where
  "overlay m hs m' x =
     (case find (covers x) (rev hs) of
        None \<Rightarrow> m' x
      | Some h \<Rightarrow> m (0xFFF00000 + p_offset h + (x - p_vaddr h)))"

lemma overlay_Nil [simp]: "overlay m [] m' = m'"
  by (rule ext) (simp add: overlay_def)

lemma find_append: "find P (xs @ ys) = (case find P xs of None \<Rightarrow> find P ys | Some x \<Rightarrow> Some x)"
  by (induction xs) simp_all

lemma overlay_Cons: "overlay m (h # hs) m' = overlay m hs (overlay m [h] m')"
  by (rule ext) (auto simp: overlay_def find_append split: option.splits)

text \<open>One segment is copied from an image that is still the original one.\<close>

lemma copy_segment:
  assumes image: "same_on m m' 0xFFF00000 4294967296"
    and fits: "unat (p_vaddr h) + unat (p_filesz h) \<le> 0xFFF00000" "unat (p_offset h) + unat (p_filesz h) \<le> 0x100000"
  shows "copy_up (unat (p_filesz h)) (p_vaddr h) (p_offset h + KERNEL_BIN_LOAD_VIRTUAL_ADDR) m' = overlay m [h] m'"
    "same_on m (overlay m [h] m') 0xFFF00000 4294967296"
proof -
  define d where "d = p_vaddr h"
  define n where "n = unat (p_filesz h)"
  define s where "s = p_offset h + 0xFFF00000"
  have f: "unat d + n \<le> 0xFFF00000" "unat (p_offset h) + n \<le> 0x100000" using fits by (simp_all add: d_def n_def)
  show "copy_up (unat (p_filesz h)) (p_vaddr h) (p_offset h + KERNEL_BIN_LOAD_VIRTUAL_ADDR) m' = overlay m [h] m'"
  proof (cases "n = 0")
    case True
    then show ?thesis by (intro ext) (auto simp: overlay_def covers_def n_def [symmetric])
  next
    case False
    have us: "unat s = unat (p_offset h) + 0xFFF00000" using f False unfolding s_def by (simp add: unat_add_u32)
    then have "unat (s - d) + n \<le> 4294967296" using f by (simp add: unat_sub word_le_nat_alt)
    note cp = copy_up_spec [OF this, of m']
    show ?thesis
    proof (rule ext)
      fix x
      have cov: "unat (x - d) < n \<longleftrightarrow> covers x h"
      proof (cases "d \<le> x")
        case True
        then show ?thesis by (simp add: covers_def unat_sub word_le_nat_alt d_def n_def less_diff_conv2 add.commute)
      next
        case False
        then have "unat (x - d) = 4294967296 - (unat d - unat x)"
          by (simp add: unat_sub_if' word_le_nat_alt)
        with False f show ?thesis by (simp add: covers_def word_le_nat_alt d_def [symmetric] n_def [symmetric])
      qed
      have "m' (s + (x - d)) = m (s + (x - d))" if "unat (x - d) < n"
      proof -
        have "unat (s + (x - d)) = unat s + unat (x - d)" using that us f by (intro unat_add_u32) simp
        then have "0xFFF00000 \<le> unat (s + (x - d))" using us by simp
        from same_on_byte [OF image this unat_u32_bound] show ?thesis by simp
      qed
      then show "copy_up (unat (p_filesz h)) (p_vaddr h) (p_offset h + KERNEL_BIN_LOAD_VIRTUAL_ADDR) m' x = overlay m [h] m' x"
        using cp [of x] cov by (simp add: overlay_def d_def n_def s_def algebra_simps)
    qed
  qed
  show "same_on m (overlay m [h] m') 0xFFF00000 4294967296"
    unfolding same_on_def
  proof (intro allI impI)
    fix x :: nat assume x: "0xFFF00000 \<le> x" "x < 4294967296"
    then have "\<not> covers (word_of_nat x) h" using fits by (simp add: covers_def unat_of_nat_u32)
    then show "overlay m [h] m' (word_of_nat x) = m (word_of_nat x)"
      using same_on_byte [OF image x] by (simp add: overlay_def)
  qed
qed

lemma program_header_same:
  assumes "same_on m m' 0xFFF00000 4294967296" "0xFFF00000 \<le> a" "a + 20 \<le> 4294967296"
  shows "program_header_at m' (word_of_nat a) = program_header_at m (word_of_nat a)"
proof -
  have "load32 m' (word_of_nat (a + k)) = load32 m (word_of_nat (a + k))" if "k \<le> 16" for k
    using assms that by (intro load32_same_on [OF assms(1)]) simp_all
  from this [of 0] this [of 4] this [of 8] this [of 16] show ?thesis
    by (simp add: program_header_at_def add.commute)
qed

lemma load_each_segment_overlay:
  assumes "same_on m m' 0xFFF00000 4294967296" "0xFFF00000 \<le> a" "a + n * e \<le> 4294967296" "20 \<le> e"
    and "\<forall>h \<in> set (filter (\<lambda>h. p_type h = 1) (map (\<lambda>i. program_header_at m (word_of_nat (a + i * e))) [0..<n])).
      unat (p_vaddr h) + unat (p_filesz h) \<le> 0xFFF00000 \<and> unat (p_offset h) + unat (p_filesz h) \<le> 0x100000"
  shows "load_each_segment n (word_of_nat a) (word_of_nat e) m' =
      overlay m (filter (\<lambda>h. p_type h = 1) (map (\<lambda>i. program_header_at m (word_of_nat (a + i * e))) [0..<n])) m' \<and>
    same_on m (load_each_segment n (word_of_nat a) (word_of_nat e) m') 0xFFF00000 4294967296"
  using assms
proof (induction n arbitrary: m' a)
  case (Suc n)
  define h where "h = program_header_at m (word_of_nat a)"
  define m1 where "m1 = (if p_type h = 1 then overlay m [h] m' else m')"
  have split: "map (\<lambda>i. program_header_at m (word_of_nat (a + i * e))) [0..<Suc n] =
      h # map (\<lambda>i. program_header_at m (word_of_nat (a + e + i * e))) [0..<n]"
    unfolding upt_conv_Cons [OF zero_less_Suc] map_Suc_upt [symmetric]
    by (simp add: h_def comp_def algebra_simps del: upt_Suc)
  have "program_header_at m' (word_of_nat a) = h"
    unfolding h_def by (rule program_header_same [OF Suc.prems(1,2)]) (use Suc.prems(3,4) in simp)
  moreover have h: "unat (p_vaddr h) + unat (p_filesz h) \<le> 0xFFF00000 \<and> unat (p_offset h) + unat (p_filesz h) \<le> 0x100000" if "p_type h = 1"
    using Suc.prems(5) that unfolding split by simp
  ultimately have step: "load_each_segment (Suc n) (word_of_nat a) (word_of_nat e) m' =
      load_each_segment n (word_of_nat (a + e)) (word_of_nat e) m1"
    using copy_segment(1) [OF Suc.prems(1)] by (auto simp: m1_def Let_def)
  have m1: "same_on m m1 0xFFF00000 4294967296"
    using copy_segment(2) [OF Suc.prems(1)] h Suc.prems(1) by (auto simp: m1_def)
  define hs where "hs = filter (\<lambda>h. p_type h = 1) (map (\<lambda>i. program_header_at m (word_of_nat (a + e + i * e))) [0..<n])"
  have bounds: "0xFFF00000 \<le> a + e" "a + e + n * e \<le> 4294967296" using Suc.prems(2,3) by simp_all
  have "\<forall>h \<in> set hs. unat (p_vaddr h) + unat (p_filesz h) \<le> 0xFFF00000 \<and> unat (p_offset h) + unat (p_filesz h) \<le> 0x100000"
    using Suc.prems(5) unfolding split filter.simps hs_def [symmetric] by (cases "p_type h = 1") simp_all
  then have "load_each_segment n (word_of_nat (a + e)) (word_of_nat e) m1 = overlay m hs m1 \<and>
     same_on m (load_each_segment n (word_of_nat (a + e)) (word_of_nat e) m1) 0xFFF00000 4294967296"
    unfolding hs_def by (rule Suc.IH [OF m1 bounds Suc.prems(4)])
  then show ?case
    unfolding step split filter.simps hs_def [symmetric] by (cases "p_type h = 1") (auto simp: m1_def overlay_Cons [of m h hs])
qed simp

lemma do_load_kernel_segments:
  assumes "loadable m"
  shows "do_load_kernel m = (load32 m (KERNEL_BIN_LOAD_VIRTUAL_ADDR + ELF_E_ENTRY), overlay m (segments m) m)"
proof -
  define ebx where "ebx = load32 m (KERNEL_BIN_LOAD_VIRTUAL_ADDR + ELF_E_PHOFF) + KERNEL_BIN_LOAD_VIRTUAL_ADDR"
  define edx where "edx = load16 m (KERNEL_BIN_LOAD_VIRTUAL_ADDR + ELF_E_PHENTSIZE)"
  have e: "ebx = word_of_nat (0xFFF00000 + e_phoff m)" "edx = word_of_nat (e_phentsize m)"
    by (simp_all add: ebx_def edx_def e_phoff_def e_phentsize_def)
  have L: "load_each_segment (e_phnum m) ebx edx m = overlay m (segments m) m"
      "same_on m (overlay m (segments m) m) 0xFFF00000 4294967296"
    using load_each_segment_overlay [of m m "0xFFF00000 + e_phoff m" "e_phnum m" "e_phentsize m"] assms
    unfolding e segments_def loadable_def by (auto simp del: of_nat_add of_nat_mult set_filter set_map)
  have "load32 (overlay m (segments m) m) (word_of_nat 0xFFF00018) = load32 m (word_of_nat 0xFFF00018)"
    by (rule load32_same_on [OF L(2)]) simp_all
  moreover have "load16 m (KERNEL_BIN_LOAD_VIRTUAL_ADDR + ELF_E_PHNUM) \<noteq> 0"
    using assms by (auto simp: loadable_def e_phnum_def)
  ultimately show ?thesis
    using L(1) unfolding do_load_kernel_def Let_def ebx_def [symmetric] edx_def [symmetric] e_phnum_def by simp
qed

text \<open>C20: For an image whose program headers and segments lie within it and are loaded below it,
  do_load_kernel returns the entry point of the ELF header and the memory in which each byte
  comes from the last loadable segment that covers it; bytes of no segment, those of .bss
  among them, stay as they were.\<close>

theorem do_load_kernel_overlay:
  assumes "loadable m"
  shows "do_load_kernel m = (load32 m (KERNEL_BIN_LOAD_VIRTUAL_ADDR + ELF_E_ENTRY), overlay m (segments m) m)"
  using assms by (rule do_load_kernel_segments)

end
