(* ===== verification/Loader.thy ===== *)
theory Loader
  imports Paged_memory Elf
begin

text \<open>
  The last part of \<open>08.kernel-mm/boot/loader.S\<close> before the kernel image is read: the mapping of the
  image, of the kernel and of its stack through the recursive page table window, on top of the tables
  that \<open>setup_page\<close> (theory \<open>Vmm\<close>) has built.
\<close>

definition PHY_MEM_SIZE :: u32 where [simp]: "PHY_MEM_SIZE = 32 * 1024 * 1024"
definition KERNEL_MEM_MAX_SIZE :: u32 where [simp]: "KERNEL_MEM_MAX_SIZE = 1024 * 1024"
definition KERNEL_BIN_LOAD_PHYSICAL_ADDR :: u32 where [simp]: "KERNEL_BIN_LOAD_PHYSICAL_ADDR = PHY_MEM_SIZE - 0x1000 - KERNEL_BIN_MAX_SIZE"
definition KERNEL_VIRTUAL_ADDR_START :: u32 where [simp]: "KERNEL_VIRTUAL_ADDR_START = 0xC0000000 + 0x0800000"
definition KERNEL_PHYSICAL_ADDR_START :: u32 where [simp]: "KERNEL_PHYSICAL_ADDR_START = 0x200000"
definition KERNEL_STACK_TOP :: u32 where [simp]: "KERNEL_STACK_TOP = 0xF0000000"
definition KERNEL_STACK_PHYSICAL_ADDR :: u32 where [simp]: "KERNEL_STACK_PHYSICAL_ADDR = PHY_MEM_SIZE - 4 * 0x1000"

text \<open>The body of \<open>.map_next_page\<close>; \<open>loop\<close> decrements ECX first, so that 0 pages would be \<open>2^32\<close>.\<close>

primrec map_next_page :: "nat \<Rightarrow> u32 \<Rightarrow> u32 \<Rightarrow> 'a vmm_state_scheme \<Rightarrow> 'a vmm_state_scheme option" where
  "map_next_page 0 esi edi s = Some s"
| "map_next_page (Suc n) esi edi s =
     Option.bind (virt_store (PAGE_TABLES_VIRTUAL_ADDR + esi * 4) edi s) (map_next_page n (esi + 1) (edi + 0x1000))"

definition set_pages_mapping :: "u32 \<Rightarrow> u32 \<Rightarrow> u32 \<Rightarrow> 'a vmm_state_scheme \<Rightarrow> 'a vmm_state_scheme option" where
  "set_pages_mapping virt phys_addr pages s =
     map_next_page (if pages = 0 then 2 ^ 32 else unat pages) (drop_bit 12 virt) (phys_addr OR 7) s"

definition allocate_pages_for_kernel :: "'a vmm_state_scheme \<Rightarrow> 'a vmm_state_scheme option" where
  "allocate_pages_for_kernel s =
     Option.bind (set_pages_mapping KERNEL_BIN_LOAD_VIRTUAL_ADDR KERNEL_BIN_LOAD_PHYSICAL_ADDR (drop_bit 12 KERNEL_BIN_MAX_SIZE) s) (\<lambda>s.
     Option.bind (set_pages_mapping KERNEL_VIRTUAL_ADDR_START KERNEL_PHYSICAL_ADDR_START (drop_bit 12 KERNEL_MEM_MAX_SIZE) s) (\<lambda>s.
     set_pages_mapping (KERNEL_STACK_TOP - 0x1000) KERNEL_STACK_PHYSICAL_ADDR 4 s))"

subsection \<open>One page\<close>

definition page_no :: "u32 \<Rightarrow> nat" where
  "page_no va = unat va div 4096"

lemma page_no_eq: "page_no va = page_no vb \<longleftrightarrow> drop_bit 12 va = drop_bit 12 vb"
proof -
  have "unat (drop_bit 12 v) = page_no v" for v :: u32
    unfolding page_no_def by (simp only: unat_drop_bit_eq) (simp only: drop_bit_eq_div, simp)
  then show ?thesis by (metis word_unat_eq_iff)
qed

lemma page_of_nat:
  assumes "v < 1048576"
  shows "page_no (word_of_nat (v * 4096)) = v" "drop_bit 12 (word_of_nat (v * 4096) :: u32) = word_of_nat v"
proof -
  have u: "unat (word_of_nat (v * 4096) :: u32) = v * 4096" using assms by (intro unat_of_nat_u32) simp
  then show "page_no (word_of_nat (v * 4096)) = v" by (simp add: page_no_def)
  have "unat (drop_bit 12 (word_of_nat (v * 4096) :: u32)) = v"
    by (simp only: unat_drop_bit_eq u) (simp only: drop_bit_eq_div, simp)
  moreover have "unat (word_of_nat v :: u32) = v" using assms by (intro unat_of_nat_u32) simp
  ultimately show "drop_bit 12 (word_of_nat (v * 4096) :: u32) = word_of_nat v" by (simp add: word_unat_eq_iff)
qed

lemma window_addr: "PAGE_TABLES_VIRTUAL_ADDR + drop_bit 12 va * 4 = PAGE_TABLES_VIRTUAL_ADDR + dir_index va * 4096 + 4 * tbl_index va"
proof -
  have "unat (drop_bit 12 va) = unat (dir_index va) * 1024 + unat (tbl_index va)"
    unfolding unat_indices by (simp only: unat_drop_bit_eq) (simp only: drop_bit_eq_div, simp)
  from arg_cong [OF this, of "word_of_nat :: nat \<Rightarrow> u32"]
  have "drop_bit 12 va = dir_index va * 1024 + tbl_index va"
    unfolding of_nat_add of_nat_mult of_nat_unat ucast_id by simp
  then show ?thesis by (simp add: algebra_simps)
qed

lemma write_entry_keeps_tlb: "tlb s (drop_bit 12 va) = None \<Longrightarrow> write_entry va w s = s\<lparr>phys := store32 (phys s) (pte_addr s va) w\<rparr>"
  by (simp add: write_entry_def invalidate_page_def fun_upd_idem)

lemma window_store:
  assumes "kernel_layout s" "KERNEL_LOAD_VIRTUAL_ADDR \<le> va" "tlb s = (\<lambda>_. None)"
  shows "virt_store (PAGE_TABLES_VIRTUAL_ADDR + drop_bit 12 va * 4) w s = Some (write_entry va w s)"
proof -
  have "present (pde s va)" using layout_unshared [OF assms(1,2)] by simp
  from mmu_table_window [OF layout_selfmap [OF assms(1)] this] show ?thesis
    unfolding window_addr virt_store_def using assms(3) by (simp add: write_entry_keeps_tlb)
qed

lemma store_one:
  fixes w :: u32
  assumes "kernel_layout s" "tlb s = (\<lambda>_. None)" "0xC0800 \<le> v" "v < 1048576"
  defines "va \<equiv> word_of_nat (v * 4096)"
  defines "t \<equiv> write_entry va w s"
  shows "virt_store (PAGE_TABLES_VIRTUAL_ADDR + word_of_nat v * 4) w s = Some t"
    "kernel_layout t" "tlb t = (\<lambda>_. None)" "t = s\<lparr>phys := phys t\<rparr>"
    "page_no vb \<noteq> v \<Longrightarrow> mmu t vb = mmu s vb"
    "mmu t va = (if present (decode_pte w) then Some (frame_base (decode_pte w) + (va AND 0xFFF)) else None)"
proof -
  have u: "unat va = v * 4096" using assms(4) unfolding va_def by (intro unat_of_nat_u32) simp
  then have k: "KERNEL_LOAD_VIRTUAL_ADDR \<le> va" using assms(3) by (simp only: word_le_nat_alt u) simp
  note pg = page_of_nat [OF assms(4), folded va_def]
  show "virt_store (PAGE_TABLES_VIRTUAL_ADDR + word_of_nat v * 4) w s = Some t"
    using window_store [OF assms(1) k assms(2), of w] pg(2) by (simp add: t_def)
  have ls: "present (pde s va)" "unshared s va" using layout_unshared [OF assms(1) k] by simp_all
  show "kernel_layout t" unfolding t_def by (rule layout_write_entry [OF assms(1) ls(2)])
  have eq: "t = s\<lparr>phys := store32 (phys s) (pte_addr s va) w\<rparr>" using assms(2) by (simp add: t_def write_entry_keeps_tlb)
  show "tlb t = (\<lambda>_. None)" "t = s\<lparr>phys := phys t\<rparr>" by (simp_all add: eq assms(2))
  show "mmu t va = (if present (decode_pte w) then Some (frame_base (decode_pte w) + (va AND 0xFFF)) else None)"
    unfolding t_def by (rule write_entry_mmu(2) [OF ls(2,1)])
  assume "page_no vb \<noteq> v"
  then have "drop_bit 12 vb \<noteq> drop_bit 12 va" using pg(1) page_no_eq [of vb va] by simp
  then show "mmu t vb = mmu s vb" unfolding t_def by (rule write_entry_mmu(1) [OF ls(2)])
qed

lemma map_one:
  assumes "kernel_layout s" "tlb s = (\<lambda>_. None)" "0xC0800 \<le> v" "v < 1048576" "p < 1048576"
  defines "t \<equiv> write_entry (word_of_nat (v * 4096)) (word_of_nat (p * 4096 + 7)) s"
  shows "virt_store (PAGE_TABLES_VIRTUAL_ADDR + word_of_nat v * 4) (word_of_nat (p * 4096 + 7)) s = Some t"
    "kernel_layout t" "tlb t = (\<lambda>_. None)" "t = s\<lparr>phys := phys t\<rparr>"
    "mmu t vb = (if page_no vb = v then Some (word_of_nat (p * 4096) + (vb AND 0xFFF)) else mmu s vb)"
proof -
  define w :: u32 where "w = word_of_nat (p * 4096 + 7)"
  note st = store_one [OF assms(1-4), where w = w, unfolded w_def, folded t_def]
  show "virt_store (PAGE_TABLES_VIRTUAL_ADDR + word_of_nat v * 4) (word_of_nat (p * 4096 + 7)) s = Some t"
    "kernel_layout t" "tlb t = (\<lambda>_. None)" "t = s\<lparr>phys := phys t\<rparr>" by (rule st)+
  have uw: "unat w = p * 4096 + 7" using assms(5) unfolding w_def by (intro unat_of_nat_u32) simp
  have up: "unat (word_of_nat (p * 4096) :: u32) = p * 4096" using assms(5) by (intro unat_of_nat_u32) simp
  have "present (decode_pte w)" using uw by (simp add: decode_present)
  moreover have "frame_base (decode_pte w) = word_of_nat (p * 4096)"
    using assms(5) by (simp only: word_unat_eq_iff decode_base uw up) simp
  ultimately have m: "mmu t (word_of_nat (v * 4096)) = Some (word_of_nat (p * 4096) + (word_of_nat (v * 4096) AND 0xFFF))"
    using st(6) unfolding w_def by simp
  show "mmu t vb = (if page_no vb = v then Some (word_of_nat (p * 4096) + (vb AND 0xFFF)) else mmu s vb)"
  proof (cases "page_no vb = v")
    case True
    then have "drop_bit 12 vb = drop_bit 12 (word_of_nat (v * 4096) :: u32)" using page_of_nat(1) [OF assms(4)] page_no_eq by metis
    from mmu_same_page(2) [OF this m] True show ?thesis by simp
  qed (simp add: st(5))
qed

lemma map_pages:
  "kernel_layout s \<Longrightarrow> tlb s = (\<lambda>_. None) \<Longrightarrow> 0xC0800 \<le> v \<Longrightarrow> v + n \<le> 1048576 \<Longrightarrow> p + n \<le> 1048576 \<Longrightarrow>
   \<exists>t. map_next_page n (word_of_nat v) (word_of_nat (p * 4096 + 7)) s = Some t \<and> kernel_layout t \<and> tlb t = (\<lambda>_. None) \<and>
     t = s\<lparr>phys := phys t\<rparr> \<and>
     (\<forall>vb. mmu t vb = (if v \<le> page_no vb \<and> page_no vb < v + n
        then Some (word_of_nat ((p + (page_no vb - v)) * 4096) + (vb AND 0xFFF)) else mmu s vb))"
proof (induction n arbitrary: s v p)
  case 0
  have "\<not> (v \<le> page_no vb \<and> page_no vb < v + 0)" for vb by simp
  with 0 show ?case by (intro exI [of _ s]) (simp only: map_next_page.simps if_False simp_thms, simp)
next
  case (Suc n)
  have r: "v < 1048576" "p < 1048576" using Suc.prems by simp_all
  define t where "t = write_entry (word_of_nat (v * 4096)) (word_of_nat (p * 4096 + 7)) s"
  note m = map_one [OF Suc.prems(1-3) r, folded t_def]
  have step: "word_of_nat v + 1 = (word_of_nat (Suc v) :: u32)"
    "word_of_nat (p * 4096 + 7) + 0x1000 = (word_of_nat (Suc p * 4096 + 7) :: u32)" by simp_all
  from Suc.IH [OF m(2,3), of "Suc v" "Suc p"] Suc.prems obtain u where
    u: "map_next_page n (word_of_nat (Suc v)) (word_of_nat (Suc p * 4096 + 7)) t = Some u" "kernel_layout u" "tlb u = (\<lambda>_. None)"
      "u = t\<lparr>phys := phys u\<rparr>"
      "\<And>vb. mmu u vb = (if Suc v \<le> page_no vb \<and> page_no vb < Suc v + n
         then Some (word_of_nat ((Suc p + (page_no vb - Suc v)) * 4096) + (vb AND 0xFFF)) else mmu t vb)" by auto
  have "map_next_page (Suc n) (word_of_nat v) (word_of_nat (p * 4096 + 7)) s = Some u"
    unfolding map_next_page.simps m(1) bind.bind_lunit step by (rule u(1))
  moreover have "u = s\<lparr>phys := phys u\<rparr>" using u(4) m(4) by (metis vmm_state.fold_congs(1) vmm_state.surjective vmm_state.update_convs(1))
  moreover have "mmu u vb = (if v \<le> page_no vb \<and> page_no vb < v + Suc n
        then Some (word_of_nat ((p + (page_no vb - v)) * 4096) + (vb AND 0xFFF)) else mmu s vb)" for vb
  proof -
    consider "page_no vb = v" | "page_no vb < v" | k where "page_no vb = Suc v + k"
      by (metis add.commute less_iff_Suc_add linorder_neqE_nat add_Suc)
    then show ?thesis by cases (simp_all add: u(5) m(5))
  qed
  ultimately show ?case using u(2,3) by blast
qed

subsection \<open>The mapping the kernel is entered with\<close>

text \<open>The frame behind each page from \<open>0xC0800\<close> on: the kernel, its stack, the image from the disk.\<close>

definition loader_frame :: "nat \<Rightarrow> nat option" where
  "loader_frame v =
     (if 0xC0800 \<le> v \<and> v < 0xC0900 then Some (0x200 + (v - 0xC0800))
      else if 0xEFFFF \<le> v \<and> v < 0xF0003 then Some (0x1FFC + (v - 0xEFFFF))
      else if 0xFFF00 \<le> v \<and> v < 0x100000 then Some (0x1EFF + (v - 0xFFF00)) else None)"

lemma of_nat_unat_self: "word_of_nat (unat x) = (x :: u32)"
  by simp

lemma page_no_bound: "page_no va < 0x100000"
  using unat_u32_bound [of va] by (simp add: page_no_def less_mult_imp_div_less)

lemma set_pages_mapping_pages:
  assumes "unat virt = v * 4096" "unat pa = p * 4096" "unat n = k" "0 < k"
  shows "set_pages_mapping virt pa n s = map_next_page k (word_of_nat v) (word_of_nat (p * 4096 + 7)) s"
proof -
  have "v < 1048576" using assms(1) unat_u32_bound [of virt] by simp
  moreover have "virt = word_of_nat (v * 4096)" by (metis assms(1) of_nat_unat_self)
  ultimately have d: "drop_bit 12 virt = word_of_nat v" using page_of_nat(2) by simp
  have "unat (pa OR 7) = p * 4096 + 7"
  proof -
    have "p * 4096 AND mask 3 = 0" by (simp add: take_bit_eq_mask [symmetric] take_bit_eq_mod)
    then have "p * 4096 + 7 = p * 4096 OR 7" by (simp add: mask_eq_exp_minus_1 disjunctive_add_eq_or)
    then show ?thesis by (simp add: unsigned_or_eq assms(2))
  qed
  then have e: "pa OR 7 = word_of_nat (p * 4096 + 7)" by (metis of_nat_unat_self)
  have "n \<noteq> 0" using assms(3,4) by auto
  then show ?thesis by (simp add: set_pages_mapping_def d e assms(3))
qed

lemma allocate_pages_mmu:
  assumes "phys s = setup_page m" "dir_base s = KERNEL_PAGE_DIR_PHY" "tlb s = (\<lambda>_. None)"
    and "\<forall>a. 0x102000 \<le> unat a \<longrightarrow> unat a < 0x200000 \<longrightarrow> m a = 0"
  shows "\<exists>t. allocate_pages_for_kernel s = Some t \<and> kernel_layout t \<and> tlb t = (\<lambda>_. None) \<and> t = s\<lparr>phys := phys t\<rparr> \<and>
    (\<forall>va. KERNEL_LOAD_VIRTUAL_ADDR \<le> va \<longrightarrow>
       mmu t va = map_option (\<lambda>f. word_of_nat (f * 4096) + (va AND 0xFFF)) (loader_frame (page_no va))) \<and>
    (\<forall>va. va < KERNEL_LOAD_VIRTUAL_ADDR \<longrightarrow> mmu t va = mmu s va)"
proof -
  have l: "kernel_layout s" by (rule setup_page_kernel_layout [OF assms(1,2)])
  have empty: "mmu s va = None" if "KERNEL_LOAD_VIRTUAL_ADDR \<le> va" for va
    by (rule setup_page_tables_as_found(2) [OF assms(1,2) that assms(4)])
  from map_pages [OF l assms(3), of "0xFFF00" "0x100" "0x1EFF"] obtain t1 where
    t1: "map_next_page 0x100 (word_of_nat 0xFFF00) (word_of_nat (0x1EFF * 4096 + 7)) s = Some t1" "kernel_layout t1"
      "tlb t1 = (\<lambda>_. None)" "t1 = s\<lparr>phys := phys t1\<rparr>"
      "\<And>vb. mmu t1 vb = (if 0xFFF00 \<le> page_no vb \<and> page_no vb < 0xFFF00 + 0x100
         then Some (word_of_nat ((0x1EFF + (page_no vb - 0xFFF00)) * 4096) + (vb AND 0xFFF)) else mmu s vb)" by auto
  from map_pages [OF t1(2,3), of "0xC0800" "0x100" "0x200"] obtain t2 where
    t2: "map_next_page 0x100 (word_of_nat 0xC0800) (word_of_nat (0x200 * 4096 + 7)) t1 = Some t2" "kernel_layout t2"
      "tlb t2 = (\<lambda>_. None)" "t2 = t1\<lparr>phys := phys t2\<rparr>"
      "\<And>vb. mmu t2 vb = (if 0xC0800 \<le> page_no vb \<and> page_no vb < 0xC0800 + 0x100
         then Some (word_of_nat ((0x200 + (page_no vb - 0xC0800)) * 4096) + (vb AND 0xFFF)) else mmu t1 vb)" by auto
  from map_pages [OF t2(2,3), of "0xEFFFF" 4 "0x1FFC"] obtain t3 where
    t3: "map_next_page 4 (word_of_nat 0xEFFFF) (word_of_nat (0x1FFC * 4096 + 7)) t2 = Some t3" "kernel_layout t3"
      "tlb t3 = (\<lambda>_. None)" "t3 = t2\<lparr>phys := phys t3\<rparr>"
      "\<And>vb. mmu t3 vb = (if 0xEFFFF \<le> page_no vb \<and> page_no vb < 0xEFFFF + 4
         then Some (word_of_nat ((0x1FFC + (page_no vb - 0xEFFFF)) * 4096) + (vb AND 0xFFF)) else mmu t2 vb)" by auto
  have "set_pages_mapping KERNEL_BIN_LOAD_VIRTUAL_ADDR KERNEL_BIN_LOAD_PHYSICAL_ADDR (drop_bit 12 KERNEL_BIN_MAX_SIZE) s = Some t1"
    using t1(1) by (subst set_pages_mapping_pages [where v = "0xFFF00" and p = "0x1EFF" and k = "0x100"]) simp_all
  moreover have "set_pages_mapping KERNEL_VIRTUAL_ADDR_START KERNEL_PHYSICAL_ADDR_START (drop_bit 12 KERNEL_MEM_MAX_SIZE) t1 = Some t2"
    using t2(1) by (subst set_pages_mapping_pages [where v = "0xC0800" and p = "0x200" and k = "0x100"]) simp_all
  moreover have "set_pages_mapping (KERNEL_STACK_TOP - 0x1000) KERNEL_STACK_PHYSICAL_ADDR 4 t2 = Some t3"
    using t3(1) by (subst set_pages_mapping_pages [where v = "0xEFFFF" and p = "0x1FFC" and k = 4]) simp_all
  ultimately have "allocate_pages_for_kernel s = Some t3" by (simp add: allocate_pages_for_kernel_def)
  moreover have "t3 = s\<lparr>phys := phys t3\<rparr>"
    using t1(4) t2(4) t3(4) by (metis vmm_state.fold_congs(1) vmm_state.surjective vmm_state.update_convs(1))
  moreover have "mmu t3 va = map_option (\<lambda>f. word_of_nat (f * 4096) + (va AND 0xFFF)) (loader_frame (page_no va))"
    if "KERNEL_LOAD_VIRTUAL_ADDR \<le> va" for va
    using page_no_bound [of va] empty [OF that] unfolding t3(5) t2(5) t1(5) loader_frame_def by auto
  moreover have "mmu t3 va = mmu s va" if "va < KERNEL_LOAD_VIRTUAL_ADDR" for va
  proof -
    have "page_no va < 0xC0800" using that by (simp add: page_no_def word_less_nat_alt less_mult_imp_div_less)
    then show ?thesis by (simp add: t3(5) t2(5) t1(5))
  qed
  ultimately show ?thesis using t3(2,3) by blast
qed

text \<open>The loader maps no page of the heap; the page fault handler does.\<close>

lemma heap_area_no_frame: "heap_area va \<Longrightarrow> loader_frame (page_no va) = None"
proof -
  assume "heap_area va"
  then have "0xC0C00 \<le> page_no va" "page_no va < 0xE0000"
    by (simp_all add: heap_area_def KHEAP_START_def KHEAP_MAX_def word_le_nat_alt word_less_nat_alt page_no_def
      less_mult_imp_div_less less_eq_div_iff_mult_less_eq)
  then show ?thesis by (simp add: loader_frame_def)
qed

text \<open>The mapping when the tables are those of \<open>setup_page\<close>, over memory that is zero.\<close>

theorem loader_maps:
  assumes "phys s = setup_page m" "dir_base s = KERNEL_PAGE_DIR_PHY" "tlb s = (\<lambda>_. None)"
    and "\<forall>a. 0x102000 \<le> unat a \<longrightarrow> unat a < 0x200000 \<longrightarrow> m a = 0"
  shows "\<exists>t. allocate_pages_for_kernel s = Some t \<and> t = s\<lparr>phys := phys t\<rparr> \<and> kernel_layout t \<and> tlb_coherent t \<and> private_area t \<and>
    (\<forall>va. KERNEL_LOAD_VIRTUAL_ADDR \<le> va \<longrightarrow>
       mmu t va = map_option (\<lambda>f. word_of_nat (f * 4096) + (va AND 0xFFF)) (loader_frame (page_no va)))"
proof -
  obtain t where t: "allocate_pages_for_kernel s = Some t" "kernel_layout t" "tlb t = (\<lambda>_. None)" "t = s\<lparr>phys := phys t\<rparr>"
    "\<And>va. KERNEL_LOAD_VIRTUAL_ADDR \<le> va \<Longrightarrow>
       mmu t va = map_option (\<lambda>f. word_of_nat (f * 4096) + (va AND 0xFFF)) (loader_frame (page_no va))"
    using allocate_pages_mmu [OF assms] by blast
  have "private_area t" using t(5) [OF area_kernel] by (auto simp: private_area_def heap_area_no_frame)
  moreover have "tlb_coherent t" by (simp add: tlb_coherent_def t(3))
  ultimately show ?thesis using t by blast
qed

text \<open>Of the four pages for the stack one is below its top; three frames of the image are the stack's too.\<close>

lemma stack_has_one_page: "loader_frame (page_no (KERNEL_STACK_TOP - 0x1001)) = None"
  by (simp add: loader_frame_def page_no_def)

lemma image_overlaps_stack: "i < 3 \<Longrightarrow> loader_frame (0xEFFFF + i) = loader_frame (0xFFFFD + i)"
  by (simp add: loader_frame_def)

lemma loader_frame_inj:
  assumes "loader_frame v = Some f" "loader_frame w = Some f" "v < 0xFFFFD" "w < 0xFFFFD"
  shows "v = w"
  using assms by (auto simp: loader_frame_def split: if_splits)

subsection \<open>Taking pages away\<close>

text \<open>\<open>clear_pages_mapping\<close>, which nothing calls. It adds to EDI, which it has not saved, and it flushes no TLB entry.\<close>

primrec clear_next_page_map :: "nat \<Rightarrow> u32 \<Rightarrow> 'a vmm_state_scheme \<Rightarrow> 'a vmm_state_scheme option" where
  "clear_next_page_map 0 esi s = Some s"
| "clear_next_page_map (Suc n) esi s =
     Option.bind (virt_store (PAGE_TABLES_VIRTUAL_ADDR + esi * 4) 0 s) (clear_next_page_map n (esi + 1))"

definition clear_pages_mapping :: "u32 \<Rightarrow> u32 \<Rightarrow> 'a vmm_state_scheme \<Rightarrow> 'a vmm_state_scheme option" where
  "clear_pages_mapping virt pages s = clear_next_page_map (if pages = 0 then 2 ^ 32 else unat pages) (drop_bit 12 virt) s"

lemma clear_pages:
  "kernel_layout s \<Longrightarrow> tlb s = (\<lambda>_. None) \<Longrightarrow> 0xC0800 \<le> v \<Longrightarrow> v + n \<le> 1048576 \<Longrightarrow>
   \<exists>t. clear_next_page_map n (word_of_nat v) s = Some t \<and> kernel_layout t \<and>
     (\<forall>vb. mmu t vb = (if v \<le> page_no vb \<and> page_no vb < v + n then None else mmu s vb))"
proof (induction n arbitrary: s v)
  case 0
  then show ?case by (intro exI [of _ s]) auto
next
  case (Suc n)
  define t where "t = write_entry (word_of_nat (v * 4096)) 0 s"
  have v: "v < 1048576" using Suc.prems(4) by simp
  note st = store_one [OF Suc.prems(1-3) v, where w = 0, folded t_def]
  have none: "mmu t vb = None" if "page_no vb = v" for vb
  proof (rule ccontr)
    assume "mmu t vb \<noteq> None"
    then obtain pa where "mmu t vb = Some pa" by blast
    moreover have "drop_bit 12 (word_of_nat (v * 4096)) = drop_bit 12 vb" using that page_of_nat(1) [OF v] page_no_eq by metis
    moreover have "\<not> present (decode_pte 0)" by (simp add: decode_present)
    ultimately show False using mmu_same_page(1) [of "word_of_nat (v * 4096)" vb t] st(6) by simp
  qed
  have step: "word_of_nat v + 1 = (word_of_nat (Suc v) :: u32)" by simp
  from Suc.IH [OF st(2,3), of "Suc v"] Suc.prems obtain u where
    u: "clear_next_page_map n (word_of_nat (Suc v)) t = Some u" "kernel_layout u"
      "\<And>vb. mmu u vb = (if Suc v \<le> page_no vb \<and> page_no vb < Suc v + n then None else mmu t vb)" by auto
  have "clear_next_page_map (Suc n) (word_of_nat v) s = Some u"
    unfolding clear_next_page_map.simps st(1) bind.bind_lunit step by (rule u(1))
  moreover have "mmu u vb = (if v \<le> page_no vb \<and> page_no vb < v + Suc n then None else mmu s vb)" for vb
    by (cases "page_no vb = v") (auto simp: u(3) none st(5))
  ultimately show ?case using u(2) by blast
qed

end
