(* ===== verification/Mode_switch.thy ===== *)
theory Mode_switch
  imports Boot_text Boot_sector Loader "HOL-Library.Monad_Syntax"
begin

text \<open>
  The loader turns paging on: \<open>setup_page\<close> and \<open>enable_page\<close> of \<open>boot/loader.S\<close>, instruction by
  instruction, with the stack and the two returns. Until \<open>mov cr0, eax\<close> a linear address is a
  physical one; from there on every access goes through the tables just built, the fetch of the next
  instruction and the \<open>ret\<close> included. The directory entries 0 and 768 are what makes this work.
\<close>

subsection \<open>The processor\<close>

text \<open>\<open>gs_desc\<close> is the descriptor that the processor keeps for GS from the last load of the register.\<close>

record pm_cpu =
  cr0 :: u32
  esp :: u32
  gs_desc :: gdt_entry

definition linear :: "pm_cpu \<Rightarrow> 'a vmm_state_scheme \<Rightarrow> u32 \<Rightarrow> u32 option" where
  "linear c s a = (if bit (cr0 c) 31 then mmu s a else Some a)"

definition ld32 :: "pm_cpu \<Rightarrow> u32 \<Rightarrow> 'a vmm_state_scheme \<Rightarrow> u32 option" where
  "ld32 c a s = map_option (load32 (phys s)) (linear c s a)"

definition st32 :: "pm_cpu \<Rightarrow> u32 \<Rightarrow> u32 \<Rightarrow> 'a vmm_state_scheme \<Rightarrow> 'a vmm_state_scheme option" where
  "st32 c a w s = map_option (\<lambda>p. s\<lparr>phys := store32 (phys s) p w\<rparr>) (linear c s a)"

definition st16 :: "pm_cpu \<Rightarrow> u32 \<Rightarrow> u16 \<Rightarrow> 'a vmm_state_scheme \<Rightarrow> 'a vmm_state_scheme option" where
  "st16 c a w s = map_option (\<lambda>p. s\<lparr>phys := store8 (store8 (phys s) p (ucast w)) (p + 1) (ucast (drop_bit 8 w))\<rparr>)
     (linear c s a)"

definition push :: "u32 \<Rightarrow> pm_cpu \<Rightarrow> 'a vmm_state_scheme \<Rightarrow> (pm_cpu \<times> 'a vmm_state_scheme) option" where
  "push w c s = do { s \<leftarrow> st32 c (esp c - 4) w s; Some (c\<lparr>esp := esp c - 4\<rparr>, s) }"

definition ret :: "pm_cpu \<Rightarrow> 'a vmm_state_scheme \<Rightarrow> (u32 \<times> pm_cpu) option" where
  "ret c s = do { eip \<leftarrow> ld32 c (esp c) s; Some (eip, c\<lparr>esp := esp c + 4\<rparr>) }"

text \<open>\<open>sgdt\<close> and \<open>lgdt\<close>: the limit in two bytes, the base in four.\<close>

definition sgdt :: "u32 \<Rightarrow> pm_cpu \<Rightarrow> 'a vmm_state_scheme \<Rightarrow> 'a vmm_state_scheme option" where
  "sgdt a c s = do { g \<leftarrow> gdtr s; s \<leftarrow> st16 c a (gdt_limit g) s; st32 c (a + 2) (gdt_base g) s }"

definition lgdt :: "u32 \<Rightarrow> pm_cpu \<Rightarrow> 'a vmm_state_scheme \<Rightarrow> 'a vmm_state_scheme option" where
  "lgdt a c s = do { l \<leftarrow> ld32 c a s; b \<leftarrow> ld32 c (a + 2) s;
     Some (s\<lparr>gdtr := Some \<lparr>gdt_limit = ucast l, gdt_base = b\<rparr>\<rparr>) }"

text \<open>The two words of a descriptor, as \<open>GDT_ENTRY\<close> lays them out.\<close>

definition descriptor :: "u32 \<Rightarrow> u32 \<Rightarrow> gdt_entry" where
  "descriptor lo hi =
     \<lparr>limit_low = ucast lo, base_low = ucast (drop_bit 16 lo), base_mid = ucast hi,
      access = ucast (drop_bit 8 hi), granularity = ucast (drop_bit 16 hi), base_high = ucast (drop_bit 24 hi)\<rparr>"

text \<open>\<open>mov gs, ax\<close>: a selector past the limit of the table is \<open>#GP\<close>, which the loader has no handler for.\<close>

definition load_gs :: "u16 \<Rightarrow> pm_cpu \<Rightarrow> 'a vmm_state_scheme \<Rightarrow> (pm_cpu \<times> 'a vmm_state_scheme) option" where
  "load_gs sel c s = do {
     g \<leftarrow> gdtr s;
     if unat (sel AND 0xFFF8) + 7 \<le> unat (gdt_limit g) then do {
       lo \<leftarrow> ld32 c (gdt_base g + ucast (sel AND 0xFFF8)) s;
       hi \<leftarrow> ld32 c (gdt_base g + ucast (sel AND 0xFFF8) + 4) s;
       Some (c\<lparr>gs_desc := descriptor lo hi\<rparr>, s\<lparr>segs := (segs s)\<lparr>seg_gs := sel\<rparr>\<rparr>)
     } else None }"

subsection \<open>The switch\<close>

definition SELECTOR_VIDEO :: u16 where [simp]: "SELECTOR_VIDEO = push_bit 3 3"
definition PAGE_DIR_PHYISCAL_ADDR :: u32 where [simp]: "PAGE_DIR_PHYISCAL_ADDR = 0x100000 + 0x1000"
definition CR0_PG :: u32 where [simp]: "CR0_PG = push_bit 31 1"

text \<open>
  \<open>gd\<close> is the address of \<open>gdt_descriptor\<close>. The store at the moved ESP comes before paging is on: it is
  to the physical address, 3 GB up. The result is the address that \<open>ret\<close> goes to, and the state.
\<close>

definition enable_page :: "u32 \<Rightarrow> pm_cpu \<Rightarrow> 'a vmm_state_scheme \<Rightarrow> (u32 \<times> pm_cpu \<times> 'a vmm_state_scheme) option" where
  "enable_page gd c s = do {
     s \<leftarrow> sgdt gd c s;
     ebx \<leftarrow> ld32 c (gd + 2) s;
     w \<leftarrow> ld32 c (ebx + 0x18 + 4) s;
     s \<leftarrow> st32 c (ebx + 0x18 + 4) (w OR KERNEL_SPACE_START) s;
     b \<leftarrow> ld32 c (gd + 2) s;
     s \<leftarrow> st32 c (gd + 2) (b + KERNEL_SPACE_START) s;
     eax \<leftarrow> ld32 c (esp c) s;
     let c = c\<lparr>esp := esp c + KERNEL_SPACE_START\<rparr>;
     s \<leftarrow> st32 c (esp c) eax s;
     let s = s\<lparr>cr3 := PAGE_DIR_PHYISCAL_ADDR, tlb := (\<lambda>_. None)\<rparr>;
     let c = c\<lparr>cr0 := cr0 c OR CR0_PG\<rparr>;
     s \<leftarrow> lgdt gd c s;
     (c, s) \<leftarrow> load_gs SELECTOR_VIDEO c s;
     (eip, c) \<leftarrow> ret c s;
     Some (eip, c, s) }"

text \<open>
  \<open>call setup_page\<close>, which fills the tables and calls \<open>enable_page\<close>: \<open>r1\<close> and \<open>r2\<close> are the addresses behind
  the two calls. The result begins with where the two \<open>ret\<close>s go. What the call of \<open>memset\<close> leaves in the
  28 bytes below \<open>r1\<close> is left out; \<open>r2\<close> is pushed over the first four of them.
\<close>

definition call_setup_page ::
  "u32 \<Rightarrow> u32 \<Rightarrow> u32 \<Rightarrow> pm_cpu \<Rightarrow> 'a vmm_state_scheme \<Rightarrow> (u32 \<times> u32 \<times> pm_cpu \<times> 'a vmm_state_scheme) option" where
  "call_setup_page gd r1 r2 c s = do {
     (c, s) \<leftarrow> push r1 c s;
     let s = s\<lparr>phys := setup_page (phys s)\<rparr>;
     (c, s) \<leftarrow> push r2 c s;
     (eip2, c, s) \<leftarrow> enable_page gd c s;
     (eip1, c) \<leftarrow> ret c s;
     Some (eip2, eip1, c, s) }"

subsection \<open>The tables do not depend on what was in the memory\<close>

lemma store32_both:
  assumes "only_in R m p" "R - {unat a..<unat a + 4} \<subseteq> R'"
  shows "only_in R' (store32 m a v) (store32 p a v)"
  unfolding only_in_def
proof (intro allI impI)
  fix x :: u32 assume x: "unat x \<notin> R'"
  show "store32 p a v x = store32 m a v x"
  proof (cases "unat x \<in> R")
    case True
    then have r: "unat x \<in> {unat a..<unat a + 4}" using assms(2) x by blast
    then have d: "unat (x - a) = unat x - unat a" by (simp add: unat_sub word_le_nat_alt)
    with r have "unat (x - a) = 0 \<or> unat (x - a) = 1 \<or> unat (x - a) = 2 \<or> unat (x - a) = 3" by auto
    then have "x - a = 0 \<or> x - a = 1 \<or> x - a = 2 \<or> x - a = 3" by (simp add: word_unat_eq_iff)
    then have "x = a \<or> x = a + 1 \<or> x = a + 2 \<or> x = a + 3" by (auto simp: algebra_simps)
    then show ?thesis by (auto simp: store32_def)
  next
    case False
    then show ?thesis using assms(1) by (simp add: only_in_def store32_def)
  qed
qed

lemma fold_store_both:
  assumes "only_in R m p" "unat base + 4 * n \<le> 4294967296" "R - {unat base..<unat base + 4 * n} \<subseteq> R'"
  shows "only_in R' (fold (\<lambda>k m. store32 m (base + 4 * word_of_nat k) (v k)) [0..<n] m)
    (fold (\<lambda>k m. store32 m (base + 4 * word_of_nat k) (v k)) [0..<n] p)"
proof -
  have "only_in (R - {unat base..<unat base + 4 * n}) (fold (\<lambda>k m. store32 m (base + 4 * word_of_nat k) (v k)) [0..<n] m)
    (fold (\<lambda>k m. store32 m (base + 4 * word_of_nat k) (v k)) [0..<n] p)" using assms(2)
  proof (induction n)
    case 0
    then show ?case using assms(1) by simp
  next
    case (Suc n)
    have "unat (4 * word_of_nat n :: u32) = 4 * n" using Suc.prems by (simp add: unat_word_ariths unat_of_nat_u32)
    then have a: "unat (base + 4 * word_of_nat n) = unat base + 4 * n" using Suc.prems by (subst unat_add_u32) simp_all
    have "only_in (R - {unat base..<unat base + 4 * n}) (fold (\<lambda>k m. store32 m (base + 4 * word_of_nat k) (v k)) [0..<n] m)
      (fold (\<lambda>k m. store32 m (base + 4 * word_of_nat k) (v k)) [0..<n] p)" using Suc by simp
    then show ?case by (auto simp: a intro!: store32_both)
  qed
  then show ?thesis using assms(3) by (rule only_in_mono)
qed

text \<open>The bytes that \<open>setup_page\<close> writes: the first 1 KB of the table at \<open>0x100000\<close> and the directory.\<close>

definition page_setup :: "nat set" where
  "page_setup = {0x100000..<0x100400} \<union> {0x101000..<0x102000}"

lemma zero_page_both: "only_in (- {0x101000..<0x102000}) (zero_page 0x101000 m) (zero_page 0x101000 p)"
  by (auto simp: only_in_def zero_page_def word_le_nat_alt word_less_nat_alt)

lemma setup_page_both: "only_in (- page_setup) (setup_page m) (setup_page p)"
  unfolding setup_page_def Let_def
  by (rule fold_store_both [where R = "- {0x101000..<0x102000}"],
      rule fold_store_both [where R = "- {0x101000..<0x102000}" and R' = "- {0x101000..<0x102000}"],
      (rule store32_both [where R = "- {0x101000..<0x102000}" and R' = "- {0x101000..<0x102000}"])+, rule zero_page_both)
    (auto simp: page_setup_def)

lemma store32_in: "only_in R m p \<Longrightarrow> {unat a..<unat a + 4} \<subseteq> R \<Longrightarrow> unat a + 4 \<le> 4294967296 \<Longrightarrow> only_in R m (store32 p a v)"
  using only_in_store32 [of R m p "unat a" v] by simp

lemma fold_store_in:
  assumes "only_in R m p" "unat base + 4 * n \<le> 4294967296" "{unat base..<unat base + 4 * n} \<subseteq> R"
  shows "only_in R m (fold (\<lambda>k m. store32 m (base + 4 * word_of_nat k) (v k)) [0..<n] p)"
  using assms(2,3)
proof (induction n)
  case 0
  then show ?case using assms(1) by simp
next
  case (Suc n)
  have "unat (4 * word_of_nat n :: u32) = 4 * n" using Suc.prems by (simp add: unat_word_ariths unat_of_nat_u32)
  then have a: "unat (base + 4 * word_of_nat n) = unat base + 4 * n" using Suc.prems by (subst unat_add_u32) simp_all
  have "only_in R m (fold (\<lambda>k m. store32 m (base + 4 * word_of_nat k) (v k)) [0..<n] p)"
    by (rule Suc.IH) (use Suc.prems in auto)
  then show ?case using Suc.prems by (auto simp: a intro!: store32_in)
qed

lemma setup_page_in: "only_in page_setup m (setup_page m)"
proof -
  have "only_in page_setup m (zero_page 0x101000 m)"
    by (auto simp: only_in_def zero_page_def page_setup_def word_le_nat_alt word_less_nat_alt)
  then show ?thesis unfolding setup_page_def Let_def
    by (intro fold_store_in store32_in) (auto simp: page_setup_def)
qed

text \<open>A memory that has the tables is one that \<open>setup_page\<close> leaves as it is.\<close>

lemma setup_page_fixed:
  assumes "only_in (- page_setup) (setup_page m) p"
  shows "setup_page p = p"
proof
  fix x
  show "setup_page p x = p x"
    using assms setup_page_both [of m p] setup_page_in [of p] by (cases "unat x \<in> page_setup") (auto simp: only_in_def)
qed

subsection \<open>The low megabyte\<close>

text \<open>It is mapped twice: where it is, and 3 GB up.\<close>

lemma low_pte:
  assumes "k < 256"
  shows "load32 (setup_page m) (word_of_nat (0x100000 + 4 * k)) = word_of_nat (4096 * k + 7)"
proof -
  have "unat (word_of_nat (0x100000 + 4 * k) :: u32) = 0x100000 + 4 * k" using assms by (intro unat_of_nat_u32) simp
  then show ?thesis unfolding setup_page_def Let_def
    using assms load32_fold_store [of "0x100000" 256 "word_of_nat (0x100000 + 4 * k)" "\<lambda>k. (0 OR 7) + 4096 * word_of_nat k"]
    by simp
qed

lemma low_entry:
  assumes "phys s = setup_page m" "dir_base s = KERNEL_PAGE_DIR_PHY"
    and d: "unat (dir_index va) = 0 \<or> unat (dir_index va) = 768" and t: "unat (tbl_index va) < 256"
  shows "mmu s va = Some (word_of_nat (4096 * unat (tbl_index va)) + (va AND 0xFFF))"
proof -
  have "kernel_layout s" by (rule setup_page_kernel_layout [OF assms(1,2)])
  from layout_pde(1) [OF this, of va] d have p: "present (pde s va)" "unat (pte_addr s va) = 0x100000 + 4 * unat (tbl_index va)"
    by (auto simp: boot_table_def)
  then have "pte_addr s va = word_of_nat (0x100000 + 4 * unat (tbl_index va))" using t by (simp only: word_unat_eq_iff p(2)) (subst unat_of_nat_u32, simp_all)
  then have e: "pte s va = decode_pte (word_of_nat (4096 * unat (tbl_index va) + 7))"
    using low_pte [OF t] by (simp add: pte_def assms(1))
  have u: "unat (word_of_nat (4096 * unat (tbl_index va) + 7) :: u32) = 4096 * unat (tbl_index va) + 7"
    using t by (intro unat_of_nat_u32) simp
  then have "present (pte s va)" unfolding e decode_present bit_unsigned_iff by simp
  moreover have "unat (frame_base (pte s va)) = 4096 * unat (tbl_index va)" unfolding e decode_base u by simp
  then have "frame_base (pte s va) = word_of_nat (4096 * unat (tbl_index va))"
    using t by (simp only: word_unat_eq_iff) (subst unat_of_nat_u32, simp_all)
  ultimately show ?thesis using p(1) by (simp add: mmu_def)
qed

lemma low_mapped:
  assumes "phys s = setup_page m" "dir_base s = KERNEL_PAGE_DIR_PHY" "unat va < 0x100000"
  shows "mmu s va = Some va" "mmu s (va + 0xC0000000) = Some va"
proof -
  have u: "unat (va + 0xC0000000) = unat va + 3221225472" using assms(3) by (subst unat_add_u32) simp_all
  have i: "unat (dir_index va) = 0" "unat (dir_index (va + 0xC0000000)) = 768"
    "unat (tbl_index va) = unat va div 4096" "unat (tbl_index (va + 0xC0000000)) = unat va div 4096"
  proof -
    have q: "unat va div 4096 < 256" using assms(3) by simp
    have "(unat va + 3221225472) div 4096 = unat va div 4096 + 786432" by simp
    moreover have "(n + 786432) div 1024 = n div 1024 + 768" "(n + 786432) mod 1024 = n mod 1024" for n :: nat
      using div_mult_self1 [of 1024 n 768] mod_mult_self1 [of n 768 1024] by simp_all
    ultimately show "unat (dir_index va) = 0" "unat (dir_index (va + 0xC0000000)) = 768"
      "unat (tbl_index va) = unat va div 4096" "unat (tbl_index (va + 0xC0000000)) = unat va div 4096"
      using q unfolding unat_indices u by simp_all
  qed
  have o: "word_of_nat (4096 * (unat va div 4096)) + (w AND 0xFFF) = va" if "unat w mod 4096 = unat va mod 4096" for w :: u32
  proof -
    have "unat (word_of_nat (4096 * (unat va div 4096)) :: u32) = 4096 * (unat va div 4096)"
      using assms(3) by (intro unat_of_nat_u32) simp
    moreover have "4096 * (unat va div 4096) + unat va mod 4096 = unat va" by simp
    ultimately show ?thesis using assms(3) that
      by (simp only: word_unat_eq_iff unat_and_masks) (subst unat_add_u32, simp_all add: unat_and_masks)
  qed
  have t: "unat va div 4096 < 256" using assms(3) by simp
  have m: "unat (va + 0xC0000000) mod 4096 = unat va mod 4096"
    using mod_mult_self1 [of "unat va" 786432 4096] unfolding u by simp
  show "mmu s va = Some va"
    using low_entry [OF assms(1,2), of va] t o [OF refl] unfolding i by simp
  show "mmu s (va + 0xC0000000) = Some va"
    using low_entry [OF assms(1,2), of "va + 0xC0000000"] t o [OF m] unfolding i by simp
qed

text \<open>Whatever view of the memory goes through these tables shows the low megabyte.\<close>

lemma low_memory_mapped:
  assumes "phys s = setup_page m" "dir_base s = KERNEL_PAGE_DIR_PHY" "\<And>va pa. mmu s va = Some pa \<Longrightarrow> v va = phys s pa"
  shows "low_memory (phys s) v"
  unfolding low_memory_def
proof (intro allI impI)
  fix x :: nat assume "x < 0x100000"
  then have "unat (word_of_nat x :: u32) < 0x100000" by (simp add: unat_of_nat_u32)
  from low_mapped(2) [OF assms(1,2) this, THEN assms(3)] show "v (word_of_nat (0xC0000000 + x)) = phys s (word_of_nat x)"
    by (simp add: add.commute)
qed

subsection \<open>Accesses\<close>

lemma flat [simp]:
  assumes "\<not> bit (cr0 c) 31"
  shows "ld32 c a s = Some (load32 (phys s) a)" "st32 c a w s = Some (s\<lparr>phys := store32 (phys s) a w\<rparr>)"
    "st16 c a h s = Some (s\<lparr>phys := store8 (store8 (phys s) a (ucast h)) (a + 1) (ucast (drop_bit 8 h))\<rparr>)"
  using assms by (simp_all add: ld32_def st32_def st16_def linear_def)

lemma paged:
  assumes "bit (cr0 c) 31" "phys s = setup_page m" "dir_base s = KERNEL_PAGE_DIR_PHY" "unat a < 0x100000"
  shows "ld32 c a s = Some (load32 (phys s) a)" "ld32 c (a + 0xC0000000) s = Some (load32 (phys s) a)"
  using low_mapped [OF assms(2-4)] assms(1) by (simp_all add: ld32_def linear_def)

lemma store32_at:
  assumes "unat a + 4 \<le> 4294967296" "unat x < unat a \<or> unat a + 4 \<le> unat x"
  shows "store32 m a v x = m x"
  using store32_byte_other [OF unat_u32_bound [of x] assms(1) assms(2)] by simp

lemma load32_at:
  assumes "unat a + 4 \<le> 4294967296" "unat b + 4 \<le> 4294967296" "unat b + 4 \<le> unat a \<or> unat a + 4 \<le> unat b"
  shows "load32 (store32 m a v) b = load32 m b"
  using load32_store32_other [OF assms(2,1,3)] by simp

lemma load32_at8:
  assumes "unat b + 4 \<le> 4294967296" "unat b + 4 \<le> unat a \<or> unat a < unat b"
  shows "load32 (store8 m a v) b = load32 m b"
  using load32_store8_other [OF assms(1) unat_u32_bound [of a] assms(2)] by simp

lemma load32_in:
  assumes "only_in R m m'" "{unat b..<unat b + 4} \<inter> R = {}" "unat b + 4 \<le> 4294967296"
  shows "load32 m' b = load32 m b"
  using only_in_load32 [OF assms] by simp

lemma low_half: "ucast (load32 m a) = (ucast (m a) OR push_bit 8 (ucast (m (a + 1))) :: u16)"
  unfolding load32_def by (rule bit_word_eqI) (auto simp: bit_simps)

lemma descriptor_moved: "descriptor lo (hi OR 0xC0000000) = move_video_segment (descriptor lo hi)"
proof -
  have "ucast (hi OR push_bit 24 (ucast k)) = (ucast hi :: u8)" "ucast (drop_bit 8 (hi OR push_bit 24 (ucast k))) = (ucast (drop_bit 8 hi) :: u8)"
    "ucast (drop_bit 16 (hi OR push_bit 24 (ucast k))) = (ucast (drop_bit 16 hi) :: u8)"
    "ucast (drop_bit 24 (hi OR push_bit 24 (ucast k))) = (ucast (drop_bit 24 hi) OR k :: u8)" for k :: u8
    by (rule bit_word_eqI, force simp: bit_simps)+
  from this [where k = "0xC0"] show ?thesis by (simp add: descriptor_def move_video_segment_def)
qed

subsection \<open>The switch runs\<close>

text \<open>The loader is below the E820 buffer, with its descriptor table; the stack is above it.\<close>

definition loader_ready :: "u32 \<Rightarrow> pm_cpu \<Rightarrow> 'a vmm_state_scheme \<Rightarrow> bool" where
  "loader_ready gd c s \<longleftrightarrow> \<not> bit (cr0 c) 31 \<and> gdtr s = Some \<lparr>gdt_limit = 31, gdt_base = gd - 32\<rparr> \<and>
     0x8020 \<le> unat gd \<and> unat gd + 6 \<le> 0x9000 \<and> 0xA000 \<le> unat (esp c) \<and> unat (esp c) \<le> 0x90000 \<and>
     descriptor (load32 (phys s) (gd - 8)) (load32 (phys s) (gd - 4)) = video_segment"

text \<open>The memory behind the stores of \<open>enable_page\<close>: the video descriptor, the operand of \<open>lgdt\<close>, and a word 3 GB up.\<close>

definition switched :: "u32 \<Rightarrow> u32 \<Rightarrow> ram \<Rightarrow> ram" where
  "switched gd sp m =
     (let m = store8 (store8 m gd 31) (gd + 1) 0;
          m = store32 m (gd + 2) (gd - 32);
          m = store32 m (gd - 4) (load32 m (gd - 4) OR 0xC0000000);
          m = store32 m (gd + 2) (gd - 32 + 0xC0000000)
      in store32 m (sp + 0xC0000000) (load32 m sp))"

lemma switched_loads:
  assumes "0x8020 \<le> unat gd" "unat gd + 6 \<le> 0x9000" "0x9000 \<le> unat sp" "unat sp \<le> 0x90000"
  shows "only_in ({unat gd - 4..<unat gd + 6} \<union> {unat sp + 0xC0000000..<unat sp + 0xC0000004}) m (switched gd sp m)"
    "load32 (switched gd sp m) (gd + 2) = gd - 32 + 0xC0000000"
    "ucast (load32 (switched gd sp m) gd) = (31 :: u16)"
    "load32 (switched gd sp m) (gd - 8) = load32 m (gd - 8)"
    "load32 (switched gd sp m) (gd - 4) = load32 m (gd - 4) OR 0xC0000000"
    "load32 (switched gd sp m) sp = load32 m sp"
proof -
  obtain n where n: "unat gd = n + 8" using that [of "unat gd - 8"] assms(1) by simp
  note assms = assms [unfolded n]
  have u: "unat (gd + 1) = n + 9" "unat (gd + 2) = n + 10" "unat (sp + 0xC0000000) = unat sp + 0xC0000000"
    using assms by (subst unat_add_u32; simp add: n)+
  have v: "unat (gd - 4) = n + 4" "unat (gd - 8) = n"
    using assms by (simp_all add: unat_sub word_le_nat_alt n)
  note at = load32_at load32_at8 n u v
  define m1 where "m1 = store8 (store8 m gd 31) (gd + 1) 0"
  define m2 where "m2 = store32 m1 (gd + 2) (gd - 32)"
  define m3 where "m3 = store32 m2 (gd - 4) (load32 m2 (gd - 4) OR 0xC0000000)"
  define m4 where "m4 = store32 m3 (gd + 2) (gd - 32 + 0xC0000000)"
  have e: "switched gd sp m = store32 m4 (sp + 0xC0000000) (load32 m4 sp)"
    unfolding switched_def Let_def m1_def [symmetric] m2_def [symmetric] m3_def [symmetric] m4_def [symmetric] ..
  have l: "load32 m2 (gd - 4) = load32 m (gd - 4)" "load32 m4 (gd - 4) = load32 m (gd - 4) OR 0xC0000000"
    "load32 m4 (gd - 8) = load32 m (gd - 8)" "load32 m4 sp = load32 m sp" "load32 m4 (gd + 2) = gd - 32 + 0xC0000000"
    unfolding m4_def m3_def m2_def m1_def using assms by (simp_all add: at)
  have k: "load32 (switched gd sp m) x = load32 m4 x" if "unat x \<le> 0x100000" for x
    unfolding e using that assms by (subst load32_at) (simp_all add: u n)
  show "load32 (switched gd sp m) (gd + 2) = gd - 32 + 0xC0000000" "load32 (switched gd sp m) (gd - 8) = load32 m (gd - 8)"
    "load32 (switched gd sp m) (gd - 4) = load32 m (gd - 4) OR 0xC0000000" "load32 (switched gd sp m) sp = load32 m sp"
    using k assms by (simp_all add: l n u v)
  have "m4 gd = 31" "m4 (gd + 1) = 0"
    unfolding m4_def m3_def m2_def m1_def using assms by (simp_all add: store32_at n u v store8_def)
  then show "ucast (load32 (switched gd sp m) gd) = (31 :: u16)"
    using k [of gd] assms by (simp add: low_half n)
  let ?R = "{unat gd - 4..<unat gd + 6} \<union> {unat sp + 0xC0000000..<unat sp + 0xC0000004}"
  have "only_in ?R m m1" using assms by (auto simp: m1_def only_in_def store8_def n u)
  then have "only_in ?R m m2" unfolding m2_def by (rule store32_in) (use assms n u in auto)
  then have "only_in ?R m m3" unfolding m3_def by (rule store32_in) (use assms n v in auto)
  then have "only_in ?R m m4" unfolding m4_def by (rule store32_in) (use assms n u in auto)
  then show "only_in ?R m (switched gd sp m)" unfolding e by (rule store32_in) (use assms n u in auto)
qed

lemma switched_tables:
  assumes "0x8020 \<le> unat gd" "unat gd + 6 \<le> 0x9000" "0x9000 \<le> unat sp" "unat sp \<le> 0x90000" "m = setup_page m"
  shows "switched gd sp m = setup_page (switched gd sp m)"
proof (rule setup_page_fixed [symmetric])
  show "only_in (- page_setup) (setup_page m) (switched gd sp m)"
    using switched_loads(1) [OF assms(1-4), of m] assms unfolding assms(5) [symmetric]
    by (rule_tac only_in_mono) (auto simp: page_setup_def)
qed

lemma enable_page_runs:
  assumes "\<not> bit (cr0 c) 31" "gdtr s = Some \<lparr>gdt_limit = 31, gdt_base = gd - 32\<rparr>"
    and r: "0x8020 \<le> unat gd" "unat gd + 6 \<le> 0x9000" "0x9000 \<le> unat (esp c)" "unat (esp c) \<le> 0x90000"
    and p: "phys s = setup_page (phys s)"
    and v: "descriptor (load32 (phys s) (gd - 8)) (load32 (phys s) (gd - 4)) = video_segment"
  shows "enable_page gd c s = Some (load32 (phys s) (esp c),
    \<lparr>cr0 = cr0 c OR CR0_PG, esp = esp c + 0xC0000000 + 4, gs_desc = move_video_segment video_segment\<rparr>,
    s\<lparr>phys := switched gd (esp c) (phys s), cr3 := 0x101000, tlb := (\<lambda>_. None),
      gdtr := Some \<lparr>gdt_limit = 31, gdt_base = gd - 32 + 0xC0000000\<rparr>, segs := (segs s)\<lparr>seg_gs := 0x18\<rparr>\<rparr>)"
proof -
  let ?m = "switched gd (esp c) (phys s)"
  note l = switched_loads [OF r, of "phys s"]
  have m: "?m = setup_page ?m" by (rule switched_tables [OF r p])
  have u: "unat (gd + 2) = unat gd + 2" using r by (subst unat_add_u32) simp_all
  have w: "unat (gd - 4) = unat gd - 4" "unat (gd - 8) = unat gd - 8" using r by (simp_all add: unat_sub word_le_nat_alt)
  have pg: "ld32 c' a t = Some (load32 (phys t) a)" "ld32 c' (a + 0xC0000000) t = Some (load32 (phys t) a)"
    if "bit (cr0 c') 31" "phys t = ?m" "cr3 t = 0x101000" "unat a < 0x100000" for c' a and t :: "'a vmm_state_scheme"
  proof -
    have d: "dir_base t = KERNEL_PAGE_DIR_PHY" by (simp add: dir_base_def frame_base_decode that(3))
    have t: "phys t = setup_page ?m" using that(2) m by simp
    show "ld32 c' a t = Some (load32 (phys t) a)" "ld32 c' (a + 0xC0000000) t = Some (load32 (phys t) a)"
      by (rule paged [OF that(1) t d that(4)])+
  qed
  define m2 where "m2 = store32 (store8 (store8 (phys s) gd 31) (gd + 1) 0) (gd + 2) (gd - 32)"
  have sg: "sgdt gd c s = Some (s\<lparr>phys := m2\<rparr>)" "load32 m2 (gd + 2) = gd - 32"
    by (simp_all add: sgdt_def assms(1,2) m2_def)
  have b: "load32 (store32 m2 (gd - 4) x) (gd + 2) = gd - 32" for x
    using r sg(2) by (subst load32_at) (simp_all add: u w)
  have sw: "store32 (store32 (store32 m2 (gd - 4) (load32 m2 (gd - 4) OR 0xC0000000)) (gd + 2) (gd - 32 + 0xC0000000)) (esp c + 0xC0000000)
      (load32 (store32 (store32 m2 (gd - 4) (load32 m2 (gd - 4) OR 0xC0000000)) (gd + 2) (gd - 32 + 0xC0000000)) (esp c)) = ?m"
    by (simp add: switched_def m2_def Let_def)
  define t where "t = s\<lparr>phys := ?m, cr3 := 0x101000, tlb := (\<lambda>_. None)\<rparr>"
  define c1 where "c1 = c\<lparr>esp := esp c + 0xC0000000, cr0 := cr0 c OR CR0_PG\<rparr>"
  have a: "gd - 32 + 0x18 + 4 = gd - 4" by simp
  have run: "enable_page gd c s = do {
     s \<leftarrow> lgdt gd c1 t;
     (c, s) \<leftarrow> load_gs SELECTOR_VIDEO c1 s;
     (eip, c) \<leftarrow> ret c s;
     Some (eip, c, s) }"
    using sw by (simp add: enable_page_def Let_def sg b assms(1) t_def c1_def)
  have on: "bit (cr0 c1) 31" by (simp add: c1_def bit_simps)
  define t2 where "t2 = t\<lparr>gdtr := Some \<lparr>gdt_limit = 31, gdt_base = gd - 32 + 0xC0000000\<rparr>\<rparr>"
  note pgt = pg [where c' = c1 and t = t, OF on] pg [where c' = c1 and t = t2, OF on]
  have t: "phys t = ?m" "cr3 t = 0x101000" "phys t2 = ?m" "cr3 t2 = 0x101000" by (simp_all add: t_def t2_def)
  have lg: "lgdt gd c1 t = Some t2"
    using pgt(1) [of gd] pgt(1) [of "gd + 2"] t r l(2,3) u by (simp add: lgdt_def t2_def)
  have sel: "gd - 32 + 0xC0000000 + 0x18 = gd - 8 + 0xC0000000" "gd - 32 + 0xC0000000 + 0x18 + 4 = gd - 4 + 0xC0000000" by simp_all
  have lo: "ld32 c1 (gd - 32 + 0xC0000000 + 0x18) t2 = Some (load32 (phys s) (gd - 8))"
      "ld32 c1 (gd - 32 + 0xC0000000 + 0x18 + 4) t2 = Some (load32 (phys s) (gd - 4) OR 0xC0000000)"
    unfolding sel using pgt(4) [of "gd - 8"] pgt(4) [of "gd - 4"] t r l(4,5) w by simp_all
  have "load_gs 0x18 c1 t2 = Some (c1\<lparr>gs_desc := move_video_segment video_segment\<rparr>, t2\<lparr>segs := (segs t2)\<lparr>seg_gs := 0x18\<rparr>\<rparr>)"
    using lo by (simp add: load_gs_def t2_def descriptor_moved v)
  moreover have "ret (c1\<lparr>gs_desc := g\<rparr>) (t2\<lparr>segs := x\<rparr>) = Some (load32 (phys s) (esp c), c1\<lparr>gs_desc := g, esp := esp c + 0xC0000000 + 4\<rparr>)" for g x
    using pg(2) [of "c1\<lparr>gs_desc := g\<rparr>" "t2\<lparr>segs := x\<rparr>" "esp c"] on t r l(6) by (simp add: ret_def c1_def)
  ultimately show ?thesis by (simp add: run lg) (simp add: t2_def t_def c1_def)
qed

lemma paging_on:
  assumes "loader_ready gd c s"
  shows "\<exists>c' t. call_setup_page gd r1 r2 c s = Some (r2, r1, c', t) \<and>
    esp c' = esp c + 0xC0000000 \<and> gs_desc c' = move_video_segment video_segment \<and> bit (cr0 c') 31 \<and>
    gdtr t = Some \<lparr>gdt_limit = 31, gdt_base = gd - 32 + 0xC0000000\<rparr> \<and>
    phys t = setup_page (phys t) \<and> dir_base t = KERNEL_PAGE_DIR_PHY \<and> tlb t = (\<lambda>_. None) \<and>
    t = s\<lparr>phys := phys t, cr3 := cr3 t, tlb := tlb t, gdtr := gdtr t, segs := segs t\<rparr> \<and>
    only_in (page_setup \<union> {unat gd - 4..<unat gd + 6} \<union> {unat (esp c) - 8..<unat (esp c)} \<union> {0xC0000000..<0x100000000}) (phys s) (phys t)"
proof -
  have r: "0x8020 \<le> unat gd" "unat gd + 6 \<le> 0x9000" "0xA000 \<le> unat (esp c)" "unat (esp c) \<le> 0x90000"
    and c: "\<not> bit (cr0 c) 31" "gdtr s = Some \<lparr>gdt_limit = 31, gdt_base = gd - 32\<rparr>"
    and v: "descriptor (load32 (phys s) (gd - 8)) (load32 (phys s) (gd - 4)) = video_segment"
    using assms by (simp_all add: loader_ready_def)
  have u: "unat (esp c - 4) = unat (esp c) - 4" "unat (esp c - 8) = unat (esp c) - 8"
      "unat (gd - 4) = unat gd - 4" "unat (gd - 8) = unat gd - 8"
    using r by (simp_all add: unat_sub word_le_nat_alt)
  have r': "0x9000 \<le> unat (esp c - 8)" "unat (esp c - 8) \<le> 0x90000" using r u by simp_all
  let ?R = "page_setup \<union> {unat gd - 4..<unat gd + 6} \<union> {unat (esp c) - 8..<unat (esp c)} \<union> {0xC0000000..<0x100000000}"
  define p1 where "p1 = store32 (phys s) (esp c - 4) r1"
  define p2 where "p2 = store32 (setup_page p1) (esp c - 8) r2"
  have "only_in {unat (esp c) - 8..<unat (esp c)} (phys s) p1"
    unfolding p1_def by (rule store32_in [OF only_in_refl]) (use r u in auto)
  then have "only_in (page_setup \<union> {unat (esp c) - 8..<unat (esp c)}) (phys s) (setup_page p1)"
    by (subst Un_commute) (rule only_in_trans_Un [OF _ setup_page_in])
  then have in2: "only_in (page_setup \<union> {unat (esp c) - 8..<unat (esp c)}) (phys s) p2"
    unfolding p2_def by (rule store32_in) (use r u in auto)
  have "only_in (- page_setup) (setup_page p1) p2"
    unfolding p2_def by (rule store32_in [OF only_in_refl]) (use r u in \<open>auto simp: page_setup_def\<close>)
  then have fix2: "p2 = setup_page p2" by (rule setup_page_fixed [symmetric])
  have low: "load32 p2 b = load32 (phys s) b" if "unat b \<le> 0x9000" for b
    by (rule load32_in [OF in2]) (use that r in \<open>auto simp: page_setup_def\<close>)
  have r1: "load32 p2 (esp c - 4) = r1"
  proof -
    have "load32 p2 (esp c - 4) = load32 (setup_page p1) (esp c - 4)"
      unfolding p2_def by (rule load32_at) (use r u in auto)
    also have "\<dots> = load32 p1 (esp c - 4)"
      by (rule load32_in [OF setup_page_in]) (use r u in \<open>auto simp: page_setup_def\<close>)
    finally show ?thesis by (simp add: p1_def)
  qed
  define s2 where "s2 = s\<lparr>phys := p2\<rparr>"
  define c2 where "c2 = c\<lparr>esp := esp c - 8\<rparr>"
  define m where "m = switched gd (esp c - 8) p2"
  note sw = switched_loads [OF r(1,2) r', of p2, folded m_def]
  define c3 where "c3 = \<lparr>cr0 = cr0 c OR CR0_PG, esp = esp c - 8 + 0xC0000000 + 4, gs_desc = move_video_segment video_segment\<rparr>"
  define t where "t = s2\<lparr>phys := m, cr3 := 0x101000, tlb := (\<lambda>_. None),
      gdtr := Some \<lparr>gdt_limit = 31, gdt_base = gd - 32 + 0xC0000000\<rparr>, segs := (segs s)\<lparr>seg_gs := 0x18\<rparr>\<rparr>"
  have "load32 p2 (gd - 8) = load32 (phys s) (gd - 8)" "load32 p2 (gd - 4) = load32 (phys s) (gd - 4)"
    using low r u by simp_all
  with v have v2: "descriptor (load32 (phys s2) (gd - 8)) (load32 (phys s2) (gd - 4)) = video_segment" by (simp add: s2_def)
  have en: "enable_page gd c2 s2 = Some (r2, c3, t)"
    using enable_page_runs [of c2 s2 gd, OF _ _ r(1,2) _ _ _ v2] c r' fix2
    by (simp add: c2_def c3_def s2_def t_def m_def p2_def)
  have push: "push r1 c s = Some (c\<lparr>esp := esp c - 4\<rparr>, s\<lparr>phys := p1\<rparr>)"
      "push r2 (c\<lparr>esp := esp c - 4\<rparr>) (s\<lparr>phys := setup_page p1\<rparr>) = Some (c2, s2)"
    using c(1) by (simp_all add: push_def p1_def p2_def c2_def s2_def)
  have tab: "phys t = setup_page (phys t)" "dir_base t = KERNEL_PAGE_DIR_PHY"
    using switched_tables [OF r(1,2) r' fix2] by (simp_all add: t_def m_def dir_base_def frame_base_decode)
  have on: "bit (cr0 c3) 31" by (simp add: c3_def bit_simps)
  have "load32 m (esp c - 4) = load32 p2 (esp c - 4)"
    by (rule load32_in [OF sw(1)]) (use r u in auto)
  then have "load32 m (esp c - 4) = r1" using r1 by simp
  moreover have "esp c3 = esp c - 4 + 0xC0000000" by (simp add: c3_def)
  ultimately have rt: "ret c3 t = Some (r1, c3\<lparr>esp := esp c + 0xC0000000\<rparr>)"
    using paged(2) [OF on tab, of "esp c - 4"] r u by (simp add: ret_def) (simp add: t_def)
  have "call_setup_page gd r1 r2 c s = Some (r2, r1, c3\<lparr>esp := esp c + 0xC0000000\<rparr>, t)"
    by (simp add: call_setup_page_def push en rt Let_def)
  moreover have "only_in ?R (phys s) (phys t)"
  proof (rule only_in_trans [OF only_in_mono [OF in2]])
    show "only_in ?R p2 (phys t)" using r u by (auto intro!: only_in_mono [OF sw(1)] simp: t_def)
  qed auto
  ultimately show ?thesis using tab on
    by (intro exI [of _ "c3\<lparr>esp := esp c + 0xC0000000\<rparr>"] exI [of _ t]) (simp add: c3_def t_def s2_def)
qed

lemma paging_on_zero:
  assumes "loader_ready gd c s" "\<forall>a. 0x102000 \<le> unat a \<longrightarrow> unat a < 0x200000 \<longrightarrow> phys s a = 0"
  shows "\<exists>c' t. call_setup_page gd r1 r2 c s = Some (r2, r1, c', t) \<and>
    esp c' = esp c + 0xC0000000 \<and> gs_desc c' = move_video_segment video_segment \<and> bit (cr0 c') 31 \<and>
    gdtr t = Some \<lparr>gdt_limit = 31, gdt_base = gd - 32 + 0xC0000000\<rparr> \<and>
    phys t = setup_page (phys t) \<and> dir_base t = KERNEL_PAGE_DIR_PHY \<and> tlb t = (\<lambda>_. None) \<and>
    t = s\<lparr>phys := phys t, cr3 := cr3 t, tlb := tlb t, gdtr := gdtr t, segs := segs t\<rparr> \<and>
    (\<forall>a. 0x102000 \<le> unat a \<longrightarrow> unat a < 0x200000 \<longrightarrow> phys t a = 0) \<and>
    (\<forall>x. unat x < 0x100000 \<longrightarrow> unat x \<notin> {unat gd - 4..<unat gd + 6} \<union> {unat (esp c) - 32..<unat (esp c)} \<longrightarrow>
       phys t x = phys s x)"
proof -
  have r: "unat gd + 6 \<le> 0x9000" "unat (esp c) \<le> 0x90000" using assms(1) by (simp_all add: loader_ready_def)
  have z: "(\<forall>a. 0x102000 \<le> unat a \<longrightarrow> unat a < 0x200000 \<longrightarrow> m a = 0) \<and>
    (\<forall>x. unat x < 0x100000 \<longrightarrow> unat x \<notin> {unat gd - 4..<unat gd + 6} \<union> {unat (esp c) - 32..<unat (esp c)} \<longrightarrow>
       m x = phys s x)"
    if "only_in (page_setup \<union> {unat gd - 4..<unat gd + 6} \<union> {unat (esp c) - 8..<unat (esp c)} \<union> {0xC0000000..<0x100000000}) (phys s) m" for m
    using that assms(2) r by (auto simp: only_in_def page_setup_def)
  show ?thesis using paging_on [OF assms(1), of r1 r2] z by blast
qed


end
