(* ===== verification/Disk.thy ===== *)
theory Disk
  imports Elf
begin

text \<open>
  \<open>read_disk\<close> of \<open>common/lib/pm_utils.S\<close> and \<open>load_hd_kernel_image\<close> of \<open>08.kernel-mm/boot/loader.S\<close>: the
  kernel image is read from the first ATA drive by programmed I/O. The reference is the drive as its
  standard describes it: registers for the sector number, a command, a status that is polled,
  and a data port of 16 bits that delivers the sector word by word.
\<close>

subsection \<open>The drive\<close>

text \<open>
  The medium: the words of each sector that can be read, how often the drive reports that it is busy
  before a sector is there, and what the data port holds outside a transfer. Nothing is assumed
  about the last two.
\<close>

record disk =
  sector :: "nat \<Rightarrow> u16 list option"
  latency :: "nat \<Rightarrow> nat"
  floating :: u16

datatype ata_phase = Ata_idle | Ata_busy nat | Ata_transfer "u16 list" | Ata_error

record ata =
  ata_seccount :: u8
  ata_lba0 :: u8
  ata_lba1 :: u8
  ata_lba2 :: u8
  ata_drive :: u8
  ata_sector :: nat
  ata_left :: nat
  ata_phase :: ata_phase

definition ATA_PRIMARY_BASE :: u16 where [simp]: "ATA_PRIMARY_BASE = 0x1F0"

definition ata_lba :: "ata \<Rightarrow> nat" where
  "ata_lba d = unat (ata_lba0 d) + 2 ^ 8 * unat (ata_lba1 d) + 2 ^ 16 * unat (ata_lba2 d) + 2 ^ 24 * (unat (ata_drive d) mod 16)"

text \<open>Of the commands \<open>READ SECTORS\<close> is known, of the drives the first, of the addressing modes LBA.\<close>

definition ata_command :: "disk \<Rightarrow> u8 \<Rightarrow> ata \<Rightarrow> ata" where
  "ata_command disk cmd d =
     (if cmd = 0x20 \<and> bit (ata_drive d) 6 \<and> \<not> bit (ata_drive d) 4 then
        d\<lparr>ata_sector := ata_lba d, ata_left := (if ata_seccount d = 0 then 256 else unat (ata_seccount d)),
          ata_phase := Ata_busy (latency disk (ata_lba d))\<rparr>
      else d\<lparr>ata_phase := Ata_error\<rparr>)"

definition ata_write :: "disk \<Rightarrow> u16 \<Rightarrow> u8 \<Rightarrow> ata \<Rightarrow> ata" where
  "ata_write disk port b d =
     (if port = 0x1F2 then d\<lparr>ata_seccount := b\<rparr>
      else if port = 0x1F3 then d\<lparr>ata_lba0 := b\<rparr>
      else if port = 0x1F4 then d\<lparr>ata_lba1 := b\<rparr>
      else if port = 0x1F5 then d\<lparr>ata_lba2 := b\<rparr>
      else if port = 0x1F6 then d\<lparr>ata_drive := b\<rparr>
      else if port = 0x1F7 then ata_command disk b d
      else d)"

text \<open>A poll of the status: BSY is bit 7, DRQ bit 3 and ERR bit 0.\<close>

fun ata_status_phase :: "disk \<Rightarrow> nat \<Rightarrow> ata_phase \<Rightarrow> u8 \<times> ata_phase" where
  "ata_status_phase disk n (Ata_busy (Suc k)) = (0x80, Ata_busy k)"
| "ata_status_phase disk n (Ata_busy 0) =
     (case sector disk n of None \<Rightarrow> (0x51, Ata_error) | Some ws \<Rightarrow> (0x58, Ata_transfer ws))"
| "ata_status_phase disk n (Ata_transfer ws) = (0x58, Ata_transfer ws)"
| "ata_status_phase disk n Ata_idle = (0x50, Ata_idle)"
| "ata_status_phase disk n Ata_error = (0x51, Ata_error)"

definition ata_status :: "disk \<Rightarrow> ata \<Rightarrow> u8 \<times> ata" where
  "ata_status disk d = (let (b, p) = ata_status_phase disk (ata_sector d) (ata_phase d) in (b, d\<lparr>ata_phase := p\<rparr>))"

text \<open>The drive fetches the next sector of the command by itself.\<close>

definition ata_next :: "disk \<Rightarrow> ata \<Rightarrow> ata" where
  "ata_next disk d =
     (if 1 < ata_left d then
        d\<lparr>ata_sector := Suc (ata_sector d), ata_left := ata_left d - 1, ata_phase := Ata_busy (latency disk (Suc (ata_sector d)))\<rparr>
      else d\<lparr>ata_left := 0, ata_phase := Ata_idle\<rparr>)"

definition ata_data :: "disk \<Rightarrow> ata \<Rightarrow> u16 \<times> ata" where
  "ata_data disk d =
     (case ata_phase d of
        Ata_transfer (w # ws) \<Rightarrow> (w, if ws = [] then ata_next disk d else d\<lparr>ata_phase := Ata_transfer ws\<rparr>)
      | _ \<Rightarrow> (floating disk, d))"

subsection \<open>The code\<close>

definition store16 :: "ram \<Rightarrow> u32 \<Rightarrow> u16 \<Rightarrow> ram" where
  "store16 m a w = m(a := ucast w, a + 1 := ucast (drop_bit 8 w))"

definition select_sector :: "disk \<Rightarrow> u32 \<Rightarrow> ata \<Rightarrow> ata" where
  "select_sector disk esi d =
     (let d = ata_write disk (ATA_PRIMARY_BASE + 2) 1 d;
          eax = esi;
          d = ata_write disk (ATA_PRIMARY_BASE + 3) (ucast eax) d;
          eax = drop_bit 8 eax;
          d = ata_write disk (ATA_PRIMARY_BASE + 4) (ucast eax) d;
          eax = drop_bit 8 eax;
          d = ata_write disk (ATA_PRIMARY_BASE + 5) (ucast eax) d;
          eax = drop_bit 8 eax;
          al = (ucast eax AND 0x0F) OR 0xE0;
          d = ata_write disk (ATA_PRIMARY_BASE + 6) al d
      in ata_write disk (ATA_PRIMARY_BASE + 7) 0x20 d)"

text \<open>\<open>.wait_ready\<close> polls for ever when neither bit comes.\<close>

partial_function (option) wait_ready :: "disk \<Rightarrow> ata \<Rightarrow> ata option" where
  "wait_ready disk d =
     (let (al, d) = ata_status disk d in
      if al AND 0x80 \<noteq> 0 then wait_ready disk d
      else if al AND 0x08 = 0 then wait_ready disk d
      else Some d)"

primrec read_word :: "disk \<Rightarrow> nat \<Rightarrow> u32 \<Rightarrow> ram \<Rightarrow> ata \<Rightarrow> u32 \<times> ram \<times> ata" where
  "read_word disk 0 ebx m d = (ebx, m, d)"
| "read_word disk (Suc ecx) ebx m d =
     (let (ax, d) = ata_data disk d in read_word disk ecx (ebx + 2) (store16 m ebx ax) d)"

text \<open>The count is decremented before it is tested, so that 0 sectors would be \<open>2^32\<close>.\<close>

partial_function (option) next_sector :: "disk \<Rightarrow> u32 \<Rightarrow> u32 \<Rightarrow> u32 \<Rightarrow> ram \<Rightarrow> ata \<Rightarrow> (ram \<times> ata) option" where
  "next_sector disk esi edi ebx m d =
     Option.bind (wait_ready disk (select_sector disk esi d)) (\<lambda>d.
       let (ebx, m, d) = read_word disk 256 ebx m d;
           esi = esi + 1;
           edi = edi - 1
       in if edi \<noteq> 0 then next_sector disk esi edi ebx m d else Some (m, d))"

definition read_disk :: "disk \<Rightarrow> u32 \<Rightarrow> u32 \<Rightarrow> u32 \<Rightarrow> ram \<Rightarrow> ata \<Rightarrow> (ram \<times> ata) option" where
  "read_disk disk lba sectors buf m d = next_sector disk lba sectors buf m d"

definition KERNEL_START_SECTOR :: u32 where [simp]: "KERNEL_START_SECTOR = 9"
definition KERNEL_SECTORS :: u32 where [simp]: "KERNEL_SECTORS = KERNEL_BIN_MAX_SIZE div 512"

definition load_hd_kernel_image :: "disk \<Rightarrow> ram \<Rightarrow> ata \<Rightarrow> (ram \<times> ata) option" where
  "load_hd_kernel_image disk m d =
     read_disk disk KERNEL_START_SECTOR KERNEL_SECTORS KERNEL_BIN_LOAD_VIRTUAL_ADDR m d"

subsection \<open>Words in memory\<close>

primrec put_words :: "u32 \<Rightarrow> u16 list \<Rightarrow> ram \<Rightarrow> ram" where
  "put_words a [] m = m"
| "put_words a (w # ws) m = put_words (a + 2) ws (store16 m a w)"

definition word_byte :: "u16 list \<Rightarrow> nat \<Rightarrow> u8" where
  "word_byte ws i = (if even i then ucast (ws ! (i div 2)) else ucast (drop_bit 8 (ws ! (i div 2))))"

lemma put_words_append: "put_words a (xs @ ys) m = put_words (a + 2 * word_of_nat (length xs)) ys (put_words a xs m)"
  by (induction xs arbitrary: a m) (simp_all add: algebra_simps)

lemma put_words_byte:
  "2 * length ws \<le> 4294967296 \<Longrightarrow>
   put_words a ws m x = (if unat (x - a) < 2 * length ws then word_byte ws (unat (x - a)) else m x)"
proof (induction ws arbitrary: a m)
  case (Cons w ws)
  define k where "k = unat (x - a)"
  have IH: "put_words a (w # ws) m x =
      (if unat (x - (a + 2)) < 2 * length ws then word_byte ws (unat (x - (a + 2))) else store16 m a w x)"
    using Cons by simp
  have d: "x - (a + 2) = (x - a) - 2" by (simp add: algebra_simps)
  have x: "x = a + word_of_nat k" by (simp add: k_def)
  consider "k = 0" | "k = 1" | j where "k = Suc (Suc j)" by (metis One_nat_def not0_implies_Suc)
  then show ?case
  proof cases
    case 1
    then have "unat (x - (a + 2)) = 4294967294" "x = a" using x unfolding d by simp_all
    with Cons.prems show ?thesis unfolding IH by (simp add: store16_def word_byte_def)
  next
    case 2
    then have "x = a + 1" using x by simp
    moreover from this have "x - (a + 2) = -1" unfolding d by simp
    moreover have "unat (- 1 :: u32) = 4294967295" using unat_neg_u32 [of 1] by simp
    ultimately have "unat (x - (a + 2)) = 4294967295" "x = a + 1" by simp_all
    with Cons.prems show ?thesis unfolding IH by (simp add: store16_def word_byte_def)
  next
    case 3
    then have "(2 :: u32) \<le> x - a" using k_def by (simp add: word_le_nat_alt)
    then have u: "unat (x - (a + 2)) = j" unfolding d using k_def 3 by (simp add: unat_sub)
    have "x \<noteq> a" "x \<noteq> a + 1" using 3 k_def by auto
    then have "store16 m a w x = m x" by (simp add: store16_def)
    then show ?thesis unfolding IH u k_def [symmetric] 3 by (auto simp: word_byte_def)
  qed
qed simp

subsection \<open>Reading\<close>

lemma byte_nat: "unat (ucast (w :: u32) :: u8) = unat w mod 256" "unat (drop_bit 8 w) = unat w div 256"
  by (simp add: unsigned_ucast_eq take_bit_eq_mod) (simp only: unat_drop_bit_eq, simp only: drop_bit_eq_div, simp)

lemma drive_byte: "unat ((b AND 0x0F) OR 0xE0 :: u8) mod 16 = unat b mod 16" "bit ((b AND 0x0F) OR 0xE0 :: u8) 6" "\<not> bit ((b AND 0x0F) OR 0xE0 :: u8) 4"
proof -
  have "take_bit 4 ((b AND mask 4) OR push_bit 4 14) = take_bit 4 b" by (rule bit_word_eqI) (auto simp: bit_simps)
  then have "take_bit 4 ((b AND 0x0F) OR 0xE0) = take_bit 4 b" by (simp add: mask_eq_exp_minus_1 push_bit_eq_mult)
  from arg_cong [OF this, of unat] show "unat ((b AND 0x0F) OR 0xE0 :: u8) mod 16 = unat b mod 16"
    by (simp only: unsigned_take_bit_eq) (simp add: take_bit_eq_mod)
qed (simp_all add: bit_simps)

lemma horner28:
  fixes n :: nat
  assumes "n < 268435456"
  shows "n mod 256 + 256 * (n div 256 mod 256) + 65536 * (n div 256 div 256 mod 256) +
    16777216 * (n div 256 div 256 div 256 mod 256 mod 16) = n"
proof -
  define a where "a = n div 256"
  define b where "b = a div 256"
  define c where "c = b div 256"
  have n: "n = 256 * a + n mod 256" and a: "a = 256 * b + a mod 256" and b: "b = 256 * c + b mod 256"
    by (simp_all only: a_def b_def c_def mult_div_mod_eq)
  then have "c < 16" using assms by linarith
  then have "c mod 256 mod 16 = c" by simp
  with n a b show ?thesis unfolding a_def [symmetric] b_def [symmetric] c_def [symmetric] by linarith
qed

text \<open>The registers name the sector modulo \<open>2^28\<close>.\<close>

lemma select_sector_spec:
  assumes "unat esi = n" "n < 2 ^ 28"
  shows "\<exists>r. select_sector disk esi d = r\<lparr>ata_sector := n, ata_left := 1, ata_phase := Ata_busy (latency disk n)\<rparr>"
proof -
  define r where "r = d\<lparr>ata_seccount := 1, ata_lba0 := ucast esi, ata_lba1 := ucast (drop_bit 8 esi),
    ata_lba2 := ucast (drop_bit 8 (drop_bit 8 esi)), ata_drive := (ucast (drop_bit 8 (drop_bit 8 (drop_bit 8 esi))) AND 0x0F) OR 0xE0\<rparr>"
  have "ata_lba r = n mod 256 + 256 * (n div 256 mod 256) + 65536 * (n div 256 div 256 mod 256) +
      16777216 * (n div 256 div 256 div 256 mod 256 mod 16)"
    using assms(1) by (simp add: ata_lba_def r_def drive_byte(1) byte_nat del: drop_bit_drop_bit)
  also have "\<dots> = n" by (rule horner28) (use assms(2) in simp)
  finally have l: "ata_lba r = n" .
  have "select_sector disk esi d = ata_command disk 0x20 r"
    unfolding select_sector_def Let_def by (simp add: ata_write_def r_def del: drop_bit_drop_bit)
  also have "\<dots> = r\<lparr>ata_sector := n, ata_left := 1, ata_phase := Ata_busy (latency disk n)\<rparr>"
    unfolding ata_command_def l by (simp add: r_def drive_byte(2,3))
  finally show ?thesis by blast
qed

lemma wait_ready_busy:
  "ata_phase d = Ata_busy k \<Longrightarrow> sector disk (ata_sector d) = Some ws \<Longrightarrow> wait_ready disk d = Some (d\<lparr>ata_phase := Ata_transfer ws\<rparr>)"
proof (induction k arbitrary: d)
  case 0
  then show ?case by (subst wait_ready.simps) (simp add: ata_status_def)
next
  case (Suc k)
  from Suc.IH [of "d\<lparr>ata_phase := Ata_busy k\<rparr>"] Suc.prems show ?case
    by (subst wait_ready.simps) (simp add: ata_status_def)
qed

lemma read_word_transfer:
  "ws \<noteq> [] \<Longrightarrow> ata_phase d = Ata_transfer ws \<Longrightarrow> ata_left d = 1 \<Longrightarrow>
   read_word disk (length ws) a m d = (a + 2 * word_of_nat (length ws), put_words a ws m, d\<lparr>ata_left := 0, ata_phase := Ata_idle\<rparr>)"
proof (induction ws arbitrary: a m d)
  case (Cons w ws)
  then show ?case
    by (cases "ws = []") (simp_all add: ata_data_def ata_next_def algebra_simps)
qed simp

lemma one_sector:
  assumes "unat esi = n" "n < 2 ^ 28" "sector disk n = Some ws" "length ws = 256"
  shows "\<exists>d1 d2. wait_ready disk (select_sector disk esi d) = Some d1 \<and>
    read_word disk 256 a m d1 = (a + 512, put_words a ws m, d2) \<and> ata_phase d2 = Ata_idle"
proof -
  obtain r where r: "select_sector disk esi d = r\<lparr>ata_sector := n, ata_left := 1, ata_phase := Ata_busy (latency disk n)\<rparr>"
    using select_sector_spec [OF assms(1,2)] by blast
  define d1 where "d1 = r\<lparr>ata_sector := n, ata_left := 1, ata_phase := Ata_transfer ws\<rparr>"
  have "wait_ready disk (select_sector disk esi d) = Some d1"
    by (subst wait_ready_busy [of _ "latency disk n" _ ws]) (simp_all add: r assms(3) d1_def)
  moreover have "read_word disk (length ws) a m d1 =
      (a + 2 * word_of_nat (length ws), put_words a ws m, d1\<lparr>ata_left := 0, ata_phase := Ata_idle\<rparr>)"
    by (rule read_word_transfer) (use assms(4) in \<open>auto simp: d1_def\<close>)
  ultimately show ?thesis using assms(4) by simp
qed

text \<open>The words of \<open>n\<close> sectors from \<open>lba\<close> on.\<close>

definition disk_words :: "disk \<Rightarrow> nat \<Rightarrow> nat \<Rightarrow> u16 list" where
  "disk_words disk lba n = concat (map (\<lambda>i. the (sector disk i)) [lba..<lba + n])"

definition readable :: "disk \<Rightarrow> nat \<Rightarrow> nat \<Rightarrow> bool" where
  "readable disk lba n \<longleftrightarrow> (\<forall>i \<in> {lba..<lba + n}. \<exists>ws. sector disk i = Some ws \<and> length ws = 256)"

lemma disk_words_Suc: "disk_words disk lba (Suc n) = the (sector disk lba) @ disk_words disk (Suc lba) n"
  by (simp add: disk_words_def upt_conv_Cons del: upt_Suc)

lemma readable_Suc:
  assumes "readable disk lba (Suc n)"
  shows "\<exists>ws. sector disk lba = Some ws \<and> length ws = 256" "readable disk (Suc lba) n"
  using assms by (auto simp: readable_def)

lemma disk_words_length: "readable disk lba n \<Longrightarrow> length (disk_words disk lba n) = 256 * n"
proof (induction n arbitrary: lba)
  case (Suc n)
  obtain ws where "sector disk lba = Some ws" "length ws = 256" using readable_Suc(1) [OF Suc.prems] by blast
  with Suc.IH [OF readable_Suc(2) [OF Suc.prems]] show ?case by (simp add: disk_words_Suc)
qed (simp add: disk_words_def)

lemma disk_words_nth:
  "readable disk lba n \<Longrightarrow> i < 256 * n \<Longrightarrow> disk_words disk lba n ! i = the (sector disk (lba + i div 256)) ! (i mod 256)"
proof (induction n arbitrary: lba i)
  case (Suc n)
  obtain ws where ws: "sector disk lba = Some ws" "length ws = 256" using readable_Suc(1) [OF Suc.prems(1)] by blast
  show ?case
  proof (cases "i < 256")
    case True
    then show ?thesis by (simp add: disk_words_Suc ws nth_append)
  next
    case False
    then obtain j where j: "i = 256 + j" by (metis le_add_diff_inverse not_less)
    then have "i div 256 = Suc (j div 256)" "i mod 256 = j mod 256" by (simp_all add: div_add_self1)
    with j Suc.IH [OF readable_Suc(2) [OF Suc.prems(1)], of j] Suc.prems(2) show ?thesis
      by (simp add: disk_words_Suc ws nth_append)
  qed
qed simp

lemma next_sector_reads:
  "readable disk lba n \<Longrightarrow> 0 < n \<Longrightarrow> lba + n \<le> 2 ^ 28 \<Longrightarrow>
   \<exists>d'. next_sector disk (word_of_nat lba) (word_of_nat n) a m d = Some (put_words a (disk_words disk lba n) m, d') \<and> ata_phase d' = Ata_idle"
proof (induction n arbitrary: lba a m d)
  case (Suc n)
  obtain ws where ws: "sector disk lba = Some ws" "length ws = 256" using readable_Suc [OF Suc.prems(1)] by blast
  have "unat (word_of_nat lba :: u32) = lba" using Suc.prems(3) by (intro unat_of_nat_u32) simp
  from one_sector [OF this _ ws, of d a m] Suc.prems(3) obtain d1 d2 where
    s: "wait_ready disk (select_sector disk (word_of_nat lba) d) = Some d1"
      "read_word disk 256 a m d1 = (a + 512, put_words a ws m, d2)" "ata_phase d2 = Ata_idle" by auto
  have step: "word_of_nat lba + 1 = (word_of_nat (Suc lba) :: u32)" "word_of_nat (Suc n) - 1 = (word_of_nat n :: u32)" by simp_all
  have unf: "next_sector disk (word_of_nat lba) (word_of_nat (Suc n)) a m d =
      (if word_of_nat n \<noteq> (0 :: u32) then next_sector disk (word_of_nat (Suc lba)) (word_of_nat n) (a + 512) (put_words a ws m) d2
       else Some (put_words a ws m, d2))"
    by (subst next_sector.simps) (simp only: s step bind.bind_lunit Let_def prod.case)
  show ?case
  proof (cases "n = 0")
    case True
    with s(3) show ?thesis unfolding unf by (simp add: disk_words_def ws)
  next
    case False
    then have "(word_of_nat n :: u32) \<noteq> 0"
      using Suc.prems(3) of_nat_u32_eq_iff [of n 0] by simp
    moreover from Suc.IH [OF readable_Suc(2) [OF Suc.prems(1)], of "a + 512" "put_words a ws m" d2] False Suc.prems(3) obtain d' where
      "next_sector disk (word_of_nat (Suc lba)) (word_of_nat n) (a + 512) (put_words a ws m) d2 =
        Some (put_words (a + 512) (disk_words disk (Suc lba) n) (put_words a ws m), d')" "ata_phase d' = Ata_idle" by auto
    moreover have "put_words a (disk_words disk lba (Suc n)) m = put_words (a + 512) (disk_words disk (Suc lba) n) (put_words a ws m)"
      unfolding disk_words_Suc ws(1) option.sel put_words_append ws(2) by simp
    ultimately show ?thesis unfolding unf by (simp only: if_True simp_thms) blast
  qed
qed simp

lemma read_disk_bytes:
  assumes "readable disk (unat lba) (unat n)" "n \<noteq> 0" "unat lba + unat n \<le> 2 ^ 28" "512 * unat n \<le> 2 ^ 32"
  shows "\<exists>m' d'. read_disk disk lba n buf m d = Some (m', d') \<and> ata_phase d' = Ata_idle \<and>
    (\<forall>x. m' x = (if unat (x - buf) < 512 * unat n then word_byte (disk_words disk (unat lba) (unat n)) (unat (x - buf)) else m x))"
proof -
  have "0 < unat n" using assms(2) by (simp add: unat_gt_0)
  from next_sector_reads [OF assms(1) this assms(3), of buf m d] obtain d' where
    "read_disk disk lba n buf m d = Some (put_words buf (disk_words disk (unat lba) (unat n)) m, d')" "ata_phase d' = Ata_idle"
    by (auto simp: read_disk_def)
  with put_words_byte [of "disk_words disk (unat lba) (unat n)" buf m] assms(4) show ?thesis
    by (simp add: disk_words_length [OF assms(1)])
qed


subsection \<open>A sector that cannot be read\<close>

lemma wait_ready_error: "ata_phase d = Ata_error \<Longrightarrow> wait_ready disk d = None"
proof (rule ccontr)
  assume e: "ata_phase d = Ata_error" "wait_ready disk d \<noteq> None"
  have "wait_ready disk d = Some r \<Longrightarrow> ata_phase d \<noteq> Ata_error" for r
  proof (rule wait_ready.raw_induct [where P = "\<lambda>disk d r. ata_phase d \<noteq> Ata_error"])
    fix f disk d r
    assume IH: "\<And>disk d r. f disk d = Some r \<Longrightarrow> ata_phase d \<noteq> Ata_error"
      and r: "(let (al, d) = ata_status disk d in if al AND 0x80 \<noteq> 0 then f disk d else if al AND 0x08 = 0 then f disk d else Some d) = Some r"
    show "ata_phase d \<noteq> Ata_error"
      using r IH [of disk "d\<lparr>ata_phase := Ata_error\<rparr>" r] by (auto simp: ata_status_def)
  qed
  with e show False by auto
qed

lemma wait_ready_unreadable:
  "ata_phase d = Ata_busy k \<Longrightarrow> sector disk (ata_sector d) = None \<Longrightarrow> wait_ready disk d = None"
proof (induction k arbitrary: d)
  case 0
  then show ?case by (subst wait_ready.simps) (simp add: ata_status_def wait_ready_error)
next
  case (Suc k)
  from Suc.IH [of "d\<lparr>ata_phase := Ata_busy k\<rparr>"] Suc.prems show ?case
    by (subst wait_ready.simps) (simp add: ata_status_def)
qed

lemma select_unreadable:
  assumes "unat esi = n" "n < 2 ^ 28" "sector disk n = None"
  shows "wait_ready disk (select_sector disk esi d) = None"
proof -
  obtain r where "select_sector disk esi d = r\<lparr>ata_sector := n, ata_left := 1, ata_phase := Ata_busy (latency disk n)\<rparr>"
    using select_sector_spec [OF assms(1,2)] by blast
  with assms(3) show ?thesis using wait_ready_unreadable [of _ "latency disk n"] by simp
qed

text \<open>
  The drive answers with ERR and without DRQ; \<open>.wait_ready\<close> does not look at ERR, so that \<open>read_disk\<close> does
  not return once it has come to a sector that cannot be read or lies behind the end of the medium.
\<close>

theorem read_disk_hangs:
  assumes "readable disk (unat lba) k" "sector disk (unat lba + k) = None" "k < unat n" "unat lba + unat n \<le> 2 ^ 28"
  shows "read_disk disk lba n buf m d = None"
proof -
  have "next_sector disk (word_of_nat l) (word_of_nat (Suc k + j)) a m d = None"
    if "readable disk l k" "sector disk (l + k) = None" "l + (Suc k + j) \<le> 2 ^ 28" for l k j a m d
    using that
  proof (induction k arbitrary: l a m d)
    case 0
    then have "unat (word_of_nat l :: u32) = l" by (intro unat_of_nat_u32) simp
    then show ?case by (subst next_sector.simps) (use 0 in \<open>simp add: select_unreadable\<close>)
  next
    case (Suc k)
    obtain ws where ws: "sector disk l = Some ws" "length ws = 256" using readable_Suc [OF Suc.prems(1)] by blast
    have "unat (word_of_nat l :: u32) = l" using Suc.prems(3) by (intro unat_of_nat_u32) simp
    from one_sector [OF this _ ws, of d a m] Suc.prems(3) obtain d1 d2 where
      s: "wait_ready disk (select_sector disk (word_of_nat l) d) = Some d1" "read_word disk 256 a m d1 = (a + 512, put_words a ws m, d2)" by auto
    have step: "word_of_nat l + 1 = (word_of_nat (Suc l) :: u32)" "word_of_nat (Suc (Suc k) + j) - 1 = (word_of_nat (Suc k + j) :: u32)" by simp_all
    have "next_sector disk (word_of_nat (Suc l)) (word_of_nat (Suc k + j)) (a + 512) (put_words a ws m) d2 = None"
      using Suc.prems by (intro Suc.IH readable_Suc(2)) simp_all
    moreover have "(word_of_nat (Suc k + j) :: u32) \<noteq> 0" using Suc.prems(3) of_nat_u32_eq_iff [of "Suc k + j" 0] by simp
    ultimately show ?case by (subst next_sector.simps) (simp only: s step bind.bind_lunit Let_def prod.case if_True simp_thms)
  qed
  from this [of "unat lba" k "unat n - Suc k" buf m d] assms show ?thesis by (simp add: read_disk_def del: of_nat_Suc of_nat_add)
qed

subsection \<open>The kernel from the disk\<close>

text \<open>The image as the loader finds it in the last megabyte.\<close>

definition disk_image :: "disk \<Rightarrow> ram" where
  "disk_image disk x = word_byte (disk_words disk 9 2048) (unat (x - 0xFFF00000))"

lemma load_hd_kernel_image_reads:
  assumes "readable disk 9 2048"
  shows "\<exists>m' d'. load_hd_kernel_image disk m d = Some (m', d') \<and>
    (\<forall>x. m' x = (if 0xFFF00000 \<le> x then disk_image disk x else m x))"
proof -
  have u: "unat KERNEL_START_SECTOR = 9" "unat KERNEL_SECTORS = 2048" by simp_all
  have "unat (x - KERNEL_BIN_LOAD_VIRTUAL_ADDR) < 512 * unat KERNEL_SECTORS \<longleftrightarrow> 0xFFF00000 \<le> x" for x
    using unat_u32_bound [of x] by (auto simp: word_le_nat_alt unat_sub_if')
  with read_disk_bytes [of disk KERNEL_START_SECTOR KERNEL_SECTORS KERNEL_BIN_LOAD_VIRTUAL_ADDR m d] assms
  show ?thesis unfolding load_hd_kernel_image_def u by (auto simp: disk_image_def)
qed

text \<open>The loader reads the header, the program headers and the segments in the image only.\<close>

lemma load16_same_on:
  assumes "same_on m m' lo hi" "lo \<le> a" "a + 2 \<le> hi"
  shows "load16 m' (word_of_nat a) = load16 m (word_of_nat a)"
  using same_on_byte [OF assms(1), of a] same_on_byte [OF assms(1), of "a + 1"] assms(2,3)
  by (simp add: load16_def add.commute)

lemma image_header_same:
  assumes "same_on m m' 0xFFF00000 4294967296"
  shows "e_phoff m' = e_phoff m" "e_phnum m' = e_phnum m" "e_phentsize m' = e_phentsize m"
    "load32 m' (KERNEL_BIN_LOAD_VIRTUAL_ADDR + ELF_E_ENTRY) = load32 m (KERNEL_BIN_LOAD_VIRTUAL_ADDR + ELF_E_ENTRY)"
  using load32_same_on [OF assms, of "0xFFF0001C"] load16_same_on [OF assms, of "0xFFF0002C"] load16_same_on [OF assms, of "0xFFF0002A"]
    load32_same_on [OF assms, of "0xFFF00018"]
  by (simp_all add: e_phoff_def e_phnum_def e_phentsize_def)

lemma loadable_same:
  assumes "same_on m m' 0xFFF00000 4294967296" "loadable m"
  shows "segments m' = segments m" "loadable m'"
proof -
  note h = image_header_same [OF assms(1)]
  have "program_header_at m' (word_of_nat (0xFFF00000 + e_phoff m + i * e_phentsize m)) =
      program_header_at m (word_of_nat (0xFFF00000 + e_phoff m + i * e_phentsize m))" if "i < e_phnum m" for i
  proof -
    have "(i + 1) * e_phentsize m \<le> e_phnum m * e_phentsize m" using that by (intro mult_le_mono1) simp
    with assms(2) show ?thesis by (intro program_header_same [OF assms(1)]) (simp_all add: loadable_def)
  qed
  then have "map (\<lambda>i. program_header_at m' (word_of_nat (0xFFF00000 + e_phoff m + i * e_phentsize m))) [0..<e_phnum m] =
      map (\<lambda>i. program_header_at m (word_of_nat (0xFFF00000 + e_phoff m + i * e_phentsize m))) [0..<e_phnum m]"
    by (intro map_cong) (simp_all only: set_upt atLeastLessThan_iff)
  then show s: "segments m' = segments m" unfolding segments_def h by (rule arg_cong)
  show "loadable m'" using assms(2) by (simp add: loadable_def h s)
qed

lemma overlay_same:
  assumes "same_on m m' 0xFFF00000 4294967296" "\<forall>h \<in> set hs. unat (p_offset h) + unat (p_filesz h) \<le> 0x100000"
  shows "overlay m' hs k = overlay m hs k"
proof (rule ext)
  fix x
  show "overlay m' hs k x = overlay m hs k x"
  proof (cases "find (covers x) (rev hs)")
    case (Some h)
    from Some have "h \<in> set (rev hs) \<and> covers x h" unfolding find_Some_iff by (metis nth_mem)
    then have h: "h \<in> set hs" "covers x h" by simp_all
    then have "unat (x - p_vaddr h) < unat (p_filesz h)" by (auto simp: covers_def unat_sub_u32)
    with h(1) assms(2) have b: "unat (p_offset h) + unat (x - p_vaddr h) < 0x100000" by fastforce
    define y where "y = p_offset h + (x - p_vaddr h)"
    have y: "unat y < 0x100000" using b by (simp add: y_def unat_add_u32)
    have "unat (0xFFF00000 + y) = 0xFFF00000 + unat y" using y by (subst unat_add_u32) simp_all
    then have "m' (0xFFF00000 + y) = m (0xFFF00000 + y)"
      using same_on_byte [OF assms(1), of "unat (0xFFF00000 + y)"] y by simp
    then show ?thesis using Some by (simp add: overlay_def y_def add.assoc)
  qed (simp add: overlay_def)
qed

definition disk_segments :: "disk \<Rightarrow> program_header list" where
  "disk_segments disk = segments (disk_image disk)"

lemma kernel_from_disk:
  assumes "readable disk 9 2048" "loadable (disk_image disk)"
  shows "\<exists>m1 d1. load_hd_kernel_image disk m d = Some (m1, d1) \<and> same_on m m1 0 0xFFF00000 \<and>
    do_load_kernel m1 = (load32 (disk_image disk) 0xFFF00018, overlay (disk_image disk) (disk_segments disk) m1)"
proof -
  obtain m1 d1 where m1: "load_hd_kernel_image disk m d = Some (m1, d1)"
      "\<And>x. m1 x = (if 0xFFF00000 \<le> x then disk_image disk x else m x)"
    using load_hd_kernel_image_reads [OF assms(1)] by blast
  have image: "same_on (disk_image disk) m1 0xFFF00000 4294967296" and "same_on m m1 0 0xFFF00000"
    by (auto simp: same_on_def m1(2) word_le_nat_alt unat_of_nat_u32)
  note l = loadable_same [OF image assms(2)]
  have "overlay m1 (segments m1) m1 = overlay (disk_image disk) (disk_segments disk) m1"
    unfolding l(1) disk_segments_def using assms(2) by (intro overlay_same [OF image]) (simp add: loadable_def)
  with do_load_kernel_segments [OF l(2)] image_header_same(4) [OF image] m1(1) \<open>same_on m m1 0 0xFFF00000\<close>
  show ?thesis by (intro exI [of _ m1] exI [of _ d1]) simp
qed

end
