(* ===== verification/Kheap_blocks.thy ===== *)
theory Kheap_blocks
  imports Kheap
begin

text \<open>
  What the heap stands for: the list of its blocks in the order of their addresses, each with
  its address, the size of its payload and whether it is a hole. \<open>tiles\<close> says that a list of
  blocks fills an area without gaps, \<open>block_at\<close> that memory holds the header and the footer of
  a block, \<open>index_ok\<close> that the ordered array holds given addresses by ascending size. The steps
  of the operations (writing a block, inserting into and removing from the index) preserve
  \<open>heap_rep\<close>, which relates a set of blocks and a set of indexed addresses to the state.
\<close>

subsection \<open>Addresses as natural numbers\<close>

definition addr :: "nat \<Rightarrow> u32" where
  "addr n = word_of_nat n"

lemma addr_simps [simp]:
  "addr a + numeral k = addr (a + numeral k)"
  "addr a + addr b = addr (a + b)"
  "addr (unat w) = w"
  by (simp_all add: addr_def)

lemma addr_minus [simp]: "b \<le> a \<Longrightarrow> addr a - addr b = addr (a - b)"
  by (simp add: addr_def of_nat_diff)

lemma addr_minus_numeral [simp]: "numeral k \<le> a \<Longrightarrow> addr a - numeral k = addr (a - numeral k)"
  by (simp add: addr_def of_nat_diff)

lemma unat_addr [simp]: "a < 4294967296 \<Longrightarrow> unat (addr a) = a"
  by (simp add: addr_def unat_of_nat_u32)

lemma addr_eq_iff [simp]: "a < 4294967296 \<Longrightarrow> b < 4294967296 \<Longrightarrow> addr a = addr b \<longleftrightarrow> a = b"
  by (simp add: addr_def of_nat_u32_eq_iff)

lemma addr_less_iff [simp]: "a < 4294967296 \<Longrightarrow> b < 4294967296 \<Longrightarrow> addr a < addr b \<longleftrightarrow> a < b"
  by (simp add: addr_def of_nat_u32_less_iff)

lemma addr_le_iff [simp]: "a < 4294967296 \<Longrightarrow> b < 4294967296 \<Longrightarrow> addr a \<le> addr b \<longleftrightarrow> a \<le> b"
  by (simp add: addr_def of_nat_u32_le_iff)

lemma inj_on_addr: "H \<subseteq> {..<4294967296} \<Longrightarrow> inj_on addr H"
  by (rule inj_onI) (auto simp: subset_iff)

lemmas only_in_store32_addr = only_in_store32 [folded addr_def]
lemmas only_in_store8_addr = only_in_store8 [folded addr_def]
lemmas only_in_load32_addr = only_in_load32 [folded addr_def]
lemmas only_in_byte_addr = only_in_byte [folded addr_def]
lemmas load32_store32_addr = load32_store32_other [folded addr_def]
lemmas load32_store8_addr = load32_store8_other [folded addr_def]
lemmas store32_byte_addr = store32_byte_other [folded addr_def]

subsection \<open>Blocks in memory\<close>

type_synonym block = "nat \<times> nat \<times> bool"

fun tiles :: "nat \<Rightarrow> block list \<Rightarrow> nat \<Rightarrow> bool" where
  "tiles s [] e \<longleftrightarrow> s = e"
| "tiles s ((a, n, h) # bs) e \<longleftrightarrow> a = s \<and> 0 < n \<and> tiles (a + n + 17) bs e"

definition holes :: "block list \<Rightarrow> nat set" where
  "holes bs = {a. \<exists>n. (a, n, True) \<in> set bs}"

definition allocated :: "block list \<Rightarrow> (nat \<times> nat) set" where
  "allocated bs = {(a, n). (a, n, False) \<in> set bs}"

fun coalesced :: "block list \<Rightarrow> bool" where
  "coalesced ((_, _, g) # (a, n, h) # bs) \<longleftrightarrow> \<not> (g \<and> h) \<and> coalesced ((a, n, h) # bs)"
| "coalesced bs \<longleftrightarrow> True"

fun block_at :: "ram \<Rightarrow> block \<Rightarrow> bool" where
  "block_at m (a, n, h) \<longleftrightarrow> load32 m (addr a) = KHEAP_MAGIC \<and> m (addr (a + 4)) = (if h then 1 else 0) \<and>
     load32 m (addr (a + 5)) = addr n \<and> load32 m (addr (a + 9 + n)) = KHEAP_MAGIC \<and>
     load32 m (addr (a + 13 + n)) = addr a"

text \<open>The addresses that \<open>make_block\<close> writes.\<close>

definition meta_area :: "nat \<Rightarrow> nat \<Rightarrow> nat set" where
  "meta_area a n = {a..<a + 9} \<union> {a + 9 + n..<a + 17 + n}"

definition put_block :: "nat \<Rightarrow> nat \<Rightarrow> u8 \<Rightarrow> ram \<Rightarrow> ram" where
  "put_block a n fl m = store32 (store32 (store8 (store32 (store32 m (addr a) KHEAP_MAGIC)
     (addr (a + 5)) (addr n)) (addr (a + 4)) fl) (addr (a + 9 + n)) KHEAP_MAGIC) (addr (a + 13 + n)) (addr a)"

lemma make_block_put:
  assumes "0 < n" "a + n + 17 < 4294967296"
  shows "make_block (addr a) (addr n) fl s = Inr (addr a, s\<lparr>mem := put_block a n fl (mem s)\<rparr>)"
proof -
  have "addr n > 0" using assms by (simp add: word_gt_0 addr_def word_unat_eq_iff unat_of_nat_u32)
  then show ?thesis
    by (simp add: make_block_def kheap_assert_def put_block_def Let_def ac_simps)
qed

lemma put_block_only_in: "a + n + 17 < 4294967296 \<Longrightarrow> only_in (meta_area a n) m (put_block a n fl m)"
  unfolding put_block_def meta_area_def
  by (intro only_in_store32_addr only_in_store8_addr only_in_refl) auto

lemma put_block_at:
  assumes "a + n + 17 < 4294967296"
  shows "block_at (put_block a n (if h then 1 else 0) m) (a, n, h)"
proof -
  have "put_block a n fl m (addr (a + 4)) = fl" for fl
    unfolding put_block_def using assms by (simp add: store32_byte_addr)
  then show ?thesis
    using assms by (simp add: put_block_def load32_store32_addr load32_store8_addr)
qed

lemma block_at_only_in:
  assumes "block_at m (a, n, h)" "only_in R m m'" "R \<inter> meta_area a n = {}" "a + n + 17 < 4294967296"
  shows "block_at m' (a, n, h)"
proof -
  have "{a..<a + 4} \<inter> R = {}" "{a + 5..<a + 5 + 4} \<inter> R = {}" "a + 4 \<notin> R"
    "{a + 9 + n..<a + 9 + n + 4} \<inter> R = {}" "{a + 13 + n..<a + 13 + n + 4} \<inter> R = {}"
    using assms(3) by (auto simp: meta_area_def)
  then show ?thesis
    using assms(1,4) only_in_load32_addr [OF assms(2)] only_in_byte_addr [OF assms(2)]
    by simp
qed

lemma meta_area_block: "meta_area a n \<subseteq> {a..<a + n + 17}"
  by (auto simp: meta_area_def)


subsection \<open>The index\<close>

lemma kheap_block_comparator_le:
  "sint (kheap_block_comparator m a b) \<le> 0 \<longleftrightarrow> header_size m a \<le> header_size m b"
  by (auto simp: kheap_block_comparator_def Let_def)

interpretation by_size: key_comparator kheap_block_comparator header_size
  by unfold_locales (rule kheap_block_comparator_le)

definition index_ok :: "ordered_array \<Rightarrow> ram \<Rightarrow> nat set \<Rightarrow> bool" where
  "index_ok ix m H \<longleftrightarrow> oa_ok ix \<and> oa_comparator ix = kheap_block_comparator \<and>
     (\<forall>a \<in> H. unat (oa_array ix) + 4 * unat (oa_max_size ix) \<le> a \<and> a + 9 \<le> 4294967296) \<and>
     distinct (elems ix m) \<and> set (elems ix m) = addr ` H \<and> by_size.ascending m (elems ix m)"

text \<open>An area that neither holds slots in use nor the headers of indexed holes.\<close>

definition clear_of :: "nat set \<Rightarrow> ordered_array \<Rightarrow> nat set \<Rightarrow> bool" where
  "clear_of R ix H \<longleftrightarrow> R \<inter> oa_slots ix (unat (oa_size ix)) = {} \<and> (\<forall>a \<in> H. R \<inter> {a..<a + 9} = {})"

lemma elems_only_in:
  assumes "oa_ok ix" "only_in R m m'" "R \<inter> oa_slots ix (unat (oa_size ix)) = {}"
  shows "elems ix m' = elems ix m"
proof (rule nth_equalityI)
  fix i assume "i < length (elems ix m')"
  then have i: "i < unat (oa_size ix)" by simp
  have b: "unat (oa_array ix) + 4 * i + 4 \<le> 4294967296" using i assms(1) by (simp add: oa_ok_def)
  have "{unat (oa_array ix) + 4 * i..<unat (oa_array ix) + 4 * i + 4} \<inter> R = {}"
    using assms(3) i by (auto simp: oa_slots_def)
  from only_in_load32 [OF assms(2) this b] show "elems ix m' ! i = elems ix m ! i"
    unfolding nth_elems [OF i] cell_at_def slot_nat .
qed simp

lemma header_size_only_in:
  assumes "only_in R m m'" "R \<inter> {a..<a + 9} = {}" "a + 9 \<le> 4294967296"
  shows "header_size m' (addr a) = header_size m (addr a)"
proof -
  have "{a + 5..<a + 5 + 4} \<inter> R = {}" using assms(2) by auto
  from only_in_load32_addr [OF assms(1) this] assms(3) show ?thesis by (simp add: header_size_def)
qed

lemma ascending_only_in:
  assumes "only_in R m m'" "set xs \<subseteq> addr ` H" "\<forall>a \<in> H. R \<inter> {a..<a + 9} = {}" "\<forall>a \<in> H. a + 9 \<le> 4294967296"
  shows "by_size.ascending m' xs = by_size.ascending m xs"
proof (rule by_size.ascending_cong, rule ballI)
  fix x assume "x \<in> set xs"
  then obtain a where "a \<in> H" "x = addr a" using assms(2) by auto
  then show "header_size m' x = header_size m x" using header_size_only_in [OF assms(1)] assms(3,4) by simp
qed

lemma index_ok_only_in:
  assumes "index_ok ix m H" "only_in R m m'" "clear_of R ix H"
  shows "index_ok ix m' H"
  using assms elems_only_in [OF _ assms(2), of ix] ascending_only_in [OF assms(2), of "elems ix m" H]
  by (simp add: index_ok_def clear_of_def)

lemma index_slots_clear:
  assumes "index_ok ix m H" "n \<le> unat (oa_max_size ix)"
  shows "\<forall>a \<in> H. oa_slots ix n \<inter> {a..<a + 9} = {}" "\<forall>a \<in> H. a + 9 \<le> 4294967296"
  using assms by (fastforce simp: index_ok_def oa_slots_def)+

lemma index_insert_ok:
  assumes "index_ok ix m H" "a \<notin> H" "oa_size ix < oa_max_size ix"
    and a: "unat (oa_array ix) + 4 * unat (oa_max_size ix) \<le> a" "a + 9 \<le> 4294967296"
  shows "\<exists>ix' m'. ordered_array_insert ix (addr a) m = (1, ix', m') \<and> ix' = ix\<lparr>oa_size := oa_size ix + 1\<rparr> \<and>
    index_ok ix' m' (insert a H) \<and> only_in (oa_slots ix (Suc (unat (oa_size ix)))) m m'"
proof -
  define P where "P = (\<lambda>x. sint (oa_comparator ix m x (addr a)) \<le> 0)"
  have ok: "oa_ok ix" and cmp: "oa_comparator ix = kheap_block_comparator"
    and H: "\<forall>b \<in> insert a H. unat (oa_array ix) + 4 * unat (oa_max_size ix) \<le> b \<and> b + 9 \<le> 4294967296"
    and el: "distinct (elems ix m)" "set (elems ix m) = addr ` H" "by_size.ascending m (elems ix m)"
    using assms(1) a by (simp_all add: index_ok_def)
  obtain ix' m' where r: "ordered_array_insert ix (addr a) m = (1, ix', m')" "ix' = ix\<lparr>oa_size := oa_size ix + 1\<rparr>"
    "oa_ok ix'" "elems ix' m' = takeWhile P (elems ix m) @ addr a # dropWhile P (elems ix m)"
    "only_in (oa_slots ix (Suc (unat (oa_size ix)))) m m'"
    using ordered_array_insert_elems [OF ok assms(3), of "addr a" m] unfolding P_def by blast
  have perm: "mset (elems ix' m') = add_mset (addr a) (mset (elems ix m))"
    and asc: "by_size.ascending m (elems ix' m')"
    using by_size.insert_ascending [OF el(3), of "addr a"] by_size.array_insert_ascending [OF ok assms(3) cmp el(3) r(1)]
    unfolding r(4) P_def cmp by (simp_all add: mset_append [symmetric] del: mset_append)
  have set': "set (elems ix' m') = addr ` insert a H"
    using arg_cong [OF perm, of set_mset] el(2) by simp
  have "addr a \<notin> set (elems ix m)"
    using assms(2) inj_on_addr [of "insert a H"] H unfolding el(2) by (force simp: inj_on_def)
  then have "distinct (elems ix' m')"
    using perm el(1) by (metis distinct.simps(2) mset.simps(2) mset_eq_imp_distinct_iff)
  moreover have "by_size.ascending m' (elems ix' m')"
  proof -
    have "\<forall>b \<in> insert a H. oa_slots ix (Suc (unat (oa_size ix))) \<inter> {b..<b + 9} = {}"
      using H assms(3) by (fastforce simp: oa_slots_def word_less_nat_alt)
    from ascending_only_in [OF r(5) _ this] asc set' H show ?thesis by simp
  qed
  ultimately have "index_ok ix' m' (insert a H)"
    using r(2,3) H cmp set' by (simp add: index_ok_def)
  with r show ?thesis by blast
qed

text \<open>Removal after memory has changed outside the slots and the other headers.\<close>

lemma index_remove_element_ok:
  assumes "index_ok ix m H" "x \<in> H" "only_in R m m1" "clear_of R ix (H - {x})"
  shows "\<exists>ix' m'. ordered_array_remove_element ix (addr x) m1 = (1, ix', m') \<and> ix' = ix\<lparr>oa_size := oa_size ix - 1\<rparr> \<and>
    index_ok ix' m' (H - {x}) \<and> only_in (oa_slots ix (unat (oa_size ix))) m1 m'"
proof -
  have ok: "oa_ok ix" and cmp: "oa_comparator ix = kheap_block_comparator"
    and H: "\<forall>b \<in> H. unat (oa_array ix) + 4 * unat (oa_max_size ix) \<le> b \<and> b + 9 \<le> 4294967296"
    and el: "distinct (elems ix m)" "set (elems ix m) = addr ` H" "by_size.ascending m (elems ix m)"
    using assms(1) by (simp_all add: index_ok_def)
  have e1: "elems ix m1 = elems ix m" using elems_only_in [OF ok assms(3)] assms(4) by (simp add: clear_of_def)
  have "addr x \<in> set (elems ix m1)" using e1 el(2) assms(2) by simp
  then obtain ix' m' where r: "ordered_array_remove_element ix (addr x) m1 = (1, ix', m')"
    "ix' = ix\<lparr>oa_size := oa_size ix - 1\<rparr>" "oa_ok ix'" "elems ix' m' = remove1 (addr x) (elems ix m)"
    "only_in (oa_slots ix (unat (oa_size ix))) m1 m'"
    using remove_element_elems [OF ok, of "addr x" m1] e1 by auto
  have inj: "inj_on addr H" using H by (intro inj_on_addr) force
  have set': "set (elems ix' m') = addr ` (H - {x})"
    using inj_on_image_set_diff [OF inj, of H "{x}"] assms(2) el unfolding r(4) by (simp add: set_remove1_eq)
  have "by_size.ascending m (elems ix' m')" unfolding r(4) by (rule by_size.ascending_remove1 [OF el(3)])
  then have "by_size.ascending m1 (elems ix' m')"
    using ascending_only_in [OF assms(3), of "elems ix' m'" "H - {x}"] set' assms(4) H by (simp add: clear_of_def)
  then have "by_size.ascending m' (elems ix' m')"
    using ascending_only_in [OF r(5), of "elems ix' m'" "H - {x}"] set' H
      index_slots_clear [OF assms(1), of "unat (oa_size ix)"] oa_ok_bounds [OF ok] by simp
  then have "index_ok ix' m' (H - {x})"
    using r(2,3) H cmp set' el(1) unfolding index_ok_def by (simp add: r(4) [unfolded r(2)])
  with r show ?thesis by blast
qed

text \<open>Removing by position is removing the element there.\<close>

lemma length_takeWhile_distinct:
  "distinct xs \<Longrightarrow> i < length xs \<Longrightarrow> length (takeWhile (\<lambda>y. y \<noteq> xs ! i) xs) = i"
proof (induction xs arbitrary: i)
  case (Cons x xs)
  then show ?case by (cases i) auto
qed simp

lemma remove_eq_remove_element:
  assumes "distinct (elems ix m)" "i < oa_size ix"
  shows "ordered_array_remove ix i m = ordered_array_remove_element ix (elems ix m ! unat i) m"
proof -
  have i: "unat i < length (elems ix m)" using assms(2) by (simp add: word_less_nat_alt)
  then have "elems ix m ! unat i \<in> set (elems ix m)" by (rule nth_mem)
  from find_index_elems(1) [OF this] length_takeWhile_distinct [OF assms(1) i]
  have "find_index ix (elems ix m ! unat i) m 0 = i" by (simp add: word_unat_eq_iff)
  then show ?thesis
    using assms(2) by (auto simp: ordered_array_remove_def ordered_array_remove_element_def)
qed

lemma index_remove_ok:
  assumes "index_ok ix m H" "i < oa_size ix" "elems ix m ! unat i = addr x" "x \<in> H"
  shows "\<exists>ix' m'. ordered_array_remove ix i m = (1, ix', m') \<and> ix' = ix\<lparr>oa_size := oa_size ix - 1\<rparr> \<and>
    index_ok ix' m' (H - {x}) \<and> only_in (oa_slots ix (unat (oa_size ix))) m m'"
proof -
  have "distinct (elems ix m)" using assms(1) by (simp add: index_ok_def)
  from remove_eq_remove_element [OF this assms(2)] assms(3) show ?thesis
    using index_remove_element_ok [OF assms(1,4) only_in_refl, of "{}"] by (simp add: clear_of_def)
qed


text \<open>Well-formedness of the index through an insertion and a removal.\<close>

text \<open>C24: Inserting a hole into the index and removing it again both succeed and keep the index
  well formed: distinct addresses in ascending order of the sizes in the block headers, inside
  its memory.\<close>

theorem index_well_formed:
  assumes ok: "index_ok ix m H" and a: "a \<notin> H" "oa_size ix < oa_max_size ix"
    "unat (oa_array ix) + 4 * unat (oa_max_size ix) \<le> a" "a + 9 \<le> 4294967296"
  shows "\<exists>ix1 m1 ix2 m2. ordered_array_insert ix (addr a) m = (1, ix1, m1) \<and> index_ok ix1 m1 (insert a H) \<and>
    ordered_array_remove_element ix1 (addr a) m1 = (1, ix2, m2) \<and> index_ok ix2 m2 H"
proof -
  obtain ix1 m1 where i: "ordered_array_insert ix (addr a) m = (1, ix1, m1)" "index_ok ix1 m1 (insert a H)"
    using index_insert_ok [OF ok a] by blast
  have "clear_of {} ix1 (insert a H - {a})" by (simp add: clear_of_def)
  from index_remove_element_ok [OF i(2) insertI1 only_in_refl this] obtain ix2 m2 where
    "ordered_array_remove_element ix1 (addr a) m1 = (1, ix2, m2)" "index_ok ix2 m2 (insert a H - {a})" by blast
  moreover have "insert a H - {a} = H" using a(1) by simp
  ultimately show ?thesis using i by auto
qed

subsection \<open>The representation relation\<close>

text \<open>
  The index lies directly below the first block, and its last two slots are kept free: \<open>free\<close>
  reads them as the footer of a block to the left of the first one. The same function reads the
  word at the end of the heap as the header of a block to the right of the last one. \<open>guarded\<close>
  says that neither word is the magic number, now or after an expansion.
\<close>

definition geometry :: "kheap_t \<Rightarrow> bool" where
  "geometry K \<longleftrightarrow>
     unat (oa_array (kh_index K)) + 4 * unat (oa_max_size (kh_index K)) = unat (kh_start_address K) \<and>
     2 \<le> unat (oa_max_size (kh_index K)) \<and> unat (kh_start_address K) < unat (kh_end_address K) \<and>
     unat (kh_end_address K) \<le> unat (kh_max_address K) \<and> unat (kh_end_address K) mod 4096 = 0 \<and>
     unat (kh_max_address K) \<le> 3758096384 \<and>
     unat (kh_size K) = unat (kh_end_address K) - unat (kh_start_address K)"

definition guarded :: "kheap_t \<Rightarrow> ram \<Rightarrow> bool" where
  "guarded K m \<longleftrightarrow> load32 m (addr (unat (kh_start_address K) - 8)) \<noteq> KHEAP_MAGIC \<and>
     (\<forall>p. unat (kh_end_address K) \<le> p \<longrightarrow> p \<le> unat (kh_max_address K) \<longrightarrow> p mod 4096 = 0 \<longrightarrow>
        load32 m (addr p) \<noteq> KHEAP_MAGIC)"

definition index_area :: "kheap_t \<Rightarrow> nat set" where
  "index_area K = {unat (oa_array (kh_index K))..<unat (kh_start_address K) - 8}"

text \<open>There is room for \<open>k\<close> more holes in the index.\<close>

definition room :: "nat \<Rightarrow> 'a kheap_state_scheme \<Rightarrow> bool" where
  "room k s \<longleftrightarrow> unat (oa_size (kh_index (kheap s))) + k + 2 \<le> unat (oa_max_size (kh_index (kheap s)))"

definition blocks_rep :: "block set \<Rightarrow> 'a kheap_state_scheme \<Rightarrow> bool" where
  "blocks_rep B s \<longleftrightarrow> geometry (kheap s) \<and> guarded (kheap s) (mem s) \<and>
     (\<forall>(a, n, h) \<in> B. unat (kh_start_address (kheap s)) \<le> a \<and> a + n + 17 \<le> unat (kh_end_address (kheap s)) \<and>
        block_at (mem s) (a, n, h))"

definition heap_rep :: "block set \<Rightarrow> nat set \<Rightarrow> 'a kheap_state_scheme \<Rightarrow> bool" where
  "heap_rep B H s \<longleftrightarrow> blocks_rep B s \<and> H \<subseteq> fst ` B \<and> index_ok (kh_index (kheap s)) (mem s) H"

text \<open>What a step changes: memory inside \<open>W\<close>, and of the static data the index only.\<close>

definition evolves :: "nat set \<Rightarrow> 'a kheap_state_scheme \<Rightarrow> 'a kheap_state_scheme \<Rightarrow> bool" where
  "evolves W s s' \<longleftrightarrow> only_in W (mem s) (mem s') \<and> kheap_lock s' = kheap_lock s \<and>
     kheap s' = (kheap s)\<lparr>kh_index := kh_index (kheap s')\<rparr> \<and>
     kh_index (kheap s') = (kh_index (kheap s))\<lparr>oa_size := oa_size (kh_index (kheap s'))\<rparr>"

lemma evolves_refl [simp]: "evolves W s s"
  by (simp add: evolves_def)

lemma evolves_trans: "evolves W s s' \<Longrightarrow> evolves W s' s'' \<Longrightarrow> evolves W s s''"
  unfolding evolves_def using only_in_trans
  by (metis (no_types, lifting) kheap_t.surjective kheap_t.update_convs(1) ordered_array.surjective
      ordered_array.update_convs(2))

lemma evolves_mono: "evolves W s s' \<Longrightarrow> W \<subseteq> W' \<Longrightarrow> evolves W' s s'"
  by (auto simp: evolves_def intro: only_in_mono)

lemma evolves_fields:
  assumes "evolves W s s'"
  shows "kh_start_address (kheap s') = kh_start_address (kheap s)"
    "kh_end_address (kheap s') = kh_end_address (kheap s)"
    "kh_max_address (kheap s') = kh_max_address (kheap s)"
    "kh_size (kheap s') = kh_size (kheap s)"
    "oa_array (kh_index (kheap s')) = oa_array (kh_index (kheap s))"
    "oa_max_size (kh_index (kheap s')) = oa_max_size (kh_index (kheap s))"
    "geometry (kheap s') = geometry (kheap s)"
    "index_area (kheap s') = index_area (kheap s)"
    "guarded (kheap s') m = guarded (kheap s) m"
proof -
  have K: "kheap s' = (kheap s)\<lparr>kh_index := (kh_index (kheap s))\<lparr>oa_size := oa_size (kh_index (kheap s'))\<rparr>\<rparr>"
    using assms unfolding evolves_def by metis
  then show "kh_start_address (kheap s') = kh_start_address (kheap s)"
    "kh_end_address (kheap s') = kh_end_address (kheap s)"
    "kh_max_address (kheap s') = kh_max_address (kheap s)"
    "kh_size (kheap s') = kh_size (kheap s)"
    "oa_array (kh_index (kheap s')) = oa_array (kh_index (kheap s))"
    "oa_max_size (kh_index (kheap s')) = oa_max_size (kh_index (kheap s))"
    by (metis kheap_t.select_convs kheap_t.update_convs(1) kheap_t.surjective ordered_array.select_convs
        ordered_array.surjective ordered_array.update_convs(2))+
  then show "geometry (kheap s') = geometry (kheap s)" "index_area (kheap s') = index_area (kheap s)"
    "guarded (kheap s') m = guarded (kheap s) m"
    by (simp_all add: geometry_def index_area_def guarded_def)
qed

definition apart :: "nat \<Rightarrow> nat \<Rightarrow> block set \<Rightarrow> bool" where
  "apart a n B \<longleftrightarrow> (\<forall>(b, k, h) \<in> B. b + k + 17 \<le> a \<or> a + n + 17 \<le> b)"

lemma guarded_only_in:
  assumes "guarded K m" "only_in R m m'" "geometry K"
    and R: "R \<subseteq> {..<unat (kh_start_address K) - 8} \<union> {unat (kh_start_address K)..<unat (kh_end_address K)}"
  shows "guarded K m'"
proof -
  define S E where "S = unat (kh_start_address K)" and "E = unat (kh_end_address K)"
  have g: "8 \<le> S" "S < E" "E \<le> unat (kh_max_address K)" "unat (kh_max_address K) \<le> 3758096384"
    using assms(3) by (auto simp: geometry_def S_def E_def)
  have "{S - 8..<S - 8 + 4} \<inter> R = {}" using R g by (force simp: S_def E_def)
  from only_in_load32_addr [OF assms(2) this] have "load32 m' (addr (S - 8)) = load32 m (addr (S - 8))"
    using g by simp
  moreover have "load32 m' (addr p) = load32 m (addr p)" if "E \<le> p" "p \<le> unat (kh_max_address K)" for p
  proof -
    have "{p..<p + 4} \<inter> R = {}" using R g that by (force simp: S_def E_def)
    from only_in_load32_addr [OF assms(2) this] show ?thesis using g that by simp
  qed
  ultimately show ?thesis using assms(1) by (simp add: guarded_def S_def E_def)
qed


subsection \<open>Steps\<close>

lemma blocks_repD:
  assumes "blocks_rep B s"
  shows "geometry (kheap s)" "guarded (kheap s) (mem s)"
    "(a, n, h) \<in> B \<Longrightarrow> unat (kh_start_address (kheap s)) \<le> a \<and> a + n + 17 \<le> unat (kh_end_address (kheap s))
        \<and> block_at (mem s) (a, n, h)"
  using assms by (auto simp: blocks_rep_def)

lemma heap_repD:
  assumes "heap_rep B H s"
  shows "blocks_rep B s" "H \<subseteq> fst ` B" "index_ok (kh_index (kheap s)) (mem s) H"
  using assms by (simp_all add: heap_rep_def)

lemma geometry_bounds:
  assumes "geometry K"
  shows "unat (kh_end_address K) \<le> 3758096384" "8 \<le> unat (kh_start_address K)"
    "unat (kh_start_address K) < unat (kh_end_address K)"
    "n \<le> unat (oa_max_size (kh_index K)) \<Longrightarrow> x \<in> oa_slots (kh_index K) n \<Longrightarrow> x < unat (kh_start_address K)"
  using assms by (auto simp: geometry_def oa_slots_def)

lemma blocks_rep_mem:
  assumes rep: "blocks_rep B s" and m': "only_in R (mem s) m'" and C: "C \<subseteq> B"
    and R: "R \<subseteq> {unat (kh_start_address (kheap s))..<unat (kh_end_address (kheap s))}"
    and dis: "\<And>b k g. (b, k, g) \<in> C \<Longrightarrow> R \<inter> meta_area b k = {}"
  shows "blocks_rep C (s\<lparr>mem := m'\<rparr>)"
proof -
  note d = blocks_repD [OF rep] and g = geometry_bounds [OF blocks_repD(1) [OF rep]]
  have "guarded (kheap s) m'" by (rule guarded_only_in [OF d(2) m' d(1)]) (use R in blast)
  moreover have "block_at m' (b, k, h)" if "(b, k, h) \<in> C" for b k h
    using d(3) [of b k h] that C g by (intro block_at_only_in [OF _ m' dis [OF that]]) auto
  ultimately show ?thesis using d(1,3) C unfolding blocks_rep_def by auto
qed

text \<open>Writes into the slots of the index, which end below the guard word.\<close>

lemma blocks_rep_index:
  assumes rep: "blocks_rep B s" and m': "only_in (oa_slots (kh_index (kheap s)) k) (mem s) m'"
    and k: "k + 2 \<le> unat (oa_max_size (kh_index (kheap s)))"
    and ix': "ix' = (kh_index (kheap s))\<lparr>oa_size := n\<rparr>"
  defines "s' \<equiv> s\<lparr>mem := m', kheap := (kheap s)\<lparr>kh_index := ix'\<rparr>\<rparr>"
  shows "blocks_rep B s'" "evolves (index_area (kheap s)) s s'"
proof -
  note d = blocks_repD [OF rep] and g = geometry_bounds [OF blocks_repD(1) [OF rep]]
  have sl: "oa_slots (kh_index (kheap s)) k \<subseteq> index_area (kheap s)"
    using k d(1) by (auto simp: oa_slots_def index_area_def geometry_def)
  have o: "only_in (index_area (kheap s)) (mem s) m'" by (rule only_in_mono [OF m' sl])
  then show ev: "evolves (index_area (kheap s)) s s'" using ix' by (simp add: evolves_def s'_def)
  have "guarded (kheap s) m'"
    by (rule guarded_only_in [OF d(2) o d(1)]) (auto simp: index_area_def)
  moreover have "block_at m' (a, j, h)" if "(a, j, h) \<in> B" for a j h
  proof (rule block_at_only_in [OF _ o])
    show "index_area (kheap s) \<inter> meta_area a j = {}"
      using d(3) [OF that] meta_area_block [of a j] by (fastforce simp: index_area_def)
  qed (use d(3) [OF that] g in auto)
  ultimately show "blocks_rep B s'"
    using d(1,3) ix' unfolding blocks_rep_def by (auto simp: s'_def guarded_def geometry_def)
qed

lemma apart_meta_area:
  "apart a n C \<Longrightarrow> (b, k, g) \<in> C \<Longrightarrow> meta_area a n \<inter> meta_area b k = {}"
  unfolding apart_def using meta_area_block [of a n] meta_area_block [of b k] by fastforce

lemma slots_in_use_below:
  assumes "blocks_rep B s" "index_ok (kh_index (kheap s)) m H" "unat (kh_start_address (kheap s)) \<le> a"
  shows "meta_area a n \<inter> oa_slots (kh_index (kheap s)) (unat (oa_size (kh_index (kheap s)))) = {}"
proof -
  have "oa_ok (kh_index (kheap s))" using assms(2) by (simp add: index_ok_def)
  from geometry_bounds(4) [OF blocks_repD(1) [OF assms(1)] oa_ok_bounds(2) [OF this]] assms(3)
  show ?thesis by (fastforce simp: meta_area_def)
qed

lemma headers_apart:
  assumes "H \<subseteq> fst ` C" "apart a n C"
  shows "\<forall>b \<in> H. meta_area a n \<inter> {b..<b + 9} = {}"
proof
  fix b assume "b \<in> H"
  then have "b \<in> fst ` C" using assms(1) by blast
  then obtain k h where "(b, k, h) \<in> C" by auto
  from apart_meta_area [OF assms(2) this] show "meta_area a n \<inter> {b..<b + 9} = {}"
    by (auto simp: meta_area_def)
qed

lemma write_block_rep:
  fixes h :: bool
  assumes rep: "blocks_rep B s" and C: "C \<subseteq> B" "apart a n C"
    and a: "0 < n" "unat (kh_start_address (kheap s)) \<le> a" "a + n + 17 \<le> unat (kh_end_address (kheap s))"
  defines "s' \<equiv> s\<lparr>mem := put_block a n (if h then 1 else 0) (mem s)\<rparr>"
  shows "make_block (addr a) (addr n) (if h then 1 else 0) s = Inr (addr a, s')"
    "blocks_rep (insert (a, n, h) C) s'" "evolves (meta_area a n) s s'"
proof -
  have b: "a + n + 17 < 4294967296" using a geometry_bounds(1) [OF blocks_repD(1) [OF rep]] by simp
  show "make_block (addr a) (addr n) (if h then 1 else 0) s = Inr (addr a, s')"
    unfolding s'_def by (rule make_block_put [OF a(1) b])
  have o: "only_in (meta_area a n) (mem s) (put_block a n (if h then 1 else 0) (mem s))"
    by (rule put_block_only_in [OF b])
  then show "evolves (meta_area a n) s s'" by (simp add: evolves_def s'_def)
  have "blocks_rep C s'"
    unfolding s'_def using meta_area_block [of a n] a
    by (intro blocks_rep_mem [OF rep o C(1)] apart_meta_area [OF C(2)]) auto
  then show "blocks_rep (insert (a, n, h) C) s'"
    using put_block_at [OF b, of h "mem s"] a by (auto simp: blocks_rep_def s'_def)
qed

lemma write_block:
  assumes rep: "heap_rep B H s" and C: "C \<subseteq> B" "H \<subseteq> fst ` C" "apart a n C"
    and a: "0 < n" "unat (kh_start_address (kheap s)) \<le> a" "a + n + 17 \<le> unat (kh_end_address (kheap s))"
  shows "\<exists>s'. make_block (addr a) (addr n) (if h then 1 else 0) s = Inr (addr a, s') \<and>
    heap_rep (insert (a, n, h) C) H s' \<and> evolves (meta_area a n) s s' \<and> kheap s' = kheap s"
proof -
  define s' where "s' = s\<lparr>mem := put_block a n (if h then 1 else 0) (mem s)\<rparr>"
  note d = heap_repD [OF rep]
  note w = write_block_rep [OF d(1) C(1,3) a, of h, folded s'_def]
  have "clear_of (meta_area a n) (kh_index (kheap s)) H"
    using slots_in_use_below [OF d(1,3) a(2)] headers_apart [OF C(2,3)] by (simp add: clear_of_def)
  with w(3) have "index_ok (kh_index (kheap s)) (mem s') H"
    by (intro index_ok_only_in [OF d(3)]) (simp_all add: evolves_def)
  then have "heap_rep (insert (a, n, h) C) H s'" using w(2) C(2) by (auto simp: heap_rep_def s'_def)
  with w show ?thesis by (intro exI [of _ s']) (simp add: s'_def)
qed

lemma set_hole:
  assumes rep: "heap_rep B H s" and C: "C \<subseteq> B" "H \<subseteq> fst ` C" "apart a n C" and b: "(a, n, h) \<in> B"
  defines "s' \<equiv> s\<lparr>mem := store8 (mem s) (addr (a + 4)) 1\<rparr>"
  shows "heap_rep (insert (a, n, True) C) H s'" "evolves (meta_area a n) s s'"
proof -
  note r = heap_repD [OF rep]
  note d = blocks_repD(3) [OF r(1) b] and g = geometry_bounds [OF blocks_repD(1) [OF r(1)]]
  have bd: "a + n + 17 < 4294967296" using d g by simp
  have o: "only_in (meta_area a n) (mem s) (store8 (mem s) (addr (a + 4)) 1)"
    using bd by (intro only_in_store8_addr) (auto simp: meta_area_def)
  then show "evolves (meta_area a n) s s'" by (simp add: evolves_def s'_def)
  have "blocks_rep C s'"
    unfolding s'_def using meta_area_block [of a n] d
    by (intro blocks_rep_mem [OF r(1) o C(1)] apart_meta_area [OF C(3)]) auto
  moreover have "block_at (mem s') (a, n, True)"
    using d bd by (simp add: s'_def load32_store8_addr)
  moreover have "index_ok (kh_index (kheap s)) (mem s') H"
    using slots_in_use_below [OF r(1,3)] headers_apart [OF C(2,3)] d o
    by (intro index_ok_only_in [OF r(3), of "meta_area a n"]) (simp_all add: clear_of_def s'_def)
  ultimately show "heap_rep (insert (a, n, True) C) H s'"
    using d C(2) by (auto simp: heap_rep_def blocks_rep_def s'_def)
qed


lemma room_simps:
  "room k s \<Longrightarrow> j \<le> k \<Longrightarrow> room j s"
  "kheap s' = kheap s \<Longrightarrow> room k s' = room k s"
  by (auto simp: room_def)

lemma index_insert_step:
  assumes rep: "heap_rep B H s" and a: "a \<in> fst ` B" "a \<notin> H" and room: "room (Suc k) s"
  shows "\<exists>s'. index_insert (addr a) s = (1, s') \<and> heap_rep B (insert a H) s' \<and>
    evolves (index_area (kheap s)) s s' \<and> room k s'"
proof -
  define ix where "ix = kh_index (kheap s)"
  note d = heap_repD [OF rep]
  note g = blocks_repD [OF d(1)]
  have r: "Suc (unat (oa_size ix)) + k + 2 \<le> unat (oa_max_size ix)" using room by (simp add: room_def ix_def)
  then have lt: "oa_size ix < oa_max_size ix" by (simp add: word_less_nat_alt)
  obtain n h where b: "(a, n, h) \<in> B" using a(1) by auto
  have "unat (oa_array ix) + 4 * unat (oa_max_size ix) \<le> a" "a + 9 \<le> 4294967296"
    using g(1) g(3) [OF b] geometry_bounds(1) [OF g(1)] by (auto simp: geometry_def ix_def)
  from index_insert_ok [OF d(3) [folded ix_def] a(2) lt this] obtain ix' m' where i:
    "ordered_array_insert ix (addr a) (mem s) = (1, ix', m')" "ix' = ix\<lparr>oa_size := oa_size ix + 1\<rparr>"
    "index_ok ix' m' (insert a H)" "only_in (oa_slots ix (Suc (unat (oa_size ix)))) (mem s) m'" by blast
  define s' where "s' = s\<lparr>mem := m', kheap := (kheap s)\<lparr>kh_index := ix'\<rparr>\<rparr>"
  have "index_insert (addr a) s = (1, s')" using i(1) by (simp add: index_insert_def ix_def s'_def)
  moreover have "blocks_rep B s'" "evolves (index_area (kheap s)) s s'"
    unfolding s'_def using blocks_rep_index [OF d(1) i(4) [unfolded ix_def] _ i(2) [unfolded ix_def]] r
    by (simp_all add: ix_def)
  moreover have "insert a H \<subseteq> fst ` B" using a(1) d(2) by blast
  moreover have "room k s'" using r i(2) unat_inc_u32 [OF lt] by (simp add: room_def s'_def)
  ultimately show ?thesis using i(3) by (auto simp: heap_rep_def s'_def)
qed

lemma unat_dec_member:
  assumes "index_ok ix m H" "x \<in> H"
  shows "unat (oa_size ix - 1) = unat (oa_size ix) - 1" "0 < unat (oa_size ix)"
proof -
  have "elems ix m \<noteq> []" using assms unfolding index_ok_def by force
  then show p: "0 < unat (oa_size ix)" by (metis length_elems length_greater_0_conv)
  then show "unat (oa_size ix - 1) = unat (oa_size ix) - 1"
    by (intro unat_dec_u32 [of 0]) (simp add: word_less_nat_alt)
qed

lemma index_remove_step:
  assumes rep: "heap_rep B H s" and i: "i < oa_size (kh_index (kheap s))" "x \<in> H"
    "elems (kh_index (kheap s)) (mem s) ! unat i = addr x" and room: "room k s"
  shows "\<exists>s'. index_remove i s = (1, s') \<and> heap_rep B (H - {x}) s' \<and>
    evolves (index_area (kheap s)) s s' \<and> room (Suc k) s'"
proof -
  define ix where "ix = kh_index (kheap s)"
  note d = heap_repD [OF rep]
  from index_remove_ok [OF d(3) i(1,3,2)] obtain ix' m' where r:
    "ordered_array_remove ix i (mem s) = (1, ix', m')" "ix' = ix\<lparr>oa_size := oa_size ix - 1\<rparr>"
    "index_ok ix' m' (H - {x})" "only_in (oa_slots ix (unat (oa_size ix))) (mem s) m'"
    unfolding ix_def by blast
  define s' where "s' = s\<lparr>mem := m', kheap := (kheap s)\<lparr>kh_index := ix'\<rparr>\<rparr>"
  have "index_remove i s = (1, s')" using r(1) by (simp add: index_remove_def ix_def s'_def)
  moreover have "blocks_rep B s'" "evolves (index_area (kheap s)) s s'"
    unfolding s'_def using blocks_rep_index [OF d(1) r(4) [unfolded ix_def] _ r(2) [unfolded ix_def]] room
    by (simp_all add: room_def)
  moreover have "room (Suc k) s'" using room r(2) unat_dec_member [OF d(3) i(2)] by (simp add: room_def s'_def ix_def)
  ultimately show ?thesis using r(3) d(2) by (auto simp: heap_rep_def s'_def)
qed

text \<open>
  A merge: a block is written over others, and the one indexed address that no longer stands
  for a block as before is removed afterwards.
\<close>

lemma merge_step:
  assumes rep: "heap_rep B H s" and x: "x \<in> H" and C: "C \<subseteq> B" "H - {x} \<subseteq> fst ` C" "apart a n C"
    and a: "0 < n" "unat (kh_start_address (kheap s)) \<le> a" "a + n + 17 \<le> unat (kh_end_address (kheap s))"
    and room: "room k s"
  shows "\<exists>s1 s'. make_block (addr a) (addr n) 1 s = Inr (addr a, s1) \<and>
    index_remove_element (addr x) s1 = (1, s') \<and>
    heap_rep (insert (a, n, True) C) (H - {x}) s' \<and>
    evolves (index_area (kheap s) \<union> meta_area a n) s s' \<and> room (Suc k) s'"
proof -
  define ix s1 where "ix = kh_index (kheap s)" and "s1 = s\<lparr>mem := put_block a n 1 (mem s)\<rparr>"
  note d = heap_repD [OF rep]
  note w = write_block_rep [OF d(1) C(1,3) a, of True, simplified, folded s1_def]
  have K1: "kheap s1 = kheap s" by (simp add: s1_def)
  have o: "only_in (meta_area a n) (mem s) (mem s1)" using w(3) by (simp add: evolves_def)
  have "clear_of (meta_area a n) ix (H - {x})"
    using slots_in_use_below [OF d(1,3) a(2)] headers_apart [OF C(2,3)] by (simp add: clear_of_def ix_def)
  from index_remove_element_ok [OF d(3) [folded ix_def] x o this] obtain ix' m' where r:
    "ordered_array_remove_element ix (addr x) (mem s1) = (1, ix', m')" "ix' = ix\<lparr>oa_size := oa_size ix - 1\<rparr>"
    "index_ok ix' m' (H - {x})" "only_in (oa_slots ix (unat (oa_size ix))) (mem s1) m'" by blast
  define s' where "s' = s1\<lparr>mem := m', kheap := (kheap s1)\<lparr>kh_index := ix'\<rparr>\<rparr>"
  have run: "index_remove_element (addr x) s1 = (1, s')"
    using r(1) by (simp add: index_remove_element_def ix_def s'_def K1)
  have b: "blocks_rep (insert (a, n, True) C) s'" "evolves (index_area (kheap s1)) s1 s'"
    unfolding s'_def using blocks_rep_index [OF w(2), of _ m' ix'] r(2,4) room
    by (simp_all add: ix_def K1 room_def)
  have "evolves (index_area (kheap s) \<union> meta_area a n) s s1"
    "evolves (index_area (kheap s) \<union> meta_area a n) s1 s'"
    by (rule evolves_mono [OF w(3)], blast) (rule evolves_mono [OF b(2)], simp add: K1)
  note ev = evolves_trans [OF this]
  have "room (Suc k) s'"
    using room r(2) unat_dec_member [OF d(3) x] by (simp add: room_def s'_def ix_def K1)
  moreover have "heap_rep (insert (a, n, True) C) (H - {x}) s'"
    using b(1) r(3) C(2) by (auto simp: heap_rep_def s'_def)
  ultimately show ?thesis using w(1) run ev by blast
qed


subsection \<open>Lists of blocks\<close>

lemma tiles_append: "tiles s (xs @ ys) e \<longleftrightarrow> (\<exists>m. tiles s xs m \<and> tiles m ys e)"
  by (induction xs arbitrary: s) auto

lemma tiles_le: "tiles s bs e \<Longrightarrow> s \<le> e"
  by (induction bs arbitrary: s) (auto, fastforce)

lemma tiles_bounds: "tiles s bs e \<Longrightarrow> (a, n, h) \<in> set bs \<Longrightarrow> s \<le> a \<and> a + n + 17 \<le> e \<and> 0 < n"
proof (induction bs arbitrary: s)
  case (Cons b bs)
  obtain a' n' h' where b: "b = (a', n', h')" by (cases b)
  then have t: "tiles (s + n' + 17) bs e" "a' = s" "0 < n'" using Cons.prems(1) by auto
  show ?case
    using Cons.prems(2) Cons.IH [OF t(1)] t tiles_le [OF t(1)] b by fastforce
qed simp

lemma tiles_mid:
  assumes "tiles s (xs @ (a, n, h) # ys) e"
  shows "tiles s xs a" "tiles (a + n + 17) ys e" "0 < n" "s \<le> a" "a + n + 17 \<le> e"
    "apart a n (set xs \<union> set ys)"
proof -
  show t: "tiles s xs a" "tiles (a + n + 17) ys e" "0 < n" using assms by (auto simp: tiles_append)
  then show "s \<le> a" "a + n + 17 \<le> e" by (auto dest: tiles_le)
  show "apart a n (set xs \<union> set ys)"
    using tiles_bounds [OF t(1)] tiles_bounds [OF t(2)] by (fastforce simp: apart_def)
qed

lemma tiles_replace:
  assumes "tiles s (xs @ (a, n, h) # ys) e" "tiles a new (a + n + 17)"
  shows "tiles s (xs @ new @ ys) e"
  using tiles_mid [OF assms(1)] assms(2) by (auto simp: tiles_append)

lemma holes_simps [simp]:
  "holes [] = {}" "holes (xs @ ys) = holes xs \<union> holes ys"
  "holes ((a, n, h) # bs) = (if h then insert a (holes bs) else holes bs)"
  by (auto simp: holes_def)

lemma allocated_simps [simp]:
  "allocated [] = {}" "allocated (xs @ ys) = allocated xs \<union> allocated ys"
  "allocated ((a, n, h) # bs) = (if h then allocated bs else insert (a, n) (allocated bs))"
  by (auto simp: allocated_def)

lemma holes_subset: "holes bs \<subseteq> fst ` set bs"
  by (force simp: holes_def)

lemma allocated_iff: "(a, n) \<in> allocated bs \<longleftrightarrow> (a, n, False) \<in> set bs"
  by (simp add: allocated_def)

lemma apart_not_member: "apart a n C \<Longrightarrow> a \<le> x \<Longrightarrow> x < a + n + 17 \<Longrightarrow> x \<notin> fst ` C"
  by (auto simp: apart_def)

lemma apart_sub:
  assumes "apart a n C" "a \<le> b" "b + k \<le> a + n"
  shows "apart b k C"
  using assms by (fastforce simp: apart_def)

lemma apart_insert: "apart a n (insert (b, k, h) C) \<longleftrightarrow> (b + k + 17 \<le> a \<or> a + n + 17 \<le> b) \<and> apart a n C"
  by (simp add: apart_def)

lemma apart_subset: "apart a n C \<Longrightarrow> D \<subseteq> C \<Longrightarrow> apart a n D"
  by (auto simp: apart_def)

definition is_hole :: "block \<Rightarrow> bool" where [simp]: "is_hole b = snd (snd b)"

lemma coalesced_Cons:
  "coalesced (b # bs) \<longleftrightarrow> coalesced bs \<and> (bs = [] \<or> \<not> (is_hole b \<and> is_hole (hd bs)))"
proof (cases bs)
  case (Cons c cs)
  obtain a n h a' n' h' where "b = (a, n, h)" "c = (a', n', h')" by (cases b; cases c)
  with Cons show ?thesis by auto
qed (cases b, simp)

lemma coalesced_append:
  "coalesced (xs @ ys) \<longleftrightarrow> coalesced xs \<and> coalesced ys \<and>
     (xs = [] \<or> ys = [] \<or> \<not> (is_hole (last xs) \<and> is_hole (hd ys)))"
  by (induction xs) (auto simp: coalesced_Cons hd_append split: if_splits)

lemma tiles_unique:
  assumes "tiles s bs e" "(a, n, h) \<in> set bs" "(a, k, g) \<in> set bs"
  shows "k = n \<and> g = h"
proof -
  obtain xs ys where b: "bs = xs @ (a, n, h) # ys" using split_list [OF assms(2)] by blast
  note t = tiles_mid [OF assms(1) [unfolded b]]
  have "(a, k, g) \<notin> set xs \<union> set ys"
    using apart_not_member [OF t(6), of a] by force
  then show ?thesis using assms(3) b by simp
qed

text \<open>The heap: its blocks fill it, no two holes touch, and the index holds the holes.\<close>

definition heap_ok :: "block list \<Rightarrow> 'a kheap_state_scheme \<Rightarrow> bool" where
  "heap_ok bs s \<longleftrightarrow> heap_rep (set bs) (holes bs) s \<and> coalesced bs \<and>
     tiles (unat (kh_start_address (kheap s))) bs (unat (kh_end_address (kheap s)))"

lemma heap_okD:
  assumes "heap_ok bs s"
  shows "heap_rep (set bs) (holes bs) s" "coalesced bs"
    "tiles (unat (kh_start_address (kheap s))) bs (unat (kh_end_address (kheap s)))"
    "geometry (kheap s)" "guarded (kheap s) (mem s)"
    "index_ok (kh_index (kheap s)) (mem s) (holes bs)"
    "unat (kh_end_address (kheap s)) \<le> 3758096384"
    "bs \<noteq> []"
proof -
  show a: "heap_rep (set bs) (holes bs) s" "coalesced bs"
    "tiles (unat (kh_start_address (kheap s))) bs (unat (kh_end_address (kheap s)))"
    using assms by (simp_all add: heap_ok_def)
  show g: "geometry (kheap s)" "guarded (kheap s) (mem s)" "index_ok (kh_index (kheap s)) (mem s) (holes bs)"
    using heap_repD [OF a(1)] blocks_repD by blast+
  show "unat (kh_end_address (kheap s)) \<le> 3758096384" by (rule geometry_bounds(1) [OF g(1)])
  show "bs \<noteq> []" using a(3) geometry_bounds(3) [OF g(1)] by auto
qed

lemma heap_ok_block:
  assumes "heap_ok bs s" "(a, n, h) \<in> set bs"
  shows "block_at (mem s) (a, n, h)" "unat (kh_start_address (kheap s)) \<le> a"
    "a + n + 17 \<le> unat (kh_end_address (kheap s))" "0 < n" "a + n + 17 \<le> 3758096384"
  using blocks_repD(3) [OF heap_repD(1) [OF heap_okD(1) [OF assms(1)]] assms(2)]
    tiles_bounds [OF heap_okD(3) [OF assms(1)] assms(2)] heap_okD(7) [OF assms(1)] by auto

text \<open>The header of a block as the code reads it.\<close>

lemma block_at_reads:
  assumes "block_at m (a, n, h)"
  shows "header_magic m (addr a) = KHEAP_MAGIC" "header_is_hole m (addr a) = (if h then 1 else 0)"
    "header_size m (addr a) = addr n" "footer_magic m (addr (a + 9 + n)) = KHEAP_MAGIC"
    "footer_header m (addr (a + 9 + n)) = addr a"
proof -
  have "addr (a + 9 + n) + 4 = addr (a + 13 + n)" by (simp add: addr_def)
  then show "footer_header m (addr (a + 9 + n)) = addr a"
    using assms by (simp add: footer_header_def del: addr_simps)
qed (use assms in \<open>simp_all add: header_magic_def header_is_hole_def header_size_def footer_magic_def\<close>)

end
