(* ===== verification/Kheap_alloc.thy ===== *)
theory Kheap_alloc
  imports Kheap_blocks
begin

text \<open>
  \<open>alloc\<close>: the search for a hole, the cutting of the chosen hole and the growth of the heap, as
  operations on the list of blocks, and the correctness and termination of the whole function.
\<close>

subsection \<open>Cutting a hole\<close>

lemma heap_rep_subset: "heap_rep B H s \<Longrightarrow> C \<subseteq> B \<Longrightarrow> H \<subseteq> fst ` C \<Longrightarrow> heap_rep C H s"
  unfolding heap_rep_def blocks_rep_def by blast

text \<open>What \<open>use_block\<close> makes of a block of \<open>n\<close> bytes when \<open>sz\<close> are wanted.\<close>

definition use_split :: "nat \<Rightarrow> nat \<Rightarrow> nat \<Rightarrow> block list" where
  "use_split a n sz = (if n - sz \<le> 17 then [(a, n, False)] else [(a, sz, False), (a + sz + 17, n - sz - 17, True)])"

lemma use_split_tiles: "0 < sz \<Longrightarrow> sz \<le> n \<Longrightarrow> tiles a (use_split a n sz) (a + n + 17)"
  by (auto simp: use_split_def)

lemma addr_zero [simp]: "addr 0 = 0"
  by (simp add: addr_def)

lemma use_block_ok:
  assumes rep: "heap_rep C H s" and C: "apart a n C"
    and a: "unat (kh_start_address (kheap s)) \<le> a" "a + n + 17 \<le> unat (kh_end_address (kheap s))"
    and sz: "0 < sz" "sz \<le> n" and room: "room (Suc k) s"
  shows "\<exists>s'. use_block (addr a) (addr n) (addr sz) s = Inr s' \<and>
    heap_rep (C \<union> set (use_split a n sz)) (H \<union> holes (use_split a n sz)) s' \<and>
    evolves (index_area (kheap s) \<union> {a..<a + n + 17}) s s' \<and> room k s'"
proof -
  note g = geometry_bounds [OF blocks_repD(1) [OF heap_repD(1) [OF rep]]]
  let ?W = "index_area (kheap s) \<union> {a..<a + n + 17}"
  have n: "n < 4294967296" "sz < 4294967296" using a g sz by auto
  have guard: "addr sz \<le> addr n" "addr n - addr sz = addr (n - sz)" using sz n by simp_all
  have rem: "addr (n - sz) \<le> 17 \<longleftrightarrow> n - sz \<le> 17"
    using n addr_le_iff [of "n - sz" 17] by (simp add: addr_def)
  show ?thesis
  proof (cases "n - sz \<le> 17")
    case True
    from write_block [OF rep order_refl heap_repD(2) [OF rep] C _ a, of False] sz obtain s' where w:
      "make_block (addr a) (addr n) 0 s = Inr (addr a, s')" "heap_rep (insert (a, n, False) C) H s'"
      "evolves (meta_area a n) s s'" "kheap s' = kheap s" by auto
    have "use_block (addr a) (addr n) (addr sz) s = Inr s'"
      using True by (simp add: use_block_def kheap_assert_def guard rem w(1) Let_def)
    moreover have "evolves ?W s s'" by (rule evolves_mono [OF w(3)]) (use meta_area_block in blast)
    ultimately show ?thesis
      using True w(2,4) room by (auto simp: use_split_def room_def)
  next
    case False
    then have big: "sz + 17 < n" by simp
    define b r where "b = a + sz + 17" and "r = n - sz - 17"
    have ap: "apart a sz C" "apart b r (insert (a, sz, False) C)"
      using C big apart_sub [OF C, of b r] apart_sub [OF C, of a sz] unfolding b_def r_def apart_insert by auto
    from write_block [OF rep order_refl heap_repD(2) [OF rep] ap(1) sz(1) a(1), of False] a(2) big obtain s1 where w:
      "make_block (addr a) (addr sz) 0 s = Inr (addr a, s1)" "heap_rep (insert (a, sz, False) C) H s1"
      "evolves (meta_area a sz) s s1" "kheap s1 = kheap s" by auto
    have H: "H \<subseteq> fst ` insert (a, sz, False) C" using heap_repD(2) [OF rep] by auto
    from write_block [OF w(2) order_refl H ap(2), of True] a big obtain s2 where v:
      "make_block (addr b) (addr r) 1 s1 = Inr (addr b, s2)"
      "heap_rep (insert (b, r, True) (insert (a, sz, False) C)) H s2"
      "evolves (meta_area b r) s1 s2" "kheap s2 = kheap s1" unfolding w(4) by (auto simp: b_def r_def)
    have "b \<notin> fst ` C" by (rule apart_not_member [OF C]) (use big in \<open>auto simp: b_def\<close>)
    then have bH: "b \<notin> H" using heap_repD(2) [OF rep] by blast
    have "room (Suc k) s2" using room v(4) w(4) by (simp add: room_def)
    from index_insert_step [OF v(2) _ bH this] obtain s' where i:
      "index_insert (addr b) s2 = (1, s')" "heap_rep (insert (b, r, True) (insert (a, sz, False) C)) (insert b H) s'"
      "evolves (index_area (kheap s2)) s2 s'" "room k s'" by auto
    have "17 < addr (n - sz)" "addr (n - sz) - 17 = addr r" "0 < addr (n - sz)"
      using False rem n by (auto simp: r_def not_le intro: order_le_less_trans [of _ 17])
    moreover have "addr a + 17 + addr sz = addr b" by (simp add: b_def ac_simps)
    ultimately have "use_block (addr a) (addr n) (addr sz) s = Inr s'"
      by (simp add: use_block_def kheap_assert_def guard w(1) v(1) i(1) Let_def not_le [symmetric])
    moreover have "evolves ?W s s'"
    proof (rule evolves_trans [OF evolves_trans])
      show "evolves ?W s s1" by (rule evolves_mono [OF w(3)]) (use big in \<open>auto simp: meta_area_def\<close>)
      show "evolves ?W s1 s2" by (rule evolves_mono [OF v(3)]) (use big in \<open>auto simp: meta_area_def b_def r_def\<close>)
      show "evolves ?W s2 s'" by (rule evolves_mono [OF i(3)]) (simp add: v(4) w(4))
    qed
    moreover have "C \<union> set (use_split a n sz) = insert (b, r, True) (insert (a, sz, False) C)"
      "H \<union> holes (use_split a n sz) = insert b H"
      using False by (auto simp: use_split_def b_def r_def)
    ultimately show ?thesis using i(2,4) by auto
  qed
qed

text \<open>The front of a hole that is cut off before a page-aligned payload at \<open>pos\<close>.\<close>

definition front_cut :: "nat \<Rightarrow> nat \<Rightarrow> block list" where
  "front_cut a pos = (if pos = a + 9 then [] else [(a, pos - a - 26, True)])"

lemma cut_front_ok:
  assumes rep: "heap_rep C H s" and C: "apart a n C"
    and a: "unat (kh_start_address (kheap s)) \<le> a" "a + n + 17 \<le> unat (kh_end_address (kheap s))"
    and pos: "if al \<noteq> 0 then a + 26 < pos else pos = a + 9" "pos < a + 9 + n" and room: "room (Suc k) s"
  shows "\<exists>s'. cut_front (addr pos) (addr a) (addr n) al s = Inr (addr (pos - 9), addr (a + 9 + n - pos), s') \<and>
    heap_rep (C \<union> set (front_cut a pos)) (H \<union> holes (front_cut a pos)) s' \<and>
    evolves (index_area (kheap s) \<union> {a..<a + n + 17}) s s' \<and>
    (\<forall>b j h. (b, j, h) \<in> set (front_cut a pos) \<longrightarrow> b + j + 17 \<le> pos - 9) \<and> room k s'"
proof (cases "al = 0")
  case True
  then show ?thesis using pos rep room by (auto simp: cut_front_def front_cut_def room_def)
next
  case False
  note g = geometry_bounds [OF blocks_repD(1) [OF heap_repD(1) [OF rep]]]
  let ?W = "index_area (kheap s) \<union> {a..<a + n + 17}"
  define c where "c = pos - a - 26"
  have p: "a + 26 < pos" "pos < 4294967296" "a < 4294967296" using False pos a g by auto
  have c: "0 < c" "a + c + 17 = pos - 9" "c + 17 = pos - 9 - a" using p by (auto simp: c_def)
  have ap: "apart a c C" by (rule apart_sub [OF C]) (use pos c in auto)
  have "a + c + 17 \<le> unat (kh_end_address (kheap s))" using a(2) c(2) pos(2) by simp
  from write_block [OF rep order_refl heap_repD(2) [OF rep] ap c(1) a(1) this, of True] obtain s1 where w:
    "make_block (addr a) (addr c) 1 s = Inr (addr a, s1)" "heap_rep (insert (a, c, True) C) H s1"
    "evolves (meta_area a c) s s1" "kheap s1 = kheap s" by auto
  have "a \<notin> fst ` C" by (rule apart_not_member [OF C]) auto
  then have aH: "a \<notin> H" using heap_repD(2) [OF rep] by blast
  have "room (Suc k) s1" using room w(4) by (simp add: room_def)
  from index_insert_step [OF w(2) _ aH this] obtain s' where i:
    "index_insert (addr a) s1 = (1, s')" "heap_rep (insert (a, c, True) C) (insert a H) s'"
    "evolves (index_area (kheap s1)) s1 s'" "room k s'" by auto
  have "addr a < addr (pos - 9)" using p by simp
  moreover have "17 < addr (c + 17)"
    using p c(1) addr_less_iff [of 17 "c + 17"] by (simp add: c_def addr_def del: addr_less_iff)
  moreover have "addr pos - 9 = addr (pos - 9)" "addr (pos - 9) - addr a = addr (c + 17)"
    "addr (c + 17) - 17 = addr c" "addr n - addr (c + 17) = addr (a + 9 + n - pos)"
    using p pos by (simp_all add: c_def ac_simps)
  ultimately have "cut_front (addr pos) (addr a) (addr n) al s = Inr (addr (pos - 9), addr (a + 9 + n - pos), s')"
    using False by (simp add: cut_front_def kheap_assert_def w(1) i(1) Let_def del: addr_simps addr_minus addr_minus_numeral)
  moreover have "evolves ?W s s'"
  proof (rule evolves_trans)
    show "evolves ?W s s1" by (rule evolves_mono [OF w(3)]) (use c pos in \<open>auto simp: meta_area_def\<close>)
    show "evolves ?W s1 s'" by (rule evolves_mono [OF i(3)]) (simp add: w(4))
  qed
  moreover have "front_cut a pos = [(a, c, True)]" using p by (simp add: front_cut_def c_def)
  ultimately show ?thesis using i(2,4) c by auto
qed

text \<open>The blocks that \<open>alloc\<close> leaves in the place of a hole.\<close>

definition cut_hole :: "nat \<Rightarrow> nat \<Rightarrow> nat \<Rightarrow> nat \<Rightarrow> block list" where
  "cut_hole a n pos sz = front_cut a pos @ use_split (pos - 9) (a + 9 + n - pos) sz"

text \<open>The payload at \<open>pos\<close> of \<open>sz\<close> bytes lies in the hole, page-aligned requests leave room for a hole in front.\<close>

definition placed :: "u8 \<Rightarrow> nat \<Rightarrow> nat \<Rightarrow> nat \<Rightarrow> nat \<Rightarrow> bool" where
  "placed al sz a n pos \<longleftrightarrow> (if al \<noteq> 0 then a + 26 < pos \<and> pos mod 4096 = 0 else pos = a + 9) \<and> pos + sz \<le> a + 9 + n"

lemma placed_pos: "placed al sz a n pos \<Longrightarrow> pos = a + 9 \<or> a + 26 < pos"
  by (auto simp: placed_def split: if_splits)

lemma cut_hole_tiles:
  assumes "placed al sz a n pos" "0 < sz"
  shows "tiles a (cut_hole a n pos sz) (a + n + 17)"
proof -
  have p: "pos = a + 9 \<or> a + 26 < pos" "pos + sz \<le> a + 9 + n"
    using placed_pos [OF assms(1)] assms(1) by (simp_all add: placed_def)
  then have "tiles a (front_cut a pos) (pos - 9)" by (auto simp: front_cut_def)
  moreover have "tiles (pos - 9) (use_split (pos - 9) (a + 9 + n - pos) sz) (pos - 9 + (a + 9 + n - pos) + 17)"
    using p assms(2) by (intro use_split_tiles) auto
  moreover have "pos - 9 + (a + 9 + n - pos) + 17 = a + n + 17" using p assms(2) by auto
  ultimately show ?thesis by (auto simp: cut_hole_def tiles_append)
qed

lemma cut_hole_allocated:
  assumes "placed al sz a n pos"
  obtains k where "allocated (cut_hole a n pos sz) = {(pos - 9, k)}" "sz \<le> k" "a \<le> pos - 9" "pos + k \<le> a + n + 9"
proof
  show "allocated (cut_hole a n pos sz) = {(pos - 9, if a + 9 + n - pos - sz \<le> 17 then a + 9 + n - pos else sz)}"
    by (auto simp: cut_hole_def front_cut_def use_split_def)
qed (use assms placed_pos [OF assms] in \<open>auto simp: placed_def\<close>)

lemma cut_hole_coalesced:
  assumes "coalesced (xs @ (a, n, True) # ys)"
  shows "coalesced (xs @ cut_hole a n pos sz @ ys)"
  using assms by (auto simp: cut_hole_def front_cut_def use_split_def coalesced_append coalesced_Cons)

lemma alloc_use_ok:
  assumes ok: "heap_ok (xs @ (a, n, True) # ys) s"
    and i: "i < oa_size (kh_index (kheap s))" "elems (kh_index (kheap s)) (mem s) ! unat i = addr a"
    and pos: "placed al sz a n pos" "0 < sz" and room: "room 1 s"
  shows "\<exists>s'. alloc_use i (addr pos) (addr sz) al s = Inr (addr pos, s') \<and>
    heap_ok (xs @ cut_hole a n pos sz @ ys) s' \<and> evolves (index_area (kheap s) \<union> {a..<a + n + 17}) s s'"
proof -
  let ?bs = "xs @ (a, n, True) # ys" and ?W = "index_area (kheap s) \<union> {a..<a + n + 17}"
  define C H where "C = set xs \<union> set ys" and "H = holes xs \<union> holes ys"
  note d = heap_okD [OF ok]
  have mem_bs: "(a, n, True) \<in> set ?bs" by simp
  note b = heap_ok_block [OF ok mem_bs]
  note t = tiles_mid [OF d(3), folded C_def]
  have H: "H \<subseteq> fst ` C" using holes_subset [of xs] holes_subset [of ys] by (auto simp: C_def H_def)
  have "a \<notin> fst ` C" by (rule apart_not_member [OF t(6)]) auto
  then have eq: "holes ?bs - {a} = H" "a \<in> holes ?bs" using H by (auto simp: H_def)
  have room1: "room (Suc 0) s" using room by simp
  from index_remove_step [OF d(1) i(1) eq(2) i(2) room1] obtain s1 where r:
    "index_remove i s = (1, s1)" "heap_rep (set ?bs) H s1" "evolves (index_area (kheap s)) s s1"
    "room (Suc (Suc 0)) s1" unfolding eq(1) by blast
  note K1 = evolves_fields [OF r(3)]
  have rep1: "heap_rep C H s1" by (rule heap_rep_subset [OF r(2) _ H]) (auto simp: C_def)
  have bd: "unat (kh_start_address (kheap s1)) \<le> a" "a + n + 17 \<le> unat (kh_end_address (kheap s1))"
    using b by (simp_all add: K1)
  have pp: "if al \<noteq> 0 then a + 26 < pos else pos = a + 9" "pos < a + 9 + n" "pos + sz \<le> a + 9 + n" "a \<le> pos - 9"
    using pos by (auto simp: placed_def split: if_splits)
  from cut_front_ok [OF rep1 t(6) bd pp(1,2) r(4)] obtain s2 where c:
    "cut_front (addr pos) (addr a) (addr n) al s1 = Inr (addr (pos - 9), addr (a + 9 + n - pos), s2)"
    "heap_rep (C \<union> set (front_cut a pos)) (H \<union> holes (front_cut a pos)) s2"
    "evolves (index_area (kheap s1) \<union> {a..<a + n + 17}) s1 s2"
    "\<forall>b j h. (b, j, h) \<in> set (front_cut a pos) \<longrightarrow> b + j + 17 \<le> pos - 9" "room (Suc 0) s2" by blast
  note K2 = evolves_fields [OF c(3)]
  have e: "pos - 9 + (a + 9 + n - pos) + 17 = a + n + 17"
    using pp pos(2) placed_pos [OF pos(1)] by auto
  have ap: "apart (pos - 9) (a + 9 + n - pos) (C \<union> set (front_cut a pos))"
  proof -
    have "apart (pos - 9) (a + 9 + n - pos) C" by (rule apart_sub [OF t(6)]) (use pp pos(2) placed_pos [OF pos(1)] in auto)
    then show ?thesis using c(4) by (auto simp: apart_def)
  qed
  have bd2: "unat (kh_start_address (kheap s2)) \<le> pos - 9"
    "pos - 9 + (a + 9 + n - pos) + 17 \<le> unat (kh_end_address (kheap s2))"
    unfolding e using b pp by (simp_all add: K1 K2)
  have "sz \<le> a + 9 + n - pos" using pp by simp
  from use_block_ok [OF c(2) ap bd2 pos(2) this c(5)] obtain s3 where u:
    "use_block (addr (pos - 9)) (addr (a + 9 + n - pos)) (addr sz) s2 = Inr s3"
    "heap_rep (C \<union> set (front_cut a pos) \<union> set (use_split (pos - 9) (a + 9 + n - pos) sz))
      (H \<union> holes (front_cut a pos) \<union> holes (use_split (pos - 9) (a + 9 + n - pos) sz)) s3"
    "evolves (index_area (kheap s2) \<union> {pos - 9..<a + n + 17}) s2 s3" unfolding e by blast
  have ev: "evolves ?W s s3"
  proof (rule evolves_trans [OF evolves_trans])
    show "evolves ?W s s1" by (rule evolves_mono [OF r(3)]) blast
    show "evolves ?W s1 s2" using c(3) by (simp add: K1)
    show "evolves ?W s2 s3" by (rule evolves_mono [OF u(3)]) (use pp in \<open>auto simp: K1 K2\<close>)
  qed
  have "set (xs @ cut_hole a n pos sz @ ys) = C \<union> set (front_cut a pos) \<union> set (use_split (pos - 9) (a + 9 + n - pos) sz)"
    "holes (xs @ cut_hole a n pos sz @ ys) =
      H \<union> holes (front_cut a pos) \<union> holes (use_split (pos - 9) (a + 9 + n - pos) sz)"
    by (auto simp: cut_hole_def C_def H_def)
  moreover have "tiles (unat (kh_start_address (kheap s))) (xs @ cut_hole a n pos sz @ ys) (unat (kh_end_address (kheap s)))"
    by (rule tiles_replace [OF d(3) cut_hole_tiles [OF pos]])
  ultimately have ok': "heap_ok (xs @ cut_hole a n pos sz @ ys) s3"
    using u(2) cut_hole_coalesced [OF d(2)] by (simp add: heap_ok_def evolves_fields [OF ev])
  note rd = block_at_reads [OF b(1)]
  have "ordered_array_get (kh_index (kheap s)) i (mem s) = addr a"
    using ordered_array_get_elems [OF i(1)] i(2) by simp
  then have "alloc_use i (addr pos) (addr sz) al s = Inr (addr pos, s3)"
    by (simp add: alloc_use_def kheap_assert_def Let_def rd r(1) c(1) u(1))
  with ok' ev show ?thesis by blast
qed

subsection \<open>The search for a hole\<close>

definition page_up :: "nat \<Rightarrow> nat" where
  "page_up n = (n + 4095) div 4096 * 4096"

lemma page_up_bounds: "n \<le> page_up n" "page_up n < n + 4096" "page_up n mod 4096 = 0"
proof -
  have "(n + 4095) div 4096 * 4096 + (n + 4095) mod 4096 = n + 4095" "(n + 4095) mod 4096 < 4096" by simp_all
  then show "n \<le> page_up n" "page_up n < n + 4096" unfolding page_up_def by linarith+
qed (simp add: page_up_def)

lemma page_up_unique:
  assumes "n \<le> p" "p < n + 4096" "p mod 4096 = 0"
  shows "page_up n = p"
proof -
  obtain k where p: "p = 4096 * k" using assms(3) by auto
  have "(n + 4095) div 4096 = k" using assms(1,2) by (intro div_nat_eqI) (simp_all add: p)
  then show ?thesis by (simp add: page_up_def p)
qed

lemma page_mask:
  "w AND 0xFFF = 0 \<longleftrightarrow> unat w mod 4096 = 0"
  "unat (w AND 0xFFFFF000 :: u32) = unat w - unat w mod 4096"
proof -
  show "w AND 0xFFF = 0 \<longleftrightarrow> unat w mod 4096 = 0"
    by (simp add: word_unat_eq_iff unat_and_masks)
  have m: "(0xFFFFF000 :: u32) = NOT 0xFFF" by simp
  have "(w AND 0xFFF) AND (w AND 0xFFFFF000) = 0" "(w AND 0xFFF) OR (w AND 0xFFFFF000) = w"
    unfolding m by (auto intro!: bit_word_eqI simp: bit_simps)
  then have "(w AND 0xFFF) + (w AND 0xFFFFF000) = w" by (simp add: disjunctive_add_eq_or)
  then have "w AND 0xFFFFF000 = w - (w AND 0xFFF)" by (metis add_diff_cancel_left')
  then show "unat (w AND 0xFFFFF000) = unat w - unat w mod 4096"
    by (simp add: unat_sub_u32 unat_and_masks)
qed

lemma align_to_page_addr:
  assumes "n + 4096 \<le> 4294967296"
  shows "align_to_page (addr n) = addr (page_up n)"
proof (cases "n mod 4096 = 0")
  case True
  then show ?thesis
    using assms page_up_unique [of n n] by (simp add: align_to_page_def page_mask)
next
  case False
  define w where "w = (addr n AND 0xFFFFF000) + 4096"
  have "unat (addr n AND 0xFFFFF000) = n - n mod 4096" using assms by (simp add: page_mask)
  moreover have "n - n mod 4096 + 4096 < 4294967296"
    using assms False mod_less_eq_dividend [of n 4096] by linarith
  ultimately have "unat w = n - n mod 4096 + 4096" unfolding w_def by (subst unat_add_u32) simp_all
  moreover have "page_up n = n - n mod 4096 + 4096"
  proof (rule page_up_unique)
    show "n \<le> n - n mod 4096 + 4096" by (simp add: less_imp_le trans_le_add2)
    show "n - n mod 4096 + 4096 < n + 4096" using False by simp
    show "(n - n mod 4096 + 4096) mod 4096 = 0" by (simp add: minus_mod_eq_mult_div)
  qed
  ultimately have "w = addr (page_up n)" by (metis addr_simps(3))
  then show ?thesis using False assms by (simp add: align_to_page_def page_mask w_def PAGE_SIZE_def)
qed

text \<open>
  Where a request of \<open>sz\<close> bytes fits into the hole of \<open>n\<close> bytes at \<open>a\<close>: at its start, or, for a
  page-aligned request, at the first page boundary that leaves room for a hole in front.
\<close>

definition fit :: "u8 \<Rightarrow> nat \<Rightarrow> nat \<Rightarrow> nat \<Rightarrow> nat option" where
  "fit al sz a n =
     (if al \<noteq> 0 then let pos = page_up (a + 27) in if pos + sz \<le> a + 9 + n then Some pos else None
      else if sz \<le> n then Some (a + 9) else None)"

lemma fit_placed: "fit al sz a n = Some pos \<Longrightarrow> placed al sz a n pos"
  using page_up_bounds [of "a + 27"] by (auto simp: fit_def placed_def Let_def split: if_splits)

lemma aligned_fit_addr:
  assumes b: "e + sz + 8192 \<le> 4294967296" "st \<le> e"
  shows "aligned_fit (addr st) (addr sz) (addr e) (align_to_page (addr st)) =
    (if page_up (st + 18) + sz \<le> e then Some (addr (page_up (st + 18))) else None)"
proof -
  define p where "p = page_up st"
  have p: "st \<le> p" "p < st + 4096" "p mod 4096 = 0" using page_up_bounds [of st] by (simp_all add: p_def)
  have al: "align_to_page (addr st) = addr p" using b unfolding p_def by (intro align_to_page_addr) simp
  note unf = aligned_fit.simps [of "addr st" "addr sz" "addr e"]
  show ?thesis
  proof (cases "17 < p - st")
    case True
    have "page_up (st + 18) = p" by (rule page_up_unique) (use True p in auto)
    moreover have "17 < addr (p - st)" using True p b addr_less_iff [of 17 "p - st"] by (simp add: addr_def del: addr_less_iff)
    ultimately show ?thesis
      using p b unfolding al by (subst unf) simp
  next
    case False
    have q: "page_up (st + 18) = p + 4096" by (rule page_up_unique) (use False p in auto)
    have "17 < addr (p + 4096 - st)" using p b addr_less_iff [of 17 "p + 4096 - st"] by (simp add: addr_def del: addr_less_iff)
    moreover have "\<not> 17 < addr (p - st)" using False p b addr_less_iff [of 17 "p - st"] by (simp add: addr_def del: addr_less_iff)
    ultimately show ?thesis
      using p b unfolding al q by (subst unf, subst unf) (auto simp: PAGE_SIZE_def)
  qed
qed

text \<open>The test of one hole in \<open>find_hole\<close>; the function returns the first hole that passes it.\<close>

definition hole_fit :: "u8 \<Rightarrow> u32 \<Rightarrow> ram \<Rightarrow> u32 \<Rightarrow> u32 option" where
  "hole_fit al sz m header =
     (if al \<noteq> 0 then aligned_fit (header + 9) sz (header + 9 + header_size m header) (align_to_page (header + 9))
      else if sz \<le> header_size m header then Some (header + 9) else None)"

lemma le_iff_Suc_u32: "i < (n :: u32) \<Longrightarrow> i \<le> k \<longleftrightarrow> k = i \<or> i + 1 \<le> k"
  using unat_inc_u32 [of i n] by (auto simp: word_le_nat_alt word_unat_eq_iff)

lemma find_hole_from_first:
  "case find_hole_from K m sz al i of
     None \<Rightarrow> \<forall>j. i \<le> j \<longrightarrow> j < oa_size (kh_index K) \<longrightarrow> hole_fit al sz m (ordered_array_get (kh_index K) j m) = None
   | Some (j, p) \<Rightarrow> i \<le> j \<and> j < oa_size (kh_index K) \<and>
       hole_fit al sz m (ordered_array_get (kh_index K) j m) = Some p \<and>
       (\<forall>k. i \<le> k \<longrightarrow> k < j \<longrightarrow> hole_fit al sz m (ordered_array_get (kh_index K) k m) = None)"
proof (induction K m sz al i rule: find_hole_from.induct)
  case (1 K m sz al i)
  let ?h = "ordered_array_get (kh_index K) i m"
  show ?case
  proof (cases "i < oa_size (kh_index K)")
    case lt: True
    show ?thesis
    proof (cases "hole_fit al sz m ?h")
      case None
      have step: "find_hole_from K m sz al i = find_hole_from K m sz al (i + 1)"
        using lt None by (subst find_hole_from.simps) (simp add: hole_fit_def Let_def split: if_splits)
      have IH: "case find_hole_from K m sz al (i + 1) of
         None \<Rightarrow> \<forall>j. i + 1 \<le> j \<longrightarrow> j < oa_size (kh_index K) \<longrightarrow> hole_fit al sz m (ordered_array_get (kh_index K) j m) = None
       | Some (j, p) \<Rightarrow> i + 1 \<le> j \<and> j < oa_size (kh_index K) \<and>
           hole_fit al sz m (ordered_array_get (kh_index K) j m) = Some p \<and>
           (\<forall>k. i + 1 \<le> k \<longrightarrow> k < j \<longrightarrow> hole_fit al sz m (ordered_array_get (kh_index K) k m) = None)"
        using 1 [OF lt refl refl] None by (cases "al = 0") (simp_all add: hole_fit_def split: if_splits)
      then show ?thesis
        unfolding step using None le_iff_Suc_u32 [OF lt] by (auto split: option.splits)
    next
      case (Some p)
      then have "find_hole_from K m sz al i = Some (i, p)"
        using lt by (subst find_hole_from.simps) (simp add: hole_fit_def Let_def split: if_splits)
      then show ?thesis using lt Some by auto
    qed
  next
    case False
    then have "find_hole_from K m sz al i = None" by (subst find_hole_from.simps) simp
    then show ?thesis using False by auto
  qed
qed

lemma hole_fit_block:
  assumes "block_at m (a, n, h)" "a + n + 17 \<le> 3758096384" "sz \<le> 0x1F380000"
  shows "hole_fit al (addr sz) m (addr a) = map_option addr (fit al sz a n)"
proof -
  have sum: "addr (a + 9) + addr n = addr (a + 9 + n)" "a + 9 + 18 = a + 27" by simp_all
  have "a + 9 + n + sz + 8192 \<le> 4294967296" "a + 9 \<le> a + 9 + n" using assms(2,3) by simp_all
  from aligned_fit_addr [OF this, unfolded sum(2)] show ?thesis
    using assms unfolding hole_fit_def fit_def block_at_reads(3) [OF assms(1)] addr_simps(1) sum(1)
    by (simp add: Let_def del: block_at.simps)
qed

lemma ascending_nth_mono:
  "by_size.ascending m xs \<Longrightarrow> i \<le> j \<Longrightarrow> j < length xs \<Longrightarrow> header_size m (xs ! i) \<le> header_size m (xs ! j)"
  unfolding by_size.ascending_def using sorted_nth_mono [of "map (header_size m) xs" i j] by simp

lemma find_hole_ok:
  assumes ok: "heap_ok bs s" and sz: "sz \<le> 0x1F380000"
  shows "case find_hole (addr sz) al s of
      None \<Rightarrow> \<forall>a n. (a, n, True) \<in> set bs \<longrightarrow> fit al sz a n = None
    | Some (i, p) \<Rightarrow> \<exists>a n pos. (a, n, True) \<in> set bs \<and> i < oa_size (kh_index (kheap s)) \<and>
        elems (kh_index (kheap s)) (mem s) ! unat i = addr a \<and> p = addr pos \<and> fit al sz a n = Some pos \<and>
        (\<forall>b k. (b, k, True) \<in> set bs \<longrightarrow> fit al sz b k \<noteq> None \<longrightarrow> n \<le> k)"
proof -
  define ix m where "ix = kh_index (kheap s)" and "m = mem s"
  have ix: "set (elems ix m) = addr ` holes bs" "by_size.ascending m (elems ix m)"
    using heap_okD(6) [OF ok] by (simp_all add: index_ok_def ix_def m_def)
  have fitb: "hole_fit al (addr sz) m (addr a) = map_option addr (fit al sz a n)" "header_size m (addr a) = addr n"
    "n < 4294967296" if "(a, n, True) \<in> set bs" for a n
    using heap_ok_block [OF ok that] hole_fit_block [OF _ _ sz, of m a n True] block_at_reads(3) [of m a n True]
    unfolding m_def by (simp_all del: block_at.simps)
  have pos: "\<exists>j. j < oa_size ix \<and> elems ix m ! unat j = addr a" if "(a, n, True) \<in> set bs" for a n
  proof -
    have "addr a \<in> set (elems ix m)" using that ix(1) by (auto simp: holes_def)
    then obtain j where j: "j < unat (oa_size ix)" "elems ix m ! j = addr a" by (auto simp: in_set_conv_nth)
    then have "unat (addr j) = j" using unat_u32_bound [of "oa_size ix"] by simp
    with j show ?thesis by (intro exI [of _ "addr j"]) (simp add: word_less_nat_alt)
  qed
  note first = find_hole_from_first [where K = "kheap s" and m = m and sz = "addr sz" and al = al and i = 0, folded ix_def]
  have get: "ordered_array_get ix j m = elems ix m ! unat j" if "j < oa_size ix" for j
    by (rule ordered_array_get_elems [OF that])
  show ?thesis
  proof (cases "find_hole (addr sz) al s")
    case None
    then have all: "hole_fit al (addr sz) m (ordered_array_get ix j m) = None" if "j < oa_size ix" for j
      using first that by (simp add: find_hole_def m_def)
    have "fit al sz a n = None" if b: "(a, n, True) \<in> set bs" for a n
    proof -
      obtain j where j: "j < oa_size ix" "elems ix m ! unat j = addr a" using pos [OF b] by blast
      from all [OF j(1)] show ?thesis using get [OF j(1)] j(2) fitb(1) [OF b] by simp
    qed
    then show ?thesis using None by simp
  next
    case (Some r)
    obtain i p where r: "r = (i, p)" by (cases r)
    have i: "i < oa_size ix" "hole_fit al (addr sz) m (ordered_array_get ix i m) = Some p"
      "\<And>k. k < i \<Longrightarrow> hole_fit al (addr sz) m (ordered_array_get ix k m) = None"
      using first Some r by (simp_all add: find_hole_def m_def)
    have iu: "unat i < length (elems ix m)" using i(1) by (simp add: word_less_nat_alt)
    then have "elems ix m ! unat i \<in> addr ` holes bs" using ix(1) nth_mem by blast
    then obtain a n where b: "(a, n, True) \<in> set bs" "elems ix m ! unat i = addr a" by (auto simp: holes_def)
    then obtain p' where p': "fit al sz a n = Some p'" "p = addr p'"
      using get [OF i(1)] i(2) fitb(1) [OF b(1)] by auto
    have "n \<le> k" if c: "(c, k, True) \<in> set bs" "fit al sz c k \<noteq> None" for c k
    proof -
      obtain j where j: "j < oa_size ix" "elems ix m ! unat j = addr c" using pos [OF c(1)] by blast
      then have "\<not> j < i" using i(3) [of j] get [OF j(1)] j(2) fitb(1) [OF c(1)] c(2) by auto
      then have "unat i \<le> unat j" "unat j < length (elems ix m)" using j(1) by (simp_all add: word_less_nat_alt)
      then have "header_size m (elems ix m ! unat i) \<le> header_size m (elems ix m ! unat j)"
        by (rule ascending_nth_mono [OF ix(2)])
      then show ?thesis using b(2) j(2) fitb(2,3) [OF b(1)] fitb(2,3) [OF c(1)] by simp
    qed
    then show ?thesis using Some r b p' i(1) by (auto simp: ix_def m_def)
  qed
qed

subsection \<open>Growth\<close>

text \<open>What an operation changes of the heap, the size of the heap included.\<close>

definition heap_moves :: "nat set \<Rightarrow> 'a kheap_state_scheme \<Rightarrow> 'a kheap_state_scheme \<Rightarrow> bool" where
  "heap_moves W s s' \<longleftrightarrow> only_in W (mem s) (mem s') \<and> kheap_lock s' = kheap_lock s \<and>
     kh_start_address (kheap s') = kh_start_address (kheap s) \<and> kh_max_address (kheap s') = kh_max_address (kheap s) \<and>
     kh_end_address (kheap s) \<le> kh_end_address (kheap s') \<and> index_area (kheap s') = index_area (kheap s) \<and>
     oa_max_size (kh_index (kheap s')) = oa_max_size (kh_index (kheap s))"

lemma evolves_mem: "evolves W s s' \<Longrightarrow> only_in W (mem s) (mem s')"
  and evolves_lock: "evolves W s s' \<Longrightarrow> kheap_lock s' = kheap_lock s"
  by (simp_all only: evolves_def)

lemma evolves_moves: "evolves W s s' \<Longrightarrow> heap_moves W s s'"
  unfolding heap_moves_def using evolves_fields [of W s s'] by (auto simp: evolves_mem evolves_lock)

lemma heap_moves_refl [simp]: "heap_moves W s s"
  by (simp add: heap_moves_def)

lemma heap_moves_trans: "heap_moves W s s' \<Longrightarrow> heap_moves W s' s'' \<Longrightarrow> heap_moves W s s''"
  using only_in_trans by (auto simp: heap_moves_def)

lemma heap_moves_mono: "heap_moves W s s' \<Longrightarrow> W \<subseteq> W' \<Longrightarrow> heap_moves W' s s'"
  by (auto simp: heap_moves_def intro: only_in_mono)

lemma heap_in_more:
  "kheap s = kheap (vga_state.extend v (vga_state.more s))"
  "kheap_lock s = kheap_lock (vga_state.extend v (vga_state.more s))"
  by (cases s; simp add: vga_state.defs)+

lemma same_more_heap:
  assumes "vga_state.more t = vga_state.more s"
  shows "kheap t = kheap s" "kheap_lock t = kheap_lock s"
  unfolding heap_in_more [where s = s and v = undefined] heap_in_more [where s = t and v = undefined] assms
  by (rule refl)+

lemma printk_heap [simp]:
  "kheap (printk fmt args s) = kheap s" "kheap_lock (printk fmt args s) = kheap_lock s"
  by (rule same_more_heap, rule printk_simps)+

lemma kheap_expand_ok:
  assumes g: "geometry (kheap s)" and x: "0 < x" "x \<le> 0x1F380000 + 17"
  defines "e \<equiv> unat (kh_end_address (kheap s))"
  shows "unat (kh_max_address (kheap s)) < e + page_up x \<Longrightarrow> isl (kheap_expand (addr x) s)"
    "e + page_up x \<le> unat (kh_max_address (kheap s)) \<Longrightarrow>
      \<exists>s'. kheap_expand (addr x) s = Inr (addr (page_up x), s') \<and> mem s' = mem s \<and> kheap_lock s' = kheap_lock s \<and>
        kheap s' = (kheap s)\<lparr>kh_end_address := addr (e + page_up x), kh_size := kh_size (kheap s) + addr (page_up x)\<rparr>"
proof -
  define s1 where "s1 = printk ''kheap expand size = %d, end_address = %p, max_address = %p \<newline>''
    [Word (addr x), Word (kh_end_address (kheap s)), Word (kh_max_address (kheap s))] s"
  have e: "kh_end_address (kheap s) = addr e" "e \<le> 3758096384"
    using geometry_bounds(1) [OF g] by (simp_all add: e_def)
  have p: "x \<le> page_up x" "page_up x < x + 4096" by (rule page_up_bounds)+
  have al: "align_to_page (addr x) = addr (page_up x)" by (rule align_to_page_addr) (use x in simp)
  have ne: "\<not> addr (page_up x) \<le> 0" using p x addr_le_iff [of "page_up x" 0] by simp
  have le: "addr (e + page_up x) \<le> kh_max_address (kheap s) \<longleftrightarrow> e + page_up x \<le> unat (kh_max_address (kheap s))"
    using p x e by (simp add: word_le_nat_alt)
  have s1: "kheap s1 = kheap s" "kheap_lock s1 = kheap_lock s" "mem s1 = mem s" by (simp_all add: s1_def)
  have sum: "addr e + addr (page_up x) = addr (e + page_up x)" by simp
  have run: "kheap_expand (addr x) s =
    seq_bind (kheap_assert (e + page_up x \<le> unat (kh_max_address (kheap s))) ''kheap_expand'' 36 s1)
      (\<lambda>s. Inr (addr (page_up x), s\<lparr>kheap := (kheap s)\<lparr>kh_end_address := addr (e + page_up x),
         kh_size := kh_size (kheap s) + addr (page_up x)\<rparr>\<rparr>))"
    unfolding kheap_expand_def s1_def [symmetric] al Let_def using ne
    by (simp only: s1 e(1) sum le [unfolded e(1)] if_False cong: if_cong)
  show "isl (kheap_expand (addr x) s)" if "unat (kh_max_address (kheap s)) < e + page_up x"
    unfolding run kheap_assert_def ASSERT_def using that kernel_panic_isl by (simp add: seq_bind_def split: sum.split)
  show "\<exists>s'. kheap_expand (addr x) s = Inr (addr (page_up x), s') \<and> mem s' = mem s \<and> kheap_lock s' = kheap_lock s \<and>
        kheap s' = (kheap s)\<lparr>kh_end_address := addr (e + page_up x), kh_size := kh_size (kheap s) + addr (page_up x)\<rparr>"
    if "e + page_up x \<le> unat (kh_max_address (kheap s))"
    unfolding run using that by (simp add: kheap_assert_def s1)
qed

lemma heap_expanded:
  assumes rep: "heap_rep B H s" and ext: "ext mod 4096 = 0"
    "unat (kh_end_address (kheap s)) + ext \<le> unat (kh_max_address (kheap s))"
    and s1: "mem s1 = mem s" "kheap s1 = (kheap s)\<lparr>kh_end_address := addr (unat (kh_end_address (kheap s)) + ext),
      kh_size := kh_size (kheap s) + addr ext\<rparr>"
  shows "heap_rep B H s1" "unat (kh_end_address (kheap s1)) = unat (kh_end_address (kheap s)) + ext"
proof -
  define e where "e = unat (kh_end_address (kheap s))"
  note d = heap_repD [OF rep] and g = blocks_repD [OF heap_repD(1) [OF rep]]
  have e: "e mod 4096 = 0" "e + ext < 4294967296" "unat (kh_start_address (kheap s)) < e"
    and sz: "unat (kh_size (kheap s)) = e - unat (kh_start_address (kheap s))"
    using g(1) ext unfolding geometry_def e_def by linarith+
  have end1: "unat (addr (e + ext)) = e + ext" using e by simp
  then show "unat (kh_end_address (kheap s1)) = unat (kh_end_address (kheap s)) + ext" by (simp add: s1 e_def)
  have "unat (kh_size (kheap s) + addr ext) = e + ext - unat (kh_start_address (kheap s))"
    using e sz by (subst unat_add_u32) simp_all
  then have "geometry (kheap s1)"
    using g(1) ext e end1 unfolding geometry_def s1 by (auto simp: e_def mod_add_eq [of e 4096 ext, symmetric])
  moreover have "guarded (kheap s1) (mem s1)"
    using g(2) e end1 unfolding guarded_def s1 by (simp add: e_def)
  ultimately show "heap_rep B H s1"
    using rep end1 unfolding heap_rep_def blocks_rep_def s1 by (fastforce simp: e_def)
qed

text \<open>The list of blocks after an expansion of \<open>ext\<close> bytes at the old end \<open>e\<close>.\<close>

definition grow :: "block list \<Rightarrow> nat \<Rightarrow> nat \<Rightarrow> block list" where
  "grow bs e ext = (case last bs of (a, n, h) \<Rightarrow>
     if h then butlast bs @ [(a, n + ext, True)] else bs @ [(e, ext - 17, True)])"

lemma grow_simps [simp]:
  "grow (xs @ [(a, n, True)]) e ext = xs @ [(a, n + ext, True)]"
  "grow (xs @ [(a, n, False)]) e ext = xs @ [(a, n, False), (e, ext - 17, True)]"
  by (simp_all add: grow_def)

text \<open>The extents of the allocated blocks, and the memory that an allocation may write.\<close>

definition taken :: "block list \<Rightarrow> nat set" where
  "taken bs = (\<Union>(a, n) \<in> allocated bs. {a..<a + n + 17})"

definition work_area :: "block list \<Rightarrow> kheap_t \<Rightarrow> nat set" where
  "work_area bs K = index_area K \<union> ({unat (kh_start_address K)..<unat (kh_max_address K)} - taken bs)"

lemma taken_append [simp]: "taken (xs @ ys) = taken xs \<union> taken ys"
  by (simp add: taken_def)

lemma taken_simps [simp]:
  "taken [] = {}"
  "taken ((a, n, h) # bs) = (if h then taken bs else {a..<a + n + 17} \<union> taken bs)"
  by (auto simp: taken_def)

lemma taken_tiles: "tiles s bs e \<Longrightarrow> taken bs \<subseteq> {s..<e}"
  using tiles_bounds [of s bs e] by (fastforce simp: taken_def allocated_iff)

lemma work_area_hole:
  assumes "tiles s (xs @ (a, n, True) # ys) e" "e \<le> unat (kh_max_address K)" "unat (kh_start_address K) = s"
  shows "index_area K \<union> {a..<a + n + 17} \<subseteq> work_area (xs @ (a, n, True) # ys) K"
proof -
  note t = tiles_mid [OF assms(1)]
  show ?thesis using taken_tiles [OF t(1)] taken_tiles [OF t(2)] t(4,5) assms(2,3)
    by (fastforce simp: work_area_def)
qed

lemma heap_moves_end:
  "heap_moves W s s' \<Longrightarrow> work_area bs (kheap s') = work_area bs (kheap s)"
  by (simp add: heap_moves_def work_area_def)

lemma alloc_grow_panics:
  assumes "heap_ok bs s" "0 < sz" "sz \<le> 0x1F380000"
    "unat (kh_max_address (kheap s)) < unat (kh_end_address (kheap s)) + page_up (sz + 17)"
  shows "isl (alloc_grow (addr sz) s)"
proof -
  have "isl (kheap_expand (addr (sz + 17)) s)"
    using kheap_expand_ok(1) [OF heap_okD(4) [OF assms(1)], of "sz + 17"] assms(2-4) by simp
  then show ?thesis by (auto simp: alloc_grow_def Let_def isl_def)
qed

lemma alloc_grow_ok:
  assumes ok: "heap_ok bs s" and sz: "0 < sz" "sz \<le> 0x1F380000" and room: "room k s"
    and k: "if is_hole (last bs) then k = j else k = Suc j"
  defines "e \<equiv> unat (kh_end_address (kheap s))" and "ext \<equiv> page_up (sz + 17)"
  assumes fits: "e + ext \<le> unat (kh_max_address (kheap s))"
  shows "\<exists>s'. alloc_grow (addr sz) s = Inr s' \<and> heap_ok (grow bs e ext) s' \<and>
    heap_moves (work_area bs (kheap s)) s s' \<and> room j s' \<and> unat (kh_end_address (kheap s')) = e + ext"
proof -
  define S M where "S = unat (kh_start_address (kheap s))" and "M = unat (kh_max_address (kheap s))"
  note d = heap_okD [OF ok]
  have ext: "sz + 17 \<le> ext" "ext mod 4096 = 0" using page_up_bounds [of "sz + 17"] by (simp_all add: ext_def)
  have e: "e \<le> 3758096384" "S < e" "M \<le> 3758096384" "kh_end_address (kheap s) = addr e"
    using d(7) geometry_bounds(3) [OF d(4)] d(4) by (simp_all add: e_def S_def M_def geometry_def)
  obtain s1 where x: "kheap_expand (addr (sz + 17)) s = Inr (addr ext, s1)" "mem s1 = mem s" "kheap_lock s1 = kheap_lock s"
    "kheap s1 = (kheap s)\<lparr>kh_end_address := addr (e + ext), kh_size := kh_size (kheap s) + addr ext\<rparr>"
    using kheap_expand_ok(2) [OF d(4), of "sz + 17"] sz fits unfolding e_def ext_def by auto
  note h1 = heap_expanded [OF d(1) ext(2) _ x(2) x(4) [unfolded e_def], folded e_def, OF fits]
  have m1: "heap_moves (work_area bs (kheap s)) s s1"
    using x h1(2) e fits by (simp add: heap_moves_def index_area_def word_le_nat_alt M_def)
  have room1: "room k s1" using room x(4) by (simp add: room_def)
  have W1: "work_area bs (kheap s1) = work_area bs (kheap s)" by (rule heap_moves_end [OF m1])
  obtain xs a n h where bs: "bs = xs @ [(a, n, h)]"
    using d(8) by (metis rev_exhaust prod_cases3)
  note t = tiles_mid [of _ xs a n h "[]", OF d(3) [unfolded bs]]
  have an: "a + n + 17 = e" using t(2) by (simp add: e_def)
  have mem_bs: "(a, n, h) \<in> set bs" by (simp add: bs)
  note b = heap_ok_block [OF ok mem_bs] and rd = block_at_reads [OF heap_ok_block(1) [OF ok mem_bs], folded x(2)]
  have f8: "addr e - 8 = addr (a + 9 + n)" using an e by (simp add: ac_simps)
  have hl: "footer_header (mem s1) (addr e - 8) = addr a" unfolding f8 by (rule rd(5))
  have start1: "unat (kh_start_address (kheap s1)) = S" "unat (kh_max_address (kheap s1)) = M"
    by (simp_all add: x(4) S_def M_def)
  have tk: "taken xs \<subseteq> {..<a}" using taken_tiles [OF t(1)] by auto
  show ?thesis
  proof (cases h)
    case True
    have ap: "apart a (n + ext) (set xs)" using tiles_bounds [OF t(1)] by (fastforce simp: apart_def)
    have C: "holes bs - {a} \<subseteq> fst ` set xs" using holes_subset [of xs] by (auto simp: bs True)
    have aH: "a \<in> holes bs" by (simp add: bs True)
    have bd: "0 < n + ext" "unat (kh_start_address (kheap s1)) \<le> a" "a + (n + ext) + 17 \<le> unat (kh_end_address (kheap s1))"
      using b an by (simp_all add: start1 S_def h1(2))
    from merge_step [OF h1(1) aH _ C ap bd room1] obtain s2 s3 where m:
      "make_block (addr a) (addr (n + ext)) 1 s1 = Inr (addr a, s2)" "index_remove_element (addr a) s2 = (1, s3)"
      "heap_rep (insert (a, n + ext, True) (set xs)) (holes bs - {a}) s3"
      "evolves (index_area (kheap s1) \<union> meta_area a (n + ext)) s1 s3" "room (Suc k) s3" by (auto simp: bs)
    note K3 = evolves_fields [OF m(4)]
    from index_insert_step [OF m(3) _ _ m(5), of a] obtain s4 where i:
      "index_insert (addr a) s3 = (1, s4)" "heap_rep (insert (a, n + ext, True) (set xs)) (insert a (holes bs - {a})) s4"
      "evolves (index_area (kheap s3)) s3 s4" "room k s4" by auto
    note K4 = evolves_fields [OF i(3)]
    have "index_area (kheap s1) \<union> meta_area a (n + ext) \<subseteq> work_area bs (kheap s1)"
      using tk an fits b(2) unfolding work_area_def start1 by (fastforce simp: meta_area_def bs True M_def S_def)
    then have mv: "heap_moves (work_area bs (kheap s)) s1 s3" "heap_moves (work_area bs (kheap s)) s3 s4"
      using evolves_moves [OF evolves_mono [OF m(4)]] evolves_moves [OF evolves_mono [OF i(3)]]
      by (simp_all add: W1 K3)
    have "alloc_grow (addr sz) s = Inr s4"
      using rd(2,3) True by (simp add: alloc_grow_def kheap_assert_def e(4) x(1) hl m(1,2) i(1) Let_def)
    moreover have "heap_ok (grow bs e ext) s4"
      unfolding heap_ok_def
    proof (intro conjI)
      have "insert a (holes bs - {a}) = insert a (holes bs)" by blast
      then show "heap_rep (set (grow bs e ext)) (holes (grow bs e ext)) s4" using i(2) by (simp add: bs True)
      show "coalesced (grow bs e ext)" using d(2) by (auto simp: bs True coalesced_append)
      have "tiles S xs a" using t(1) by (simp add: S_def)
      then show "tiles (unat (kh_start_address (kheap s4))) (grow bs e ext) (unat (kh_end_address (kheap s4)))"
        using an t(3) by (auto simp: bs True tiles_append K4 K3 h1(2) start1)
    qed
    moreover have "room j s4" using i(4) k by (simp add: bs True)
    ultimately show ?thesis
      using heap_moves_trans [OF m1 heap_moves_trans [OF mv]] by (auto simp: K4 K3 h1(2))
  next
    case False
    have ap: "apart e (ext - 17) (set bs)" using tiles_bounds [OF d(3)] by (fastforce simp: apart_def e_def)
    have bd: "0 < ext - 17" "unat (kh_start_address (kheap s1)) \<le> e" "e + (ext - 17) + 17 \<le> unat (kh_end_address (kheap s1))"
      using ext(1) sz e by (simp_all add: start1 h1(2))
    from write_block [OF h1(1) order_refl holes_subset ap bd, of True] obtain s2 where w:
      "make_block (addr e) (addr (ext - 17)) 1 s1 = Inr (addr e, s2)"
      "heap_rep (insert (e, ext - 17, True) (set bs)) (holes bs) s2" "evolves (meta_area e (ext - 17)) s1 s2"
      "kheap s2 = kheap s1" by auto
    have "e \<notin> fst ` set bs" by (rule apart_not_member [OF ap]) auto
    then have eH: "e \<notin> holes bs" using holes_subset by blast
    have "room (Suc j) s2" using room1 k by (simp add: bs False w(4) room_def)
    from index_insert_step [OF w(2) _ eH this] obtain s3 where i:
      "index_insert (addr e) s2 = (1, s3)" "heap_rep (insert (e, ext - 17, True) (set bs)) (insert e (holes bs)) s3"
      "evolves (index_area (kheap s2)) s2 s3" "room j s3" by auto
    note K3 = evolves_fields [OF i(3)]
    have "meta_area e (ext - 17) \<subseteq> {e..<e + ext}" using meta_area_block [of e "ext - 17"] ext(1) by auto
    moreover have "{e..<e + ext} \<subseteq> {S..<M}" using fits e(2) by (simp add: M_def subset_iff)
    moreover have "{e..<e + ext} \<inter> taken bs = {}"
      using taken_tiles [OF d(3), folded e_def] by (meson atLeastLessThan_iff disjoint_iff not_less subsetD)
    ultimately have "meta_area e (ext - 17) \<subseteq> work_area bs (kheap s1)" unfolding work_area_def start1 by blast
    moreover have "index_area (kheap s2) \<subseteq> work_area bs (kheap s1)" by (simp add: w(4) work_area_def)
    ultimately have mv: "heap_moves (work_area bs (kheap s)) s1 s2" "heap_moves (work_area bs (kheap s)) s2 s3"
      using evolves_moves [OF evolves_mono [OF w(3)]] evolves_moves [OF evolves_mono [OF i(3)]]
      by (simp_all add: W1)
    have "alloc_grow (addr sz) s = Inr s3"
      using rd(2) False w(1) i(1) ext(1) by (simp add: alloc_grow_def e(4) x(1) hl Let_def)
    moreover have "heap_ok (grow bs e ext) s3"
      unfolding heap_ok_def
    proof (intro conjI)
      show "heap_rep (set (grow bs e ext)) (holes (grow bs e ext)) s3"
        using i(2) by (simp add: bs False insert_commute)
      show "coalesced (grow bs e ext)" using d(2) by (auto simp: bs False coalesced_append)
      have "tiles S xs a" using t(1) by (simp add: S_def)
      then show "tiles (unat (kh_start_address (kheap s3))) (grow bs e ext) (unat (kh_end_address (kheap s3)))"
        using an t(3) bd(1) by (auto simp: bs False tiles_append K3 w(4) h1(2) start1)
    qed
    ultimately show ?thesis
      using heap_moves_trans [OF m1 heap_moves_trans [OF mv]] i(4) by (auto simp: K3 w(4) h1(2))
  qed
qed

subsection \<open>The whole function\<close>

text \<open>The largest request considered: all of the room that \<open>KHEAP_MAX\<close> leaves to the heap.\<close>

definition max_request :: nat where
  [simp]: "max_request = 0x1F380000"

definition alloc_result ::
  "u8 \<Rightarrow> nat \<Rightarrow> block list \<Rightarrow> 'a kheap_state_scheme \<Rightarrow> nat \<Rightarrow> nat \<Rightarrow> block list \<Rightarrow> 'a kheap_state_scheme \<Rightarrow> bool" where
  "alloc_result al sz bs s a n bs' s' \<longleftrightarrow> sz \<le> n \<and> (al \<noteq> 0 \<longrightarrow> (a + 9) mod 4096 = 0) \<and> (a, n) \<notin> allocated bs \<and>
     allocated bs' = insert (a, n) (allocated bs) \<and> heap_ok bs' s' \<and> heap_moves (work_area bs (kheap s)) s s'"

lemma addr_positive: "0 < sz \<Longrightarrow> sz < 4294967296 \<Longrightarrow> addr sz > 0"
  using addr_less_iff [of 0 sz] by simp

lemma alloc_found:
  assumes ok: "heap_ok bs s" and sz: "0 < sz" "sz \<le> max_request" and room: "room 1 s"
    and found: "find_hole (addr sz) al s \<noteq> None"
  shows "\<exists>a n bs' s'. alloc (addr sz) al s = Some (Inr (addr (a + 9), s')) \<and> alloc_result al sz bs s a n bs' s' \<and>
    kh_end_address (kheap s') = kh_end_address (kheap s)"
proof -
  from found find_hole_ok [OF ok, of sz al] sz obtain i a n pos where f:
    "find_hole (addr sz) al s = Some (i, addr pos)" "(a, n, True) \<in> set bs" "i < oa_size (kh_index (kheap s))"
    "elems (kh_index (kheap s)) (mem s) ! unat i = addr a" "fit al sz a n = Some pos" by (auto split: option.splits)
  obtain xs ys where bs: "bs = xs @ (a, n, True) # ys" using split_list [OF f(2)] by blast
  note pl = fit_placed [OF f(5)]
  note d = heap_okD [OF ok]
  from alloc_use_ok [OF ok [unfolded bs] f(3,4) pl sz(1) room] obtain s' where u:
    "alloc_use i (addr pos) (addr sz) al s = Inr (addr pos, s')" "heap_ok (xs @ cut_hole a n pos sz @ ys) s'"
    "evolves (index_area (kheap s) \<union> {a..<a + n + 17}) s s'" by blast
  obtain k where k: "allocated (cut_hole a n pos sz) = {(pos - 9, k)}" "sz \<le> k" "a \<le> pos - 9" "pos + k \<le> a + n + 9"
    using cut_hole_allocated [OF pl] by blast
  have p: "pos - 9 + 9 = pos" "pos - 9 < a + n + 17" using placed_pos [OF pl] k by auto
  have "pos - 9 \<notin> fst ` (set xs \<union> set ys)"
    by (rule apart_not_member [OF tiles_mid(6) [OF d(3) [unfolded bs]] k(3) p(2)])
  then have new: "(pos - 9, k) \<notin> allocated bs" by (force simp: bs allocated_iff)
  have "unat (kh_end_address (kheap s)) \<le> unat (kh_max_address (kheap s))" using d(4) by (simp add: geometry_def)
  from evolves_moves [OF evolves_mono [OF u(3) work_area_hole [OF d(3) [unfolded bs] this refl]]]
  have "heap_moves (work_area bs (kheap s)) s s'" by (simp only: bs)
  moreover have "al \<noteq> 0 \<longrightarrow> pos mod 4096 = 0" using pl by (simp add: placed_def)
  moreover have "allocated (xs @ cut_hole a n pos sz @ ys) = insert (pos - 9, k) (allocated bs)"
    using k(1) by (auto simp: bs)
  ultimately have "alloc_result al sz bs s (pos - 9) k (xs @ cut_hole a n pos sz @ ys) s'"
    using u(2) new k(2) unfolding alloc_result_def p(1) by blast
  moreover have "alloc (addr sz) al s = Some (Inr (addr (pos - 9 + 9), s'))"
    using addr_positive [of sz] sz f(1) u(1) by (simp only: p(1)) (simp add: alloc.simps kheap_assert_def)
  ultimately show ?thesis using evolves_fields(2) [OF u(3)] by blast
qed

lemma alloc_not_found:
  assumes "0 < sz" "sz \<le> max_request" "find_hole (addr sz) al s = None"
  shows "alloc (addr sz) al s = (case alloc_grow (addr sz) s of Inl p \<Rightarrow> Some (Inl p) | Inr s \<Rightarrow> alloc (addr sz) al s)"
  using addr_positive [of sz] assms by (subst alloc.simps) (simp add: kheap_assert_def)

lemma grow_allocated: "bs \<noteq> [] \<Longrightarrow> allocated (grow bs e ext) = allocated bs"
proof -
  assume "bs \<noteq> []"
  then obtain xs a n h where "bs = xs @ [(a, n, h)]" by (metis rev_exhaust prod_cases3)
  then show ?thesis by (cases h) auto
qed

lemma grow_work_area: "bs \<noteq> [] \<Longrightarrow> work_area (grow bs e ext) K = work_area bs K"
  by (simp add: work_area_def taken_def grow_allocated)

lemma grow_last:
  assumes "tiles s bs e" "bs \<noteq> []" "17 < ext"
  obtains a n where "last (grow bs e ext) = (a, n, True)" "a = e \<and> n = ext - 17 \<or> ext < n" "(a, n, True) \<in> set (grow bs e ext)"
proof -
  obtain xs a n h where "bs = xs @ [(a, n, h)]" using assms(2) by (metis rev_exhaust prod_cases3)
  then show ?thesis using assms that by (cases h) (auto simp: tiles_append)
qed

lemma alloc_result_grow:
  assumes "alloc_result al sz (grow bs e ext) s1 a n bs' s'" "heap_moves (work_area bs (kheap s)) s s1" "bs \<noteq> []"
  shows "alloc_result al sz bs s a n bs' s'"
  using assms heap_moves_trans heap_moves_end [OF assms(2), of bs]
  unfolding alloc_result_def by (auto simp: grow_allocated grow_work_area)

lemma fit_found:
  assumes "heap_ok bs s" "sz \<le> max_request" "(a, n, True) \<in> set bs" "fit al sz a n \<noteq> None"
  shows "find_hole (addr sz) al s \<noteq> None"
  using find_hole_ok [OF assms(1), of sz al] assms(2-4) by (auto split: option.splits)

text \<open>One call of \<open>alloc\<close> that has to expand the heap first.\<close>

lemma alloc_expand:
  assumes ok: "heap_ok bs s" and sz: "0 < sz" "sz \<le> max_request" and no: "find_hole (addr sz) al s = None"
    and room: "room k s" and k: "if is_hole (last bs) then k = j else k = Suc j"
  defines "e \<equiv> unat (kh_end_address (kheap s))" and "ext \<equiv> page_up (sz + 17)"
  shows "unat (kh_max_address (kheap s)) < e + ext \<Longrightarrow> \<exists>p. alloc (addr sz) al s = Some (Inl p)"
    "e + ext \<le> unat (kh_max_address (kheap s)) \<Longrightarrow>
       \<exists>s1. alloc (addr sz) al s = alloc (addr sz) al s1 \<and> heap_ok (grow bs e ext) s1 \<and>
         heap_moves (work_area bs (kheap s)) s s1 \<and> room j s1 \<and>
         unat (kh_end_address (kheap s1)) = e + ext \<and> kh_max_address (kheap s1) = kh_max_address (kheap s)"
proof -
  have sz': "sz \<le> 0x1F380000" using sz(2) by simp
  note eq = alloc_not_found [OF sz no]
  show "unat (kh_max_address (kheap s)) < e + ext \<Longrightarrow> \<exists>p. alloc (addr sz) al s = Some (Inl p)"
    using alloc_grow_panics [OF ok sz(1) sz'] unfolding eq e_def ext_def by (auto simp: isl_def)
  assume "e + ext \<le> unat (kh_max_address (kheap s))"
  from alloc_grow_ok [OF ok sz(1) sz' room k, folded e_def ext_def, OF this] show
    "\<exists>s1. alloc (addr sz) al s = alloc (addr sz) al s1 \<and> heap_ok (grow bs e ext) s1 \<and>
         heap_moves (work_area bs (kheap s)) s s1 \<and> room j s1 \<and>
         unat (kh_end_address (kheap s1)) = e + ext \<and> kh_max_address (kheap s1) = kh_max_address (kheap s)"
    unfolding eq by (auto simp: heap_moves_def)
qed

lemma alloc_unaligned:
  assumes ok: "heap_ok bs s" and sz: "0 < sz" "sz \<le> max_request" and room: "room 2 s"
  defines "e \<equiv> unat (kh_end_address (kheap s))" and "ext \<equiv> page_up (sz + 17)"
  shows "(\<exists>p. alloc (addr sz) 0 s = Some (Inl p)) \<and> unat (kh_max_address (kheap s)) < e + ext \<or>
    (\<exists>a n bs' s'. alloc (addr sz) 0 s = Some (Inr (addr (a + 9), s')) \<and> alloc_result 0 sz bs s a n bs' s' \<and>
       unat (kh_end_address (kheap s')) \<le> e + ext)"
proof (cases "find_hole (addr sz) 0 s = None")
  case False
  have "room 1 s" using room by (simp add: room_def)
  from alloc_found [OF ok sz this False] show ?thesis unfolding e_def by (metis le_add1)
next
  case True
  obtain j where j: "(if is_hole (last bs) then 2 = j else 2 = Suc j)" "1 \<le> j"
    by (cases "is_hole (last bs)") auto
  note x = alloc_expand [OF ok sz True room j(1), folded e_def ext_def]
  show ?thesis
  proof (cases "e + ext \<le> unat (kh_max_address (kheap s))")
    case False
    then show ?thesis using x(1) by simp
  next
    case le: True
    from x(2) [OF le] obtain s1 where s1: "alloc (addr sz) 0 s = alloc (addr sz) 0 s1" "heap_ok (grow bs e ext) s1"
      "heap_moves (work_area bs (kheap s)) s s1" "room j s1" "unat (kh_end_address (kheap s1)) = e + ext" by blast
    have e: "tiles (unat (kh_start_address (kheap s))) bs e" "bs \<noteq> []"
      using heap_okD [OF ok] by (simp_all add: e_def)
    have ext: "sz + 17 \<le> ext" unfolding ext_def by (rule page_up_bounds)
    obtain a n where l: "a = e \<and> n = ext - 17 \<or> ext < n" "(a, n, True) \<in> set (grow bs e ext)"
      by (rule grow_last [OF e, of ext]) (use ext sz in auto)
    then have "fit 0 sz a n \<noteq> None" using ext by (auto simp: fit_def)
    from fit_found [OF s1(2) sz(2) l(2) this] alloc_found [OF s1(2) sz room_simps(1) [OF s1(4) j(2)]]
    obtain a' n' bs' s' where "alloc (addr sz) 0 s1 = Some (Inr (addr (a' + 9), s'))"
      "alloc_result 0 sz (grow bs e ext) s1 a' n' bs' s'" "kh_end_address (kheap s') = kh_end_address (kheap s1)" by blast
    then show ?thesis using alloc_result_grow [OF _ s1(3) e(2)] s1(1,5) by (metis order_refl)
  qed
qed

text \<open>A page-aligned request may need two expansions: the first one may leave no page boundary
  with enough room in front and behind.\<close>

lemma alloc_aligned:
  assumes al: "al \<noteq> 0" and ok: "heap_ok bs s" and sz: "0 < sz" "sz \<le> max_request" and room: "room 2 s"
  defines "e \<equiv> unat (kh_end_address (kheap s))" and "ext \<equiv> page_up (sz + 17)"
  shows "(\<exists>p. alloc (addr sz) al s = Some (Inl p)) \<and> unat (kh_max_address (kheap s)) < e + 2 * ext \<or>
    (\<exists>a n bs' s'. alloc (addr sz) al s = Some (Inr (addr (a + 9), s')) \<and> alloc_result al sz bs s a n bs' s' \<and>
       unat (kh_end_address (kheap s')) \<le> e + 2 * ext)"
proof (cases "find_hole (addr sz) al s = None")
  case False
  have "room 1 s" using room by (simp add: room_def)
  from alloc_found [OF ok sz this False] show ?thesis unfolding e_def by (metis le_add1)
next
  case True
  obtain j where j: "(if is_hole (last bs) then 2 = j else 2 = Suc j)" "1 \<le> j"
    by (cases "is_hole (last bs)") auto
  note x = alloc_expand [OF ok sz True room j(1), folded e_def ext_def]
  show ?thesis
  proof (cases "e + ext \<le> unat (kh_max_address (kheap s))")
    case False
    then show ?thesis using x(1) by simp
  next
    case le: True
    let ?bs = "grow bs e ext"
    from x(2) [OF le] obtain s1 where s1: "alloc (addr sz) al s = alloc (addr sz) al s1" "heap_ok ?bs s1"
      "heap_moves (work_area bs (kheap s)) s s1" "room j s1" "unat (kh_end_address (kheap s1)) = e + ext"
      "kh_max_address (kheap s1) = kh_max_address (kheap s)" by blast
    have e: "tiles (unat (kh_start_address (kheap s))) bs e" "bs \<noteq> []" "e mod 4096 = 0"
      using heap_okD [OF ok] by (simp_all add: e_def geometry_def)
    have ext: "sz + 17 \<le> ext" "ext mod 4096 = 0" unfolding ext_def by (rule page_up_bounds)+
    then have ext4: "4096 \<le> ext" using sz(1) by (metis add_leD2 dvd_imp_le gr0I mod_0_imp_dvd not_numeral_le_zero)
    obtain a n where l: "last ?bs = (a, n, True)" "a = e \<and> n = ext - 17 \<or> ext < n"
      by (rule grow_last [OF e(1,2), of ext]) (use ext sz in auto)
    have room1: "room 1 s1" by (rule room_simps(1) [OF s1(4) j(2)])
    have result: "\<exists>a n bs' s'. alloc (addr sz) al s = Some (Inr (addr (a + 9), s')) \<and> alloc_result al sz bs s a n bs' s' \<and>
        unat (kh_end_address (kheap s')) \<le> e + 2 * ext"
      if "alloc (addr sz) al s1 = Some (Inr (addr (a' + 9), s'))" "alloc_result al sz ?bs s1 a' n' bs' s'"
        "unat (kh_end_address (kheap s')) \<le> e + 2 * ext" for a' n' bs' s'
      using alloc_result_grow [OF that(2) s1(3) e(2)] that(1,3) s1(1) by metis
    show ?thesis
    proof (cases "find_hole (addr sz) al s1 = None")
      case False
      from alloc_found [OF s1(2) sz room1 False] obtain a' n' bs' s' where
        "alloc (addr sz) al s1 = Some (Inr (addr (a' + 9), s'))" "alloc_result al sz ?bs s1 a' n' bs' s'"
        "kh_end_address (kheap s') = kh_end_address (kheap s1)" by blast
      then show ?thesis using result s1(5) by simp
    next
      case no1: True
      have hl: "if is_hole (last ?bs) then 1 = (1::nat) else 1 = Suc 1" by (simp add: l)
      note y = alloc_expand [OF s1(2) sz no1 room1 hl, unfolded s1(5,6), folded ext_def]
      show ?thesis
      proof (cases "e + ext + ext \<le> unat (kh_max_address (kheap s))")
        case False
        then show ?thesis using y(1) s1(1) by auto
      next
        case le2: True
        let ?bs2 = "grow ?bs (e + ext) ext"
        from y(2) [OF le2] obtain s2 where s2: "alloc (addr sz) al s1 = alloc (addr sz) al s2" "heap_ok ?bs2 s2"
          "heap_moves (work_area ?bs (kheap s1)) s1 s2" "room 1 s2" "unat (kh_end_address (kheap s2)) = e + ext + ext" by blast
        have ne: "?bs \<noteq> []" using heap_okD(8) [OF s1(2)] .
        then have hole: "(a, n + ext, True) \<in> set ?bs2" by (simp add: grow_def [of ?bs] l)
        have "page_up (a + 27) + sz \<le> a + 9 + (n + ext)"
          using l(2)
        proof
          assume a: "a = e \<and> n = ext - 17"
          then have "page_up (a + 27) = a + 4096" using e(3) by (intro page_up_unique) auto
          then show ?thesis using a ext ext4 by simp
        qed (use page_up_bounds(2) [of "a + 27"] ext ext4 in simp)
        then have "fit al sz a (n + ext) \<noteq> None" using al by (simp add: fit_def)
        from fit_found [OF s2(2) sz(2) hole this] alloc_found [OF s2(2) sz s2(4)]
        obtain a' n' bs' s' where "alloc (addr sz) al s2 = Some (Inr (addr (a' + 9), s'))"
          "alloc_result al sz ?bs2 s2 a' n' bs' s'" "kh_end_address (kheap s') = kh_end_address (kheap s2)" by blast
        then show ?thesis using result [of a' s' n' bs'] alloc_result_grow [OF _ s2(3) ne] s2(1,5) by simp
      qed
    qed
  qed
qed


end
