(* ===== verification/Kheap_free.thy ===== *)
theory Kheap_free
  imports Kheap_alloc
begin

text \<open>
  \<open>free\<close>: the block becomes a hole and joins the holes to its right and left, so that no two
  holes touch.
\<close>

subsection \<open>Merging\<close>

definition is_hole_at :: "block list \<Rightarrow> bool" where
  "is_hole_at bs \<longleftrightarrow> bs \<noteq> [] \<and> is_hole (hd bs)"

text \<open>The blocks after a merge with a hole on the right, and with one on the left.\<close>

fun join_right :: "nat \<Rightarrow> block list \<Rightarrow> nat \<times> block list" where
  "join_right n ((_, k, True) # ys) = (n + k + 17, ys)"
| "join_right n ys = (n, ys)"

definition join_left :: "block list \<Rightarrow> nat \<Rightarrow> nat \<Rightarrow> block list" where
  "join_left xs a n = (if xs = [] then [(a, n, True)] else
     (case last xs of (l, k, h) \<Rightarrow> if h then butlast xs @ [(l, k + n + 17, True)] else xs @ [(a, n, True)]))"

lemma join_left_simps [simp]:
  "join_left [] a n = [(a, n, True)]"
  "join_left (xs @ [(l, k, h)]) a n = (if h then xs @ [(l, k + n + 17, True)] else xs @ [(l, k, h), (a, n, True)])"
  by (simp_all add: join_left_def)

text \<open>The right neighbour, in a heap whose freed block is already marked as a hole.\<close>

lemma merge_right_ok:
  assumes rep: "heap_rep (insert (a, n, True) (set xs \<union> set ys)) (holes xs \<union> holes ys) s"
    and t: "tiles (unat (kh_start_address (kheap s))) (xs @ (a, n, True) # ys) (unat (kh_end_address (kheap s)))"
    and room: "room 1 s" and j: "join_right n ys = (n', ys')"
  shows "\<exists>s'. merge_right (addr a) (addr (a + 9 + n)) s = Inr s' \<and>
    heap_rep (insert (a, n', True) (set xs \<union> set ys')) (holes xs \<union> holes ys') s' \<and>
    evolves (index_area (kheap s) \<union> {a..<a + n' + 17}) s s' \<and> room 1 s' \<and>
    tiles (unat (kh_start_address (kheap s))) (xs @ (a, n', True) # ys') (unat (kh_end_address (kheap s)))"
proof -
  note d = heap_repD [OF rep] and g = blocks_repD [OF heap_repD(1) [OF rep]]
  note gb = geometry_bounds [OF g(1)]
  note tm = tiles_mid [OF t]
  have right: "addr (a + 9 + n) + 8 = addr (a + n + 17)" by (simp add: addr_def)
  show ?thesis
  proof (cases "\<exists>r k ys1. ys = (r, k, True) # ys1")
    case True
    then obtain r k where ys: "ys = (r, k, True) # ys'" and n': "n' = n + k + 17" using j by auto
    have r: "r = a + n + 17" "0 < k" using tm(2) ys by simp_all
    have t': "tiles (unat (kh_start_address (kheap s))) (xs @ (a, n', True) # ys') (unat (kh_end_address (kheap s)))"
      using t unfolding ys n' by (auto simp: tiles_append ac_simps)
    note tm' = tiles_mid [OF t']
    have rB: "(r, k, True) \<in> insert (a, n, True) (set xs \<union> set ys)" by (simp add: ys)
    note rr = block_at_reads [OF conjunct2 [OF conjunct2 [OF g(3) [OF rB]]]]
    have aB: "(a, n, True) \<in> insert (a, n, True) (set xs \<union> set ys)" by simp
    note ra = block_at_reads [OF conjunct2 [OF conjunct2 [OF g(3) [OF aB]]]]
    have rH: "r \<in> holes xs \<union> holes ys" by (simp add: ys)
    have "apart r k (set xs \<union> set ys')"
      using apart_sub [OF tm'(6), of r k] r(1) n' by simp
    then have "r \<notin> fst ` (set xs \<union> set ys')" by (rule apart_not_member) auto
    then have H: "holes xs \<union> holes ys - {r} = holes xs \<union> holes ys'"
      using holes_subset [of xs] holes_subset [of ys'] by (auto simp: ys)
    have C: "set xs \<union> set ys' \<subseteq> insert (a, n, True) (set xs \<union> set ys)"
      "holes xs \<union> holes ys - {r} \<subseteq> fst ` (set xs \<union> set ys')"
      using holes_subset [of xs] holes_subset [of ys'] unfolding H by (auto simp: ys image_Un)
    from merge_step [OF rep rH C tm'(6,3,4,5) room] obtain s1 s2 where m:
      "make_block (addr a) (addr n') 1 s = Inr (addr a, s1)" "index_remove_element (addr r) s1 = (1, s2)"
      "heap_rep (insert (a, n', True) (set xs \<union> set ys')) (holes xs \<union> holes ys') s2"
      "evolves (index_area (kheap s) \<union> meta_area a n') s s2" "room (Suc 1) s2" unfolding H by blast
    have "merge_right (addr a) (addr (a + 9 + n)) s = Inr s2"
      unfolding merge_right_def FOOTER_SIZE_def right Let_def using rr m(2) ra(3)
      by (simp add: r(1) [symmetric] kheap_assert_def m(1) [unfolded n'])
    moreover have "evolves (index_area (kheap s) \<union> {a..<a + n' + 17}) s s2"
      by (rule evolves_mono [OF m(4)]) (use meta_area_block [of a n'] in blast)
    moreover have "room 1 s2" using m(5) by (rule room_simps(1)) simp
    ultimately show ?thesis using m(3) t' by blast
  next
    case False
    then have j': "n' = n" "ys' = ys" using j by (cases "(n, ys)" rule: join_right.cases; auto)+
    have "\<not> (header_magic (mem s) (addr (a + n + 17)) = KHEAP_MAGIC \<and> header_is_hole (mem s) (addr (a + n + 17)) \<noteq> 0)"
    proof (cases ys)
      case Nil
      then have "a + n + 17 = unat (kh_end_address (kheap s))" using tm(2) by simp
      then have "load32 (mem s) (addr (a + n + 17)) \<noteq> KHEAP_MAGIC"
        using g(1,2) unfolding guarded_def geometry_def by (metis order_refl)
      then show ?thesis by (simp add: header_magic_def)
    next
      case (Cons y ys1)
      then obtain r k where y: "y = (r, k, False)" using False by (cases y) auto
      then have "r = a + n + 17" "(r, k, False) \<in> insert (a, n, True) (set xs \<union> set ys)"
        using tm(2) Cons by simp_all
      then show ?thesis using block_at_reads(2) [OF conjunct2 [OF conjunct2 [OF g(3)]], of r k False] by simp
    qed
    then have "merge_right (addr a) (addr (a + 9 + n)) s = Inr s"
      unfolding merge_right_def FOOTER_SIZE_def right Let_def by (rule if_not_P)
    then show ?thesis using rep t room j' by (intro exI [of _ s]) simp
  qed
qed

lemma merge_left_ok:
  assumes rep: "heap_rep (insert (a, n, True) (set xs \<union> set ys)) (holes xs \<union> holes ys) s"
    and t: "tiles (unat (kh_start_address (kheap s))) (xs @ (a, n, True) # ys) (unat (kh_end_address (kheap s)))"
    and room: "room 1 s"
  shows "\<exists>h H s'. merge_left (addr a) s = Inr (addr h, s') \<and>
    heap_rep (set (join_left xs a n @ ys)) H s' \<and> h \<notin> H \<and> insert h H = holes (join_left xs a n @ ys) \<and>
    evolves (index_area (kheap s) \<union> ({unat (kh_start_address (kheap s))..<a + n + 17} - taken xs)) s s' \<and> room 1 s' \<and>
    tiles (unat (kh_start_address (kheap s))) (join_left xs a n @ ys) (unat (kh_end_address (kheap s)))"
proof -
  note d = heap_repD [OF rep] and g = blocks_repD [OF heap_repD(1) [OF rep]]
  note gb = geometry_bounds [OF g(1)]
  note tm = tiles_mid [OF t]
  have aB: "(a, n, True) \<in> insert (a, n, True) (set xs \<union> set ys)" by simp
  note ra = block_at_reads [OF conjunct2 [OF conjunct2 [OF g(3) [OF aB]]]]
  have "a \<notin> fst ` (set xs \<union> set ys)" by (rule apart_not_member [OF tm(6)]) auto
  then have aH: "a \<notin> holes xs \<union> holes ys" using holes_subset [of xs] holes_subset [of ys] by blast
  show ?thesis
  proof (cases "xs = [] \<or> \<not> is_hole (last xs)")
    case True
    have run: "merge_left (addr a) s = Inr (addr a, s)"
    proof (cases xs rule: rev_cases)
      case Nil
      then have "addr a - 8 = addr (unat (kh_start_address (kheap s)) - 8)" using tm(1) gb(2) by simp
      then have "load32 (mem s) (addr a - 8) \<noteq> KHEAP_MAGIC" using g(2) by (simp add: guarded_def)
      then show ?thesis by (simp add: merge_left_def footer_magic_def)
    next
      case (snoc xs' b)
      then obtain l k where b: "b = (l, k, False)" using True by (cases b) auto
      then have lk: "l + k + 17 = a" "(l, k, False) \<in> insert (a, n, True) (set xs \<union> set ys)"
        using tm(1) snoc by (auto simp: tiles_append)
      note rl = block_at_reads [OF conjunct2 [OF conjunct2 [OF g(3) [OF lk(2)]]]]
      have "addr a - 8 = addr (l + 9 + k)" using lk(1) by (simp add: ac_simps flip: lk(1))
      then show ?thesis using rl(2,5) by (simp add: merge_left_def)
    qed
    have "join_left xs a n = xs @ [(a, n, True)]" using True by (cases xs rule: rev_cases) (auto simp: join_left_def split: prod.splits)
    with run rep t room aH show ?thesis
      by (intro exI [of _ a] exI [of _ "holes xs \<union> holes ys"] exI [of _ s]) (auto simp: Un_assoc)
  next
    case False
    then obtain xs' l k where xs: "xs = xs' @ [(l, k, True)]"
      by (cases xs rule: rev_cases) auto
    have lk: "l + k + 17 = a" "0 < k" using tm(1) xs by (auto simp: tiles_append)
    have lB: "(l, k, True) \<in> insert (a, n, True) (set xs \<union> set ys)" by (simp add: xs)
    note rl = block_at_reads [OF conjunct2 [OF conjunct2 [OF g(3) [OF lB]]]]
    have J: "join_left xs a n = xs' @ [(l, k + n + 17, True)]" by (simp add: xs)
    have t': "tiles (unat (kh_start_address (kheap s))) (xs' @ (l, k + n + 17, True) # ys) (unat (kh_end_address (kheap s)))"
      using t lk unfolding xs by (auto simp: tiles_append ac_simps)
    note tm' = tiles_mid [OF t']
    have "l \<notin> fst ` (set xs' \<union> set ys)" by (rule apart_not_member [OF tm'(6)]) auto
    then have H: "holes xs \<union> holes ys - {l} = holes xs' \<union> holes ys" and lH: "l \<notin> holes xs' \<union> holes ys"
      using holes_subset [of xs'] holes_subset [of ys] by (auto simp: xs)
    have lx: "l \<in> holes xs \<union> holes ys" by (simp add: xs)
    have C: "set xs' \<union> set ys \<subseteq> insert (a, n, True) (set xs \<union> set ys)"
      "holes xs \<union> holes ys - {l} \<subseteq> fst ` (set xs' \<union> set ys)"
      using holes_subset [of xs'] holes_subset [of ys] unfolding H by (auto simp: xs image_Un)
    from merge_step [OF rep lx C tm'(6,3,4,5) room] obtain s1 s2 where m:
      "make_block (addr l) (addr (k + n + 17)) 1 s = Inr (addr l, s1)" "index_remove_element (addr l) s1 = (1, s2)"
      "heap_rep (insert (l, k + n + 17, True) (set xs' \<union> set ys)) (holes xs' \<union> holes ys) s2"
      "evolves (index_area (kheap s) \<union> meta_area l (k + n + 17)) s s2" "room (Suc 1) s2" unfolding H by blast
    have "addr a - 8 = addr (l + 9 + k)" using lk(1) by (simp add: ac_simps flip: lk(1))
    moreover have "addr k + addr n + 17 = addr (k + n + 17)" by simp
    ultimately have "merge_left (addr a) s = Inr (addr l, s2)"
      using rl ra(3) m(1,2) by (simp add: merge_left_def kheap_assert_def)
    moreover have "evolves (index_area (kheap s) \<union> ({unat (kh_start_address (kheap s))..<a + n + 17} - taken xs)) s s2"
    proof (rule evolves_mono [OF m(4)])
      have "taken xs \<subseteq> {..<l}" using taken_tiles [OF tm'(1)] by (auto simp: xs)
      moreover have "meta_area l (k + n + 17) \<subseteq> {l..<a + n + 17}" using lk meta_area_block [of l "k + n + 17"] by auto
      ultimately show "index_area (kheap s) \<union> meta_area l (k + n + 17) \<subseteq>
        index_area (kheap s) \<union> ({unat (kh_start_address (kheap s))..<a + n + 17} - taken xs)"
        using tm'(4) by fastforce
    qed
    moreover have "room 1 s2" using m(5) by (rule room_simps(1)) simp
    moreover have "set (join_left xs a n @ ys) = insert (l, k + n + 17, True) (set xs' \<union> set ys)"
      "insert l (holes xs' \<union> holes ys) = holes (join_left xs a n @ ys)" by (auto simp: J)
    ultimately show ?thesis using m(3) lH t'
      by (intro exI [of _ l] exI [of _ "holes xs' \<union> holes ys"] exI [of _ s2]) (simp add: J)
  qed
qed

subsection \<open>The whole function\<close>

definition release :: "block list \<Rightarrow> nat \<Rightarrow> nat \<Rightarrow> block list \<Rightarrow> block list" where
  "release xs a n ys = (case join_right n ys of (n', ys') \<Rightarrow> join_left xs a n' @ ys')"

lemma join_right_allocated: "join_right n ys = (n', ys') \<Longrightarrow> allocated ys' = allocated ys"
  by (cases "(n, ys)" rule: join_right.cases) auto

lemma join_left_allocated: "allocated (join_left xs a n) = allocated xs"
  by (cases xs rule: rev_cases) (auto simp: join_left_def split: prod.splits)

lemma release_allocated: "allocated (release xs a n ys) = allocated xs \<union> allocated ys"
  by (auto simp: release_def join_left_allocated join_right_allocated split: prod.splits)

lemma join_right_coalesced:
  assumes "coalesced ((a, n, h) # ys)" "join_right n ys = (n', ys')"
  shows "coalesced ((a, n', True) # ys')"
proof (cases "\<exists>r k zs. ys = (r, k, True) # zs")
  case True
  then show ?thesis using assms by (auto simp: coalesced_Cons)
next
  case False
  then have "n' = n" "ys' = ys" using assms(2) by (cases "(n, ys)" rule: join_right.cases; auto)+
  then show ?thesis using assms(1) False by (cases ys) (auto simp: coalesced_Cons)
qed

lemma join_left_coalesced:
  assumes "coalesced xs" "coalesced ((a, n, True) # ys)"
  shows "coalesced (join_left xs a n @ ys)"
proof (cases xs rule: rev_cases)
  case (snoc zs b)
  obtain l k h where "b = (l, k, h)" by (cases b)
  then show ?thesis using assms snoc by (auto simp: coalesced_append coalesced_Cons)
qed (use assms in simp)

lemma release_coalesced:
  assumes "coalesced (xs @ (a, n, h) # ys)"
  shows "coalesced (release xs a n ys)"
proof -
  obtain n' ys' where j: "join_right n ys = (n', ys')" by fastforce
  have c: "coalesced xs" "coalesced ((a, n, h) # ys)" using assms by (simp_all add: coalesced_append)
  show ?thesis
    using join_left_coalesced [OF c(1) join_right_coalesced [OF c(2) j]] by (simp add: release_def j)
qed

lemma free_ok:
  assumes ok: "heap_ok (xs @ (a, n, False) # ys) s" and room: "room 1 s"
  shows "\<exists>s'. free (addr (a + 9)) s = Inr s' \<and> heap_ok (release xs a n ys) s' \<and>
    heap_moves (work_area (xs @ ys) (kheap s)) s s' \<and> kh_end_address (kheap s') = kh_end_address (kheap s)"
proof -
  let ?bs = "xs @ (a, n, False) # ys" and ?W = "work_area (xs @ ys) (kheap s)"
  define C H where "C = set xs \<union> set ys" and "H = holes xs \<union> holes ys"
  define S E where "S = unat (kh_start_address (kheap s))" and "E = unat (kh_end_address (kheap s))"
  obtain n' ys' where j: "join_right n ys = (n', ys')" by fastforce
  note d = heap_okD [OF ok]
  have mem_bs: "(a, n, False) \<in> set ?bs" by simp
  note b = heap_ok_block [OF ok mem_bs] and rd = block_at_reads [OF heap_ok_block(1) [OF ok mem_bs]]
  note t = tiles_mid [OF d(3)]
  have H: "H \<subseteq> fst ` C" using holes_subset [of xs] holes_subset [of ys] by (auto simp: C_def H_def)
  have HB: "holes ?bs = H" by (simp add: H_def)
  have CB: "C \<subseteq> set ?bs" by (auto simp: C_def)
  define s1 where "s1 = s\<lparr>mem := store8 (mem s) (addr (a + 4)) 1\<rparr>"
  note s1 = set_hole [OF d(1) [unfolded HB] CB H t(6) [folded C_def] mem_bs, folded s1_def]
  note K1 = evolves_fields [OF s1(2)]
  have t1: "tiles (unat (kh_start_address (kheap s1))) (xs @ (a, n, True) # ys) (unat (kh_end_address (kheap s1)))"
    using d(3) by (simp add: K1 tiles_append)
  have room1: "room 1 s1" using room by (simp add: s1_def room_def)
  from merge_right_ok [OF s1(1) [unfolded C_def H_def] t1 room1 j] obtain s2 where m:
    "merge_right (addr a) (addr (a + 9 + n)) s1 = Inr s2"
    "heap_rep (insert (a, n', True) (set xs \<union> set ys')) (holes xs \<union> holes ys') s2"
    "evolves (index_area (kheap s1) \<union> {a..<a + n' + 17}) s1 s2" "room 1 s2"
    "tiles (unat (kh_start_address (kheap s1))) (xs @ (a, n', True) # ys') (unat (kh_end_address (kheap s1)))" by blast
  note K2 = evolves_fields [OF m(3)]
  from merge_left_ok [OF m(2) m(5) [folded K2] m(4)] obtain h H' s3 where l:
    "merge_left (addr a) s2 = Inr (addr h, s3)" "heap_rep (set (join_left xs a n' @ ys')) H' s3" "h \<notin> H'"
    "insert h H' = holes (join_left xs a n' @ ys')"
    "evolves (index_area (kheap s2) \<union> ({unat (kh_start_address (kheap s2))..<a + n' + 17} - taken xs)) s2 s3" "room 1 s3"
    "tiles (unat (kh_start_address (kheap s2))) (join_left xs a n' @ ys') (unat (kh_end_address (kheap s2)))" by blast
  note K3 = evolves_fields [OF l(5)]
  have "h \<in> fst ` set (join_left xs a n' @ ys')" using l(4) holes_subset by blast
  from index_insert_step [OF l(2) this l(3)] l(6) obtain s4 where i:
    "index_insert (addr h) s3 = (1, s4)" "heap_rep (set (join_left xs a n' @ ys')) (insert h H') s4"
    "evolves (index_area (kheap s3)) s3 s4" by auto
  note K4 = evolves_fields [OF i(3)]
  have ok': "heap_ok (release xs a n ys) s4"
    using i(2) l(4,7) release_coalesced [OF d(2)] by (simp add: heap_ok_def release_def j K4 K3 K2)
  have f: "addr (a + 9) - 9 = addr a" "addr (a + 9) + addr n = addr (a + 9 + n)" by simp_all
  have fl: "s\<lparr>mem := store8 (mem s) (addr a + 4) 1\<rparr> = s1" by (simp add: s1_def)
  have "addr (a + 9) \<noteq> 0" using b addr_eq_iff [of "a + 9" 0] by simp
  then have "free (addr (a + 9)) s = Inr s4"
    unfolding free_def HEADER_SIZE_def Let_def f rd(3)
    using rd(1,4) by (simp add: kheap_assert_def fl m(1) l(1) i(1) del: addr_simps)
  moreover have "heap_moves ?W s s4"
  proof -
    have t2: "tiles S (xs @ (a, n', True) # ys') E" using m(5) by (simp add: K1 S_def E_def)
    note t2 = t2 tiles_mid [OF t2]
    have tk: "taken ys = taken ys'" using join_right_allocated [OF j] by (simp add: taken_def)
    have W: "?W = index_area (kheap s) \<union> ({S..<unat (kh_max_address (kheap s))} - (taken xs \<union> taken ys'))"
      by (simp add: work_area_def S_def tk)
    have E: "E \<le> unat (kh_max_address (kheap s))" using d(4) by (simp add: geometry_def E_def)
    have tx: "taken xs \<subseteq> {S..<a}" "taken ys' \<subseteq> {a + n' + 17..<E}"
      using taken_tiles t2(2,3) by blast+
    have sub: "{S..<a + n' + 17} - taken xs \<subseteq> ?W" "{a..<a + n' + 17} \<subseteq> ?W"
      unfolding W using tx E t2(5,6) by fastforce+
    have an: "meta_area a n \<subseteq> {a..<a + n' + 17}"
      using meta_area_block [of a n] j by (cases "(n, ys)" rule: join_right.cases) auto
    have ia: "index_area (kheap s) \<subseteq> ?W" by (simp add: W)
    have "evolves ?W s s1" by (rule evolves_mono [OF s1(2)]) (use an sub in blast)
    moreover have "evolves ?W s1 s2" by (rule evolves_mono [OF m(3)]) (use sub ia in \<open>simp add: K1\<close>)
    moreover have "evolves ?W s2 s3" by (rule evolves_mono [OF l(5)]) (use sub ia in \<open>simp add: K1 K2 S_def\<close>)
    moreover have "evolves ?W s3 s4" by (rule evolves_mono [OF i(3)]) (use ia in \<open>simp add: K1 K2 K3\<close>)
    ultimately show ?thesis by (intro evolves_moves) (blast intro: evolves_trans)
  qed
  ultimately show ?thesis using ok' by (auto simp: K4 K3 K2 K1)
qed

end
