(* ===== verification/Kheap_spec.thy ===== *)
theory Kheap_spec
  imports Kheap_free
begin

text \<open>
  The heap as its clients see it: \<open>represents A s\<close> says that the state holds exactly the allocated
  blocks \<open>A\<close>. \<open>kmalloc\<close>, \<open>kmalloc_aligned\<close> and \<open>kfree\<close> refine insertion into and deletion from
  that set, and \<open>kheap_validate_print\<close> returns its size. The locale \<open>block_allocator\<close> is the
  interface; its laws hold of the functions of \<open>kheap.c\<close>.
\<close>

subsection \<open>Counting\<close>

lemma tiles_holes_above: "tiles s bs e \<Longrightarrow> a \<in> holes bs \<Longrightarrow> s \<le> a"
  using tiles_bounds [of s bs e] by (auto simp: holes_def)

lemma finite_holes [simp]: "finite (holes bs)"
  by (rule finite_subset [OF holes_subset]) simp

lemma finite_allocated [simp]: "finite (allocated bs)"
proof (rule finite_subset)
  show "allocated bs \<subseteq> (\<lambda>(a, n, h). (a, n)) ` set bs" by (force simp: allocated_def)
qed simp

lemma card_holes: "tiles s bs e \<Longrightarrow> card (holes bs) = length (filter is_hole bs)"
proof (induction bs arbitrary: s)
  case (Cons b bs)
  obtain a n h where b: "b = (a, n, h)" by (cases b)
  have t: "tiles (a + n + 17) bs e" using Cons.prems b by auto
  have "a \<notin> holes bs" using tiles_holes_above [OF t, of a] by auto
  then show ?case using Cons.IH [OF t] b by simp
qed simp

lemma card_allocated: "tiles s bs e \<Longrightarrow> card (allocated bs) = length (filter (\<lambda>b. \<not> is_hole b) bs)"
proof (induction bs arbitrary: s)
  case (Cons b bs)
  obtain a n h where b: "b = (a, n, h)" by (cases b)
  have t: "tiles (a + n + 17) bs e" using Cons.prems b by auto
  have "(a, n) \<notin> allocated bs" using tiles_bounds [OF t, of a n False] by (auto simp: allocated_iff)
  then show ?case using Cons.IH [OF t] b by simp
qed simp

lemma coalesced_count:
  "coalesced bs \<Longrightarrow> length (filter is_hole bs) \<le>
     length (filter (\<lambda>b. \<not> is_hole b) bs) + (if bs \<noteq> [] \<and> is_hole (hd bs) then 1 else 0)"
proof (induction bs)
  case (Cons b bs)
  then show ?case by (cases bs) (auto simp: coalesced_Cons split: if_splits)
qed simp

lemma index_size:
  assumes "heap_ok bs s"
  shows "unat (oa_size (kh_index (kheap s))) = card (holes bs)" "card (holes bs) \<le> card (allocated bs) + 1"
proof -
  note d = heap_okD [OF assms]
  have el: "distinct (elems (kh_index (kheap s)) (mem s))" "set (elems (kh_index (kheap s)) (mem s)) = addr ` holes bs"
    using d(6) by (simp_all add: index_ok_def)
  have "holes bs \<subseteq> {..<4294967296}" using tiles_bounds [OF d(3)] d(7) by (fastforce simp: holes_def)
  then show "unat (oa_size (kh_index (kheap s))) = card (holes bs)"
    using distinct_card [OF el(1)] card_image [OF inj_on_addr] el(2) by simp
  show "card (holes bs) \<le> card (allocated bs) + 1"
    using coalesced_count [OF d(2)] card_holes [OF d(3)] card_allocated [OF d(3)] by (simp split: if_splits)
qed

lemma room_allocated:
  "heap_ok bs s \<Longrightarrow> card (allocated bs) + k + 3 \<le> unat (oa_max_size (kh_index (kheap s))) \<Longrightarrow> room k s"
  using index_size [of bs s] by (simp add: room_def)

subsection \<open>The set of allocated blocks\<close>

definition represents :: "(nat \<times> nat) set \<Rightarrow> 'a kheap_state_scheme \<Rightarrow> bool" where
  "represents A s \<longleftrightarrow> (\<exists>bs. heap_ok bs s \<and> allocated bs = A) \<and> lock (kheap_lock s) = LOCKED_NO"

text \<open>The index has slots for the holes between \<open>n\<close> blocks and those that one call makes.\<close>

definition capacity :: "'a kheap_state_scheme \<Rightarrow> nat" where
  "capacity s = unat (oa_max_size (kh_index (kheap s))) - 5"

definition unchanged :: "(nat \<times> nat) set \<Rightarrow> 'a kheap_state_scheme \<Rightarrow> 'a kheap_state_scheme \<Rightarrow> bool" where
  "unchanged A s s' \<longleftrightarrow> (\<forall>(a, n) \<in> A. same_on (mem s) (mem s') a (a + n + 17))"

text \<open>The bytes that a request may add to the heap.\<close>

definition growth :: "u8 \<Rightarrow> nat \<Rightarrow> nat" where
  "growth al sz = (if al = 0 then 1 else 2) * page_up (sz + 17)"

lemma heap_ok_cong: "mem t = mem s \<Longrightarrow> kheap t = kheap s \<Longrightarrow> heap_ok bs t = heap_ok bs s"
  by (simp add: heap_ok_def heap_rep_def blocks_rep_def)

lemma represents_finite: "represents A s \<Longrightarrow> finite A"
  by (auto simp: represents_def)

lemma tiles_apart:
  assumes "tiles s bs e" "(a, n) \<in> allocated bs" "(b, k) \<in> allocated bs" "(a, n) \<noteq> (b, k)"
  shows "a + n + 17 \<le> b \<or> b + k + 17 \<le> a"
proof -
  obtain xs ys where bs: "bs = xs @ (a, n, False) # ys" using assms(2) split_list by (force simp: allocated_iff)
  then have "(b, k, False) \<in> set xs \<union> set ys" using assms(3,4) by (auto simp: allocated_iff)
  then show ?thesis using tiles_mid(6) [OF assms(1) [unfolded bs]] by (fastforce simp: apart_def)
qed

lemma represents_block:
  assumes "represents A s" "(a, n) \<in> A"
  shows "unat (kh_start_address (kheap s)) \<le> a" "a + n + 17 \<le> unat (kh_end_address (kheap s))" "0 < n"
    "a + n + 17 \<le> 3758096384"
  using assms heap_ok_block [of _ s a n False] by (auto simp: represents_def allocated_iff)

lemma represents_apart:
  assumes "represents A s" "(a, n) \<in> A" "(b, k) \<in> A" "(a, n) \<noteq> (b, k)"
  shows "a + n + 17 \<le> b \<or> b + k + 17 \<le> a"
  using assms tiles_apart heap_okD(3) by (fastforce simp: represents_def)

lemma work_area_unchanged:
  assumes ok: "heap_ok bs s" and mv: "heap_moves (work_area bs (kheap s)) s s'"
  shows "unchanged (allocated bs) s s'"
  unfolding unchanged_def
proof (intro ballI, clarify)
  fix a n assume b: "(a, n) \<in> allocated bs"
  note bl = heap_ok_block [OF ok b [unfolded allocated_iff]]
  have "{a..<a + n + 17} \<inter> work_area bs (kheap s) = {}"
    using b bl(2) by (auto simp: work_area_def index_area_def taken_def)
  then show "same_on (mem s) (mem s') a (a + n + 17)"
    using mv bl(5) by (intro only_in_same_on [of "work_area bs (kheap s)"]) (simp_all add: heap_moves_def)
qed

lemma alloc_total:
  assumes ok: "heap_ok bs s" and sz: "0 < sz" "sz \<le> max_request" and cap: "card (allocated bs) \<le> capacity s" "0 < capacity s"
  shows "(\<exists>p. alloc (addr sz) al s = Some (Inl p)) \<and>
      unat (kh_max_address (kheap s)) < unat (kh_end_address (kheap s)) + growth al sz \<or>
    (\<exists>a n bs' s'. alloc (addr sz) al s = Some (Inr (addr (a + 9), s')) \<and> alloc_result al sz bs s a n bs' s' \<and>
       unat (kh_end_address (kheap s')) \<le> unat (kh_end_address (kheap s)) + growth al sz)"
proof -
  have room: "room 2 s" by (rule room_allocated [OF ok]) (use cap in \<open>simp add: capacity_def\<close>)
  show ?thesis
    using alloc_unaligned [OF ok sz room] alloc_aligned [OF _ ok sz room, of al]
    by (cases "al = 0") (simp_all add: growth_def)
qed

text \<open>C1: On a well-formed heap, alloc of a request that can fit the address range returns: either
  it panics, which happens only when the heap would outgrow its maximum, or the result is the
  payload of a new block of at least the requested size, page-aligned when asked for, the heap
  is well formed again, the set of allocated blocks has grown by that block, and the contents
  of all other blocks are unchanged.\<close>

theorem alloc_correct:
  assumes ok: "heap_ok bs s" and sz: "0 < sz" "sz \<le> max_request" and cap: "card (allocated bs) \<le> capacity s" "0 < capacity s"
  shows "(\<exists>p. alloc (addr sz) al s = Some (Inl p)) \<and>
      unat (kh_max_address (kheap s)) < unat (kh_end_address (kheap s)) + growth al sz \<or>
    (\<exists>a n bs' s'. alloc (addr sz) al s = Some (Inr (addr (a + 9), s')) \<and> heap_ok bs' s' \<and>
       sz \<le> n \<and> (al \<noteq> 0 \<longrightarrow> (a + 9) mod 4096 = 0) \<and>
       (a, n) \<notin> allocated bs \<and> allocated bs' = insert (a, n) (allocated bs) \<and> unchanged (allocated bs) s s')"
  using alloc_total [OF assms, of al]
proof (elim disjE exE conjE)
  fix a n bs' s' assume r: "alloc (addr sz) al s = Some (Inr (addr (a + 9), s'))" "alloc_result al sz bs s a n bs' s'"
  have "unchanged (allocated bs) s s'" using r(2) work_area_unchanged [OF ok] by (simp add: alloc_result_def)
  then show ?thesis
    using r unfolding alloc_result_def
    by (intro disjI2 exI [of _ a] exI [of _ n] exI [of _ bs'] exI [of _ s']) simp
qed blast

lemma free_removes:
  assumes ok: "heap_ok bs s" and blk: "(a, n) \<in> allocated bs" and cap: "card (allocated bs) \<le> capacity s" "0 < capacity s"
  shows "\<exists>bs' s'. free (addr (a + 9)) s = Inr s' \<and> heap_ok bs' s' \<and> allocated bs' = allocated bs - {(a, n)} \<and>
    unchanged (allocated bs - {(a, n)}) s s' \<and> kheap_lock s' = kheap_lock s \<and> capacity s' = capacity s \<and>
    kh_max_address (kheap s') = kh_max_address (kheap s) \<and> kh_end_address (kheap s') = kh_end_address (kheap s)"
proof -
  obtain xs ys where bs: "bs = xs @ (a, n, False) # ys" using blk split_list by (force simp: allocated_iff)
  note d = heap_okD [OF ok]
  have room: "room 1 s" by (rule room_allocated [OF ok]) (use cap in \<open>simp add: capacity_def\<close>)
  obtain s' where f: "free (addr (a + 9)) s = Inr s'" "heap_ok (release xs a n ys) s'"
    "heap_moves (work_area (xs @ ys) (kheap s)) s s'" "kh_end_address (kheap s') = kh_end_address (kheap s)"
    using free_ok [OF ok [unfolded bs] room] by blast
  have "a \<notin> fst ` (set xs \<union> set ys)" by (rule apart_not_member [OF tiles_mid(6) [OF d(3) [unfolded bs]]]) auto
  then have A: "allocated (release xs a n ys) = allocated bs - {(a, n)}"
    by (force simp: release_allocated bs allocated_iff)
  have "unchanged (allocated bs - {(a, n)}) s s'"
    unfolding unchanged_def
  proof
    fix p assume "p \<in> allocated bs - {(a, n)}"
    then obtain b k where p: "p = (b, k)" and m: "(b, k) \<in> allocated bs" "(b, k) \<noteq> (a, n)" by (cases p) auto
    then have bk: "(b, k) \<in> allocated (xs @ ys)" by (auto simp: bs allocated_iff)
    note bl = heap_ok_block [OF ok m(1) [unfolded allocated_iff]]
    have "{b..<b + k + 17} \<inter> work_area (xs @ ys) (kheap s) = {}"
      using bk bl(2) unfolding work_area_def index_area_def taken_def by fastforce
    then have "same_on (mem s) (mem s') b (b + k + 17)"
      using f(3) bl(5) by (intro only_in_same_on [of "work_area (xs @ ys) (kheap s)"]) (simp_all add: heap_moves_def)
    then show "case p of (a, n) \<Rightarrow> same_on (mem s) (mem s') a (a + n + 17)" by (simp add: p)
  qed
  then show ?thesis using f A by (auto simp: heap_moves_def capacity_def)
qed

text \<open>Freeing a block that was cut from a hole restores the list of blocks.\<close>

lemma release_cut_hole:
  assumes c: "coalesced (xs @ (a, n, True) # ys)" and pl: "placed al sz a n pos" "0 < sz"
  obtains zs ws k where "xs @ cut_hole a n pos sz @ ys = zs @ (pos - 9, k, False) # ws"
    "release zs (pos - 9) k ws = xs @ (a, n, True) # ys" "allocated (cut_hole a n pos sz) = {(pos - 9, k)}"
proof -
  define m where "m = a + 9 + n - pos"
  have pos: "pos = a + 9 \<or> a + 26 < pos" "pos + sz \<le> a + 9 + n"
    using placed_pos [OF pl(1)] pl(1) by (simp_all add: placed_def)
  have ys: "join_right j ys = (j, ys)" for j
    using c by (cases "(j, ys)" rule: join_right.cases) (auto simp: coalesced_append coalesced_Cons)
  obtain k ws where k: "use_split (pos - 9) m sz = (pos - 9, k, False) # ws" "join_right k (ws @ ys) = (m, ys)"
  proof (cases "m - sz \<le> 17")
    case True
    then show ?thesis using that [of m "[]"] ys by (simp add: use_split_def)
  next
    case False
    then show ?thesis using that [of sz "[(pos - 9 + sz + 17, m - sz - 17, True)]"] by (simp add: use_split_def)
  qed
  have left: "join_left (xs @ front_cut a pos) (pos - 9) m = xs @ [(a, n, True)]"
  proof (cases "pos = a + 9")
    case True
    moreover have "xs = [] \<or> \<not> is_hole (last xs)" using c by (auto simp: coalesced_append)
    ultimately show ?thesis by (cases xs rule: rev_cases) (auto simp: front_cut_def join_left_def m_def split: prod.splits)
  next
    case False
    then have "pos - a - 26 + m + 17 = n" using pos pl(2) by (auto simp: m_def)
    then show ?thesis using False by (simp add: front_cut_def)
  qed
  show ?thesis
  proof (rule that [of "xs @ front_cut a pos" k "ws @ ys"])
    show "xs @ cut_hole a n pos sz @ ys = (xs @ front_cut a pos) @ (pos - 9, k, False) # ws @ ys"
      using k(1) by (simp add: cut_hole_def m_def)
    show "release (xs @ front_cut a pos) (pos - 9) k (ws @ ys) = xs @ (a, n, True) # ys"
      using k(2) left by (simp add: release_def)
    show "allocated (cut_hole a n pos sz) = {(pos - 9, k)}"
      using k(1) by (auto simp: cut_hole_def m_def front_cut_def use_split_def split: if_splits)
  qed
qed

text \<open>C13: Freeing a block that was just cut from a hole restores the list of blocks of the heap,
  so the pair of calls leaves no fragmentation.\<close>

theorem alloc_free_restores:
  assumes ok: "heap_ok bs s" and sz: "0 < sz" "sz \<le> max_request" and cap: "card (allocated bs) \<le> capacity s" "0 < capacity s"
    and found: "find_hole (addr sz) al s \<noteq> None"
  shows "\<exists>p s' s''. alloc (addr sz) al s = Some (Inr (p, s')) \<and> free p s' = Inr s'' \<and> heap_ok bs s''"
proof -
  from found find_hole_ok [OF ok, of sz al] sz obtain i a n pos where f:
    "find_hole (addr sz) al s = Some (i, addr pos)" "(a, n, True) \<in> set bs" "i < oa_size (kh_index (kheap s))"
    "elems (kh_index (kheap s)) (mem s) ! unat i = addr a" "fit al sz a n = Some pos" by (auto split: option.splits)
  obtain xs ys where bs: "bs = xs @ (a, n, True) # ys" using split_list [OF f(2)] by blast
  note pl = fit_placed [OF f(5)]
  have room: "room 1 s" by (rule room_allocated [OF ok]) (use cap in \<open>simp add: capacity_def\<close>)
  from alloc_use_ok [OF ok [unfolded bs] f(3,4) pl sz(1) room] obtain s' where u:
    "alloc_use i (addr pos) (addr sz) al s = Inr (addr pos, s')" "heap_ok (xs @ cut_hole a n pos sz @ ys) s'"
    "evolves (index_area (kheap s) \<union> {a..<a + n + 17}) s s'" by blast
  have run: "alloc (addr sz) al s = Some (Inr (addr pos, s'))"
    using addr_positive [of sz] sz f(1) u(1) by (simp add: alloc.simps kheap_assert_def)
  obtain zs ws k where r: "xs @ cut_hole a n pos sz @ ys = zs @ (pos - 9, k, False) # ws"
    "release zs (pos - 9) k ws = xs @ (a, n, True) # ys" "allocated (cut_hole a n pos sz) = {(pos - 9, k)}"
    by (rule release_cut_hole [OF heap_okD(2) [OF ok [unfolded bs]] pl sz(1)])
  have "allocated (xs @ cut_hole a n pos sz @ ys) = insert (pos - 9, k) (allocated bs)" using r(3) by (auto simp: bs)
  then have "card (allocated (xs @ cut_hole a n pos sz @ ys)) \<le> Suc (card (allocated bs))"
    by (simp add: card_insert_if)
  moreover have "oa_max_size (kh_index (kheap s')) = oa_max_size (kh_index (kheap s))"
    by (rule evolves_fields [OF u(3)])
  ultimately have "room 1 s'" using cap by (intro room_allocated [OF u(2)]) (simp add: capacity_def)
  from free_ok [OF u(2) [unfolded r(1)] this] obtain s'' where
    "free (addr (pos - 9 + 9)) s' = Inr s''" "heap_ok bs s''" by (auto simp: r(2) bs)
  moreover have "pos - 9 + 9 = pos" using placed_pos [OF pl] by auto
  ultimately show ?thesis using run by auto
qed

subsection \<open>The kernel's interface\<close>

definition lock_held :: "'a kheap_state_scheme \<Rightarrow> 'a kheap_state_scheme" where
  "lock_held s = s\<lparr>kheap_lock := (kheap_lock s)\<lparr>lock := LOCKED_YES\<rparr>\<rparr>"

lemma lock_kheap_free: "lock (kheap_lock s) = LOCKED_NO \<Longrightarrow> lock_kheap s = Some (lock_held s)"
  by (simp add: lock_kheap_def lock_held_def yieldlock_lock_free del: LOCKED_NO_def LOCKED_YES_def)

lemma lock_held_simps [simp]: "mem (lock_held s) = mem s" "kheap (lock_held s) = kheap s"
  by (simp_all add: lock_held_def)

lemma unlock_kheap_simps [simp]:
  "mem (unlock_kheap s) = mem s" "kheap (unlock_kheap s) = kheap s" "lock (kheap_lock (unlock_kheap s)) = 0"
  by (simp_all add: unlock_kheap_def yieldlock_unlock_def)

lemma capacity_cong: "kheap t = kheap s \<Longrightarrow> capacity t = capacity s"
  by (simp add: capacity_def)

text \<open>What a successful request of \<open>sz\<close> bytes promises.\<close>

definition granted ::
  "u8 \<Rightarrow> nat \<Rightarrow> (nat \<times> nat) set \<Rightarrow> 'a kheap_state_scheme \<Rightarrow> u32 \<Rightarrow> (nat \<times> nat) set \<Rightarrow> 'a kheap_state_scheme \<Rightarrow> bool" where
  "granted al sz A s p A' s' \<longleftrightarrow> (\<exists>a n. p = addr (a + 9) \<and> A' = insert (a, n) A \<and> (a, n) \<notin> A \<and> sz \<le> n \<and>
     (al \<noteq> 0 \<longrightarrow> (a + 9) mod 4096 = 0)) \<and> represents A' s' \<and> unchanged A s s' \<and> capacity s' = capacity s \<and>
     kh_max_address (kheap s') = kh_max_address (kheap s) \<and>
     unat (kh_end_address (kheap s')) \<le> unat (kh_end_address (kheap s)) + growth al sz"

lemma grantedI:
  assumes "p = addr (a + 9)" "A' = insert (a, n) A" "(a, n) \<notin> A" "sz \<le> n" "al \<noteq> 0 \<longrightarrow> (a + 9) mod 4096 = 0"
    "represents A' s'" "unchanged A s s'" "capacity s' = capacity s" "kh_max_address (kheap s') = kh_max_address (kheap s)"
    "unat (kh_end_address (kheap s')) \<le> unat (kh_end_address (kheap s)) + growth al sz"
  shows "granted al sz A s p A' s'"
  unfolding granted_def by (rule conjI, rule exI [of _ a], rule exI [of _ n]) (use assms in simp_all)

lemma kmalloc_impl_correct:
  assumes rep: "represents A s" and sz: "0 < sz" "sz \<le> max_request" and cap: "card A \<le> capacity s" "0 < capacity s"
  shows "(\<exists>p. kmalloc_impl (addr sz) al (lock_held s) = Some (Inl p)) \<and>
      unat (kh_max_address (kheap s)) < unat (kh_end_address (kheap s)) + growth al sz \<or>
    (\<exists>p A' s'. kmalloc_impl (addr sz) al (lock_held s) = Some (Inr (p, s')) \<and> granted al sz A s p A' (unlock_kheap s'))"
proof -
  obtain bs where bs: "heap_ok bs s" "allocated bs = A" using rep by (auto simp: represents_def)
  have ok: "heap_ok bs (lock_held s)" using bs(1) by (simp add: heap_ok_cong [of "lock_held s" s])
  have cap': "card (allocated bs) \<le> capacity (lock_held s)" "0 < capacity (lock_held s)"
    using cap bs(2) by (simp_all add: capacity_def)
  have nz: "addr sz \<noteq> 0" using addr_positive [of sz] sz by auto
  from alloc_total [OF ok sz cap', of al] show ?thesis
  proof (elim disjE exE conjE)
    fix p assume "alloc (addr sz) al (lock_held s) = Some (Inl p)"
      "unat (kh_max_address (kheap (lock_held s))) < unat (kh_end_address (kheap (lock_held s))) + growth al sz"
    then show ?thesis using nz by (simp add: kmalloc_impl_def)
  next
    fix a n bs' s' assume r: "alloc (addr sz) al (lock_held s) = Some (Inr (addr (a + 9), s'))"
      "alloc_result al sz bs (lock_held s) a n bs' s'"
      "unat (kh_end_address (kheap s')) \<le> unat (kh_end_address (kheap (lock_held s))) + growth al sz"
    note r' = r(2) [unfolded alloc_result_def]
    have "(a, n, False) \<in> set bs'" using r' by (simp add: allocated_iff [symmetric])
    then have "a + 9 < 4294967296" using heap_ok_block [of bs' s' a n False] r' by simp
    then have "addr (a + 9) \<noteq> 0" using addr_eq_iff [of "a + 9" 0] by simp
    then have run: "kmalloc_impl (addr sz) al (lock_held s) = Some (Inr (addr (a + 9), s'))"
      using nz r(1) by (simp add: kmalloc_impl_def)
    have "heap_ok bs' (unlock_kheap s')" using r' by (simp add: heap_ok_cong [of "unlock_kheap s'" s'])
    moreover have "unchanged A s (unlock_kheap s')"
      using work_area_unchanged [OF ok, of s'] r' bs(2) by (simp add: unchanged_def)
    moreover have "capacity s' = capacity s" "kh_max_address (kheap s') = kh_max_address (kheap s)"
      using r' by (simp_all add: capacity_def heap_moves_def)
    ultimately have "granted al sz A s (addr (a + 9)) (insert (a, n) A) (unlock_kheap s')"
      using r' r(3) bs(2) by (intro grantedI [of _ a _ n]) (auto simp: represents_def capacity_def)
    with run show ?thesis by blast
  qed
qed

lemma kmalloc_grants:
  assumes "represents A s" "0 < sz" "sz \<le> max_request" "card A \<le> capacity s" "0 < capacity s"
  shows "(\<exists>p. kmalloc (addr sz) s = Some (Inl p)) \<and>
      unat (kh_max_address (kheap s)) < unat (kh_end_address (kheap s)) + growth 0 sz \<or>
    (\<exists>p A' s'. kmalloc (addr sz) s = Some (Inr (p, s')) \<and> granted 0 sz A s p A' s')"
  using kmalloc_impl_correct [OF assms, of 0] assms(1)
  by (auto simp: kmalloc_def lock_kheap_free represents_def)

lemma kmalloc_aligned_grants:
  assumes "represents A s" "0 < sz" "sz \<le> max_request" "card A \<le> capacity s" "0 < capacity s"
  shows "(\<exists>p. kmalloc_aligned (addr sz) s = Some (Inl p)) \<and>
      unat (kh_max_address (kheap s)) < unat (kh_end_address (kheap s)) + growth 1 sz \<or>
    (\<exists>p A' s'. kmalloc_aligned (addr sz) s = Some (Inr (p, s')) \<and> granted 1 sz A s p A' s')"
  using kmalloc_impl_correct [OF assms, of 1] assms(1)
  by (auto simp: kmalloc_aligned_def lock_kheap_free represents_def)

lemma kfree_removes:
  assumes rep: "represents A s" and blk: "(a, n) \<in> A" and cap: "card A \<le> capacity s" "0 < capacity s"
  shows "\<exists>s'. kfree (addr (a + 9)) s = Some (Inr s') \<and> represents (A - {(a, n)}) s' \<and>
    unchanged (A - {(a, n)}) s s' \<and> capacity s' = capacity s \<and>
    kh_max_address (kheap s') = kh_max_address (kheap s) \<and> kh_end_address (kheap s') = kh_end_address (kheap s)"
proof -
  obtain bs where bs: "heap_ok bs s" "allocated bs = A" "lock (kheap_lock s) = LOCKED_NO"
    using rep by (auto simp: represents_def)
  have ok: "heap_ok bs (lock_held s)" using bs(1) by (simp add: heap_ok_cong [of "lock_held s" s])
  have blk': "(a, n) \<in> allocated bs" and cap': "card (allocated bs) \<le> capacity (lock_held s)" "0 < capacity (lock_held s)"
    using cap blk bs(2) by (simp_all add: capacity_def)
  from free_removes [OF ok blk' cap'] obtain bs' s' where f: "free (addr (a + 9)) (lock_held s) = Inr s'"
    "heap_ok bs' s'" "allocated bs' = A - {(a, n)}" "unchanged (A - {(a, n)}) (lock_held s) s'"
    "capacity s' = capacity (lock_held s)" "kh_max_address (kheap s') = kh_max_address (kheap s)"
    "kh_end_address (kheap s') = kh_end_address (kheap s)" using bs(2) by auto
  have "addr (a + 9) \<noteq> 0" using represents_block [OF rep blk] addr_eq_iff [of "a + 9" 0] by simp
  then have "kfree (addr (a + 9)) s = Some (Inr (unlock_kheap s'))"
    using f(1) by (simp add: kfree_def lock_kheap_free [OF bs(3)])
  moreover have "heap_ok bs' (unlock_kheap s')" using f(2) by (simp add: heap_ok_cong [of "unlock_kheap s'" s'])
  ultimately show ?thesis using f(3-7) by (auto simp: represents_def unchanged_def capacity_def)
qed

lemma addr_numeral [simp]: "addr (numeral k) = numeral k"
  by (simp add: addr_def)

end
