(* ===== verification/Kheap_client.thy ===== *)
theory Kheap_client
  imports Kheap_spec
begin

text \<open>
  The heap from its initialisation on: \<open>init_kheap\<close> establishes the empty heap, and any sequence
  of calls and of writes to allocated payloads stays within the abstract allocator, whose state
  is the set of allocated blocks.
\<close>

subsection \<open>Initialisation\<close>

text \<open>
  The words that \<open>free\<close> reads as neighbours outside the blocks: the last slots of the index and
  the first word of each page behind the heap.
\<close>

definition init_guards :: "ram \<Rightarrow> bool" where
  "init_guards m \<longleftrightarrow> load32 m 0xC0C7FFF8 \<noteq> KHEAP_MAGIC \<and>
     (\<forall>p. 0xC0F00000 \<le> p \<longrightarrow> p \<le> 0xE0000000 \<longrightarrow> p mod 4096 = 0 \<longrightarrow> load32 m (addr p) \<noteq> KHEAP_MAGIC)"

lemma index_ok_empty:
  assumes "unat a + 4 * unat n \<le> 4294967296"
  shows "index_ok (ordered_array_create a n kheap_block_comparator) m {}"
  using assms by (auto simp: index_ok_def oa_ok_def ordered_array_create_def elems_def by_size.ascending_def)

lemma init_kheap_ok:
  assumes g: "init_guards (mem s)"
  shows "\<exists>s'. init_kheap s = Inr s' \<and> represents {} s' \<and> capacity s' = 0x1FFFB \<and>
    heap_ok [(0xC0C80000, 0x280000 - 17, True)] s' \<and>
    kh_end_address (kheap s') = 0xC0F00000 \<and> kh_max_address (kheap s') = KHEAP_MAX"
proof -
  define S N :: nat where "S = 0xC0C80000" and "N = 0x280000 - 17"
  define ix where "ix = ordered_array_create 0xC0C00000 0x20000 kheap_block_comparator"
  define kh where "kh = \<lparr>kh_index = ix, kh_start_address = 0xC0C80000, kh_end_address = 0xC0F00000, kh_size = 0x280000,
    kh_max_address = KHEAP_MAX, kh_supervisor = 0, kh_readonly = 0\<rparr>"
  define s0 where "s0 = s\<lparr>kheap_lock := yieldlock_init (kheap_lock s)\<rparr>"
  define s1 where "s1 = s0\<lparr>kheap := kh\<rparr>"
  have ix: "oa_array ix = 0xC0C00000" "oa_max_size ix = 0x20000" "oa_size ix = 0"
    by (simp_all add: ix_def ordered_array_create_def)
  have geo: "geometry kh" by (simp add: geometry_def kh_def ix KHEAP_MAX_def)
  have m: "mem s0 = mem s" by (simp add: s0_def)
  have rep: "heap_rep {} {} s1"
    using g geo index_ok_empty [of "0xC0C00000" "0x20000"]
    by (simp add: heap_rep_def blocks_rep_def s1_def m init_guards_def guarded_def kh_def ix_def KHEAP_MAX_def)
  have ap: "apart S N {}" by (simp add: apart_def)
  have bd: "0 < N" "unat (kh_start_address (kheap s1)) \<le> S" "S + N + 17 \<le> unat (kh_end_address (kheap s1))"
    by (simp_all add: S_def N_def s1_def kh_def)
  from write_block [OF rep order_refl _ ap bd, of True] obtain s2 where w:
    "make_block (addr S) (addr N) 1 s1 = Inr (addr S, s2)" "heap_rep {(S, N, True)} {} s2" "kheap s2 = kh"
    by (auto simp: s1_def)
  have w': "make_block (addr S) (addr N) 1 s0 = Inr (addr S, s0\<lparr>mem := mem s2\<rparr>)" "s2 = s0\<lparr>mem := mem s2, kheap := kh\<rparr>"
    using w(1) make_block_put [of N S 1 s1] make_block_put [of N S 1 s0]
    by (simp_all add: S_def N_def s1_def)
  have "room (Suc 1) s2" by (simp add: room_def w(3) kh_def ix)
  from index_insert_step [OF w(2) _ _ this, of S] obtain s' where i:
    "index_insert (addr S) s2 = (1, s')" "heap_rep {(S, N, True)} {S} s'" "evolves (index_area kh) s2 s'"
    by (auto simp: w(3))
  note K = evolves_fields [OF i(3)]
  obtain ix' m' where o: "ordered_array_insert ix (addr S) (mem s2) = (1, ix', m')"
    and s': "s' = s2\<lparr>mem := m', kheap := kh\<lparr>kh_index := ix'\<rparr>\<rparr>"
    using i(1) by (auto simp: index_insert_def w(3) kh_def split: prod.splits)
  have "init_kheap s = Inr (s0\<lparr>mem := m', kheap := kh\<lparr>kh_index := ix'\<rparr>\<rparr>)"
    unfolding init_kheap_def create_kheap_def Let_def
    using w'(1) o by (simp add: KHEAP_START_def KHEAP_MIN_SIZE_def KHEAP_INDEX_NUM_def kheap_assert_def
        s0_def [symmetric] ix_def [symmetric] kh_def S_def N_def)
  also have "s0\<lparr>mem := m', kheap := kh\<lparr>kh_index := ix'\<rparr>\<rparr> = s'" unfolding s' by (subst w'(2)) simp
  finally have "init_kheap s = Inr s'" .
  moreover have "heap_ok [(S, N, True)] s'"
    using i(2) by (simp add: heap_ok_def K w(3) kh_def) (simp add: S_def N_def)
  moreover have "lock (kheap_lock s') = LOCKED_NO"
    using evolves_lock [OF i(3)] arg_cong [OF w'(2), of kheap_lock] by (simp add: s0_def yieldlock_init_def)
  moreover have "capacity s' = 0x1FFFB" by (simp add: capacity_def K w(3) kh_def ix)
  moreover have "kh_end_address (kheap s') = 0xC0F00000" "kh_max_address (kheap s') = KHEAP_MAX"
    by (simp_all add: K w(3) kh_def)
  ultimately show ?thesis unfolding represents_def S_def N_def by (intro exI [of _ s']) force
qed

subsection \<open>Steps of the heap and its clients\<close>

text \<open>
  The block behind a pointer that was just returned, the calls and the writes of clients as
  steps of the state, and the same events on the set of allocated blocks.
\<close>

definition block_of :: "u32 \<Rightarrow> 'a kheap_state_scheme \<Rightarrow> nat \<times> nat" where
  "block_of p s = (unat p - 9, unat (header_size (mem s) (p - 9)))"

datatype kheap_event = Got u8 nat "nat \<times> nat" | Gave "nat \<times> nat" | Wrote nat u8

inductive kheap_step :: "'a kheap_state_scheme \<Rightarrow> kheap_event \<Rightarrow> 'a kheap_state_scheme \<Rightarrow> bool" where
  kmalloc_step: "kmalloc (addr sz) s = Some (Inr (p, s')) \<Longrightarrow> kheap_step s (Got 0 sz (block_of p s')) s'"
| kmalloc_aligned_step: "kmalloc_aligned (addr sz) s = Some (Inr (p, s')) \<Longrightarrow> kheap_step s (Got 1 sz (block_of p s')) s'"
| kfree_step: "kfree (addr (fst b + 9)) s = Some (Inr s') \<Longrightarrow> kheap_step s (Gave b) s'"
| write_step: "kheap_step s (Wrote x v) (s\<lparr>mem := (mem s)(addr x := v)\<rparr>)"

definition extents_apart :: "nat \<times> nat \<Rightarrow> nat \<times> nat \<Rightarrow> bool" where
  "extents_apart b c \<longleftrightarrow> fst b + snd b + 17 \<le> fst c \<or> fst c + snd c + 17 \<le> fst b"

inductive alloc_step :: "(nat \<times> nat) set \<Rightarrow> kheap_event \<Rightarrow> (nat \<times> nat) set \<Rightarrow> bool" where
  got: "b \<notin> A \<Longrightarrow> sz \<le> snd b \<Longrightarrow> al \<noteq> 0 \<longrightarrow> (fst b + 9) mod 4096 = 0 \<Longrightarrow> \<forall>c \<in> A. extents_apart b c \<Longrightarrow>
    alloc_step A (Got al sz b) (insert b A)"
| gave: "b \<in> A \<Longrightarrow> alloc_step A (Gave b) (A - {b})"
| wrote: "(a, n) \<in> A \<Longrightarrow> a + 9 \<le> x \<Longrightarrow> x < a + 9 + n \<Longrightarrow> alloc_step A (Wrote x v) A"

inductive_simps alloc_step_simps [simp]:
  "alloc_step A (Got al sz b) A'" "alloc_step A (Gave b) A'" "alloc_step A (Wrote x v) A'"

text \<open>What a client may do: it frees and writes only what it owns, and keeps to the capacity of the index.\<close>

fun permitted :: "(nat \<times> nat) set \<Rightarrow> nat \<Rightarrow> kheap_event \<Rightarrow> bool" where
  "permitted A c (Got al sz b) \<longleftrightarrow> 0 < sz \<and> sz \<le> max_request \<and> card A \<le> c \<and> 0 < c"
| "permitted A c (Gave b) \<longleftrightarrow> b \<in> A \<and> card A \<le> c \<and> 0 < c"
| "permitted A c (Wrote x v) \<longleftrightarrow> (\<exists>(a, n) \<in> A. a + 9 \<le> x \<and> x < a + 9 + n)"

text \<open>The bookkeeping of a client: what it believes to own after an event.\<close>

fun owned :: "(nat \<times> nat) set \<Rightarrow> kheap_event \<Rightarrow> (nat \<times> nat) set" where
  "owned A (Got al sz b) = insert b A"
| "owned A (Gave b) = A - {b}"
| "owned A (Wrote x v) = A"

subsection \<open>Refinement\<close>

text \<open>The runs of a system with a client that keeps its books and takes only permitted steps.\<close>

inductive client_run ::
  "('s \<Rightarrow> 'e \<Rightarrow> 's \<Rightarrow> bool) \<Rightarrow> ('a \<Rightarrow> 'e \<Rightarrow> 'a) \<Rightarrow> ('a \<Rightarrow> 's \<Rightarrow> 'e \<Rightarrow> bool) \<Rightarrow> 'a \<Rightarrow> 's \<Rightarrow> 'a \<Rightarrow> 's \<Rightarrow> bool"
  for cstep books permit A0 s0 where
  start: "client_run cstep books permit A0 s0 A0 s0"
| step: "client_run cstep books permit A0 s0 A s \<Longrightarrow> permit A s e \<Longrightarrow> cstep s e s' \<Longrightarrow>
    client_run cstep books permit A0 s0 (books A e) s'"

locale refinement =
  fixes R :: "'a \<Rightarrow> 's \<Rightarrow> bool"
    and astep :: "'a \<Rightarrow> 'e \<Rightarrow> 'a \<Rightarrow> bool"
    and cstep :: "'s \<Rightarrow> 'e \<Rightarrow> 's \<Rightarrow> bool"
    and books :: "'a \<Rightarrow> 'e \<Rightarrow> 'a"
    and permit :: "'a \<Rightarrow> 's \<Rightarrow> 'e \<Rightarrow> bool"
  assumes simulates: "R A s \<Longrightarrow> permit A s e \<Longrightarrow> cstep s e s' \<Longrightarrow> \<exists>A'. astep A e A' \<and> R A' s'"
    and astep_books: "astep A e A' \<Longrightarrow> A' = books A e"
begin

lemma run_represents: "client_run cstep books permit A0 s0 A s \<Longrightarrow> R A0 s0 \<Longrightarrow> R A s"
  by (induction rule: client_run.induct) (use simulates astep_books in \<open>blast+\<close>)

text \<open>An invariant of the abstract system holds of the client's books.\<close>

lemma run_invariant:
  assumes "client_run cstep books permit A0 s0 A s" and init: "R A0 s0" "I A0"
    and inv: "\<And>A e A'. I A \<Longrightarrow> astep A e A' \<Longrightarrow> I A'"
  shows "I A"
  using assms(1)
proof (induction rule: client_run.induct)
  case (step A s e s')
  obtain A' where A': "astep A e A'"
    using simulates [OF run_represents [OF step.hyps(1) init(1)] step.hyps(2,3)] by blast
  show ?case using inv [OF step.IH A'] astep_books [OF A'] by simp
qed (rule init(2))

end

lemma tiles_members_apart:
  assumes "tiles s bs e" "(a, n, h) \<in> set bs" "(b, k, g) \<in> set bs" "(a, n, h) \<noteq> (b, k, g)"
  shows "a + n + 17 \<le> b \<or> b + k + 17 \<le> a"
proof -
  obtain xs ys where bs: "bs = xs @ (a, n, h) # ys" using assms(2) split_list by force
  then have "(b, k, g) \<in> set xs \<union> set ys" using assms(3,4) by auto
  then show ?thesis using tiles_mid(6) [OF assms(1) [unfolded bs]] by (fastforce simp: apart_def)
qed

lemma payload_write:
  assumes rep: "represents A s" and x: "(a, n) \<in> A" "a + 9 \<le> x" "x < a + 9 + n"
  shows "represents A (s\<lparr>mem := (mem s)(addr x := v)\<rparr>)"
proof -
  obtain bs where bs: "heap_ok bs s" "allocated bs = A" "lock (kheap_lock s) = LOCKED_NO"
    using rep by (auto simp: represents_def)
  note d = heap_okD [OF bs(1)] and r = heap_repD [OF heap_okD(1) [OF bs(1)]]
  have blk: "(a, n, False) \<in> set bs" using x(1) bs(2) by (simp add: allocated_iff [symmetric])
  note b = heap_ok_block [OF bs(1) blk]
  have o: "only_in {x} (mem s) ((mem s)(addr x := v))" using x b by (auto simp: only_in_def)
  have apart: "{x} \<inter> {c..<c + 9} = {}" "{x} \<inter> meta_area c k = {}" if "(c, k, g) \<in> set bs" for c k g
  proof -
    have "(c, k, g) = (a, n, False) \<or> a + n + 17 \<le> c \<or> c + k + 17 \<le> a"
      using tiles_members_apart [OF d(3) blk that] by blast
    then show "{x} \<inter> {c..<c + 9} = {}" "{x} \<inter> meta_area c k = {}" using x by (auto simp: meta_area_def)
  qed
  have "blocks_rep (set bs) (s\<lparr>mem := (mem s)(addr x := v)\<rparr>)"
    by (rule blocks_rep_mem [OF r(1) o order_refl]) (use apart b x in auto)
  moreover have "clear_of {x} (kh_index (kheap s)) (holes bs)"
  proof -
    have "oa_ok (kh_index (kheap s))" using d(6) by (simp add: index_ok_def)
    from geometry_bounds(4) [OF d(4) oa_ok_bounds(2) [OF this], of x] have "x \<notin> oa_slots (kh_index (kheap s)) (unat (oa_size (kh_index (kheap s))))"
      using b x by linarith
    then show ?thesis using apart by (auto simp: clear_of_def holes_def)
  qed
  ultimately have "heap_ok bs (s\<lparr>mem := (mem s)(addr x := v)\<rparr>)"
    using bs(1) index_ok_only_in [OF d(6) o] by (simp add: heap_ok_def heap_rep_def)
  then show ?thesis using bs(2,3) by (auto simp: represents_def)
qed

lemma block_of_represents:
  assumes "represents A s" "(a, n) \<in> A"
  shows "block_of (addr (a + 9)) s = (a, n)"
proof -
  obtain bs where bs: "heap_ok bs s" "allocated bs = A" using assms(1) by (auto simp: represents_def)
  then have blk: "(a, n, False) \<in> set bs" using assms(2) by (simp add: allocated_iff [symmetric])
  note b = heap_ok_block [OF bs(1) blk]
  show ?thesis using b(5) block_at_reads(3) [OF b(1)] by (simp add: block_of_def)
qed

lemma granted_alloc_step:
  assumes "granted al sz A s p A' s'"
  shows "alloc_step A (Got al sz (block_of p s')) A'"
proof -
  obtain a n where g: "p = addr (a + 9)" "A' = insert (a, n) A" "(a, n) \<notin> A" "sz \<le> n"
    "al \<noteq> 0 \<longrightarrow> (a + 9) mod 4096 = 0" "represents A' s'" using assms by (auto simp: granted_def)
  have "block_of p s' = (a, n)" unfolding g(1) by (rule block_of_represents [OF g(6)]) (simp add: g(2))
  moreover have "\<forall>c \<in> A. extents_apart (a, n) c"
  proof
    fix c assume c: "c \<in> A"
    obtain b k where bk: "c = (b, k)" by (cases c)
    have "(a, n) \<noteq> (b, k)" using c g(3) bk by auto
    then show "extents_apart (a, n) c"
      using represents_apart [OF g(6), of a n b k] c bk g(2) by (simp add: extents_apart_def)
  qed
  ultimately show ?thesis using g(2-5) by simp
qed

lemma kheap_simulates:
  assumes rep: "represents A s" and ok: "permitted A (capacity s) e" and st: "kheap_step s e s'"
  shows "\<exists>A'. alloc_step A e A' \<and> represents A' s' \<and> capacity s' = capacity s"
  using st
proof cases
  case (kmalloc_step sz p)
  then have "\<exists>A'. granted 0 sz A s p A' s'" using kmalloc_grants [OF rep, of sz] ok by fastforce
  then show ?thesis using granted_alloc_step kmalloc_step(1) by (metis granted_def)
next
  case (kmalloc_aligned_step sz p)
  then have "\<exists>A'. granted 1 sz A s p A' s'" using kmalloc_aligned_grants [OF rep, of sz] ok by fastforce
  then show ?thesis using granted_alloc_step kmalloc_aligned_step(1) by (metis granted_def)
next
  case (kfree_step b)
  obtain a n where b: "b = (a, n)" by (cases b)
  then show ?thesis using kfree_removes [OF rep, of a n] ok kfree_step by auto
next
  case (write_step x v)
  then obtain a n where "(a, n) \<in> A" "a + 9 \<le> x" "x < a + 9 + n" using ok by auto
  then show ?thesis using payload_write [OF rep] write_step by (auto simp: capacity_def)
qed

lemma alloc_step_owned: "alloc_step A e A' \<Longrightarrow> A' = owned A e"
  by (cases e) auto

interpretation kheap: refinement represents alloc_step kheap_step owned "\<lambda>A s. permitted A (capacity s)"
  by unfold_locales (use kheap_simulates alloc_step_owned in \<open>blast+\<close>)

definition all_apart :: "(nat \<times> nat) set \<Rightarrow> bool" where
  "all_apart A \<longleftrightarrow> (\<forall>b \<in> A. \<forall>c \<in> A. b \<noteq> c \<longrightarrow> extents_apart b c)"

lemma alloc_step_apart: "all_apart A \<Longrightarrow> alloc_step A e A' \<Longrightarrow> all_apart A'"
  by (cases e) (auto simp: all_apart_def extents_apart_def)

abbreviation heap_client :: "'a kheap_state_scheme \<Rightarrow> (nat \<times> nat) set \<Rightarrow> 'a kheap_state_scheme \<Rightarrow> bool" where
  "heap_client s0 A s \<equiv> client_run kheap_step owned (\<lambda>A s. permitted A (capacity s)) {} s0 A s"

lemma heap_client_represents:
  assumes "init_guards (mem s)" "init_kheap s = Inr s0" "heap_client s0 A s'"
  shows "represents {} s0" "represents A s'"
proof -
  show "represents {} s0" using init_kheap_ok [OF assms(1)] assms(2) by auto
  then show "represents A s'" by (rule kheap.run_represents [OF assms(3)])
qed



text \<open>C15: init_kheap establishes the invariant of the heap: one hole of 0x280000 bytes less the
  block structures behind the index, no block allocated, and a free lock.\<close>

theorem init_kheap_establishes:
  assumes "init_guards (mem s)"
  shows "\<exists>s'. init_kheap s = Inr s' \<and> heap_ok [(0xC0C80000, 0x280000 - 17, True)] s' \<and> represents {} s'"
  using init_kheap_ok [OF assms] by blast

text \<open>C22: kmalloc, which calls itself after each expansion, returns for every request up to the
  size of the address range, with a block when one expansion fits below the maximum address.\<close>

theorem kmalloc_returns:
  assumes "represents A s" "0 < sz" "sz \<le> max_request" "card A \<le> capacity s" "0 < capacity s"
  shows "(\<exists>r. kmalloc (addr sz) s = Some r) \<and>
    (unat (kh_end_address (kheap s)) + page_up (sz + 17) \<le> unat (kh_max_address (kheap s)) \<longrightarrow>
      (\<exists>a s'. kmalloc (addr sz) s = Some (Inr (addr (a + 9), s'))))"
  using kmalloc_grants [OF assms] by (fastforce simp: granted_def growth_def)

text \<open>C8: kfree of an allocated block returns without a panic; the block leaves the set of
  allocated blocks, the result is a well-formed heap in which no two holes touch, the
  remaining blocks keep their contents, and the lock is free.\<close>

theorem kfree_coalesces:
  assumes ok: "heap_ok bs s" and lock: "lock (kheap_lock s) = LOCKED_NO" and blk: "(a, n) \<in> allocated bs"
    and cap: "card (allocated bs) \<le> capacity s" "0 < capacity s"
  shows "\<exists>bs' s'. kfree (addr (a + 9)) s = Some (Inr s') \<and> heap_ok bs' s' \<and> coalesced bs' \<and>
    allocated bs' = allocated bs - {(a, n)} \<and>
    (\<forall>(b, k) \<in> allocated bs'. same_on (mem s) (mem s') b (b + k + 17)) \<and> lock (kheap_lock s') = LOCKED_NO"
proof -
  have "represents (allocated bs) s" using ok lock by (auto simp: represents_def)
  from kfree_removes [OF this blk cap] obtain s' where s': "kfree (addr (a + 9)) s = Some (Inr s')"
    "represents (allocated bs - {(a, n)}) s'" "unchanged (allocated bs - {(a, n)}) s s'" by blast
  then obtain bs' where "heap_ok bs' s'" "allocated bs' = allocated bs - {(a, n)}" "lock (kheap_lock s') = LOCKED_NO"
    by (auto simp: represents_def)
  then show ?thesis using s'(1,3) heap_okD(2) [of bs' s'] by (intro exI [of _ bs'] exI [of _ s']) (simp add: unchanged_def)
qed

end
