(* ===== verification/Kheap_check.thy ===== *)
theory Kheap_check
  imports Kheap_spec
begin

text \<open>
  \<open>kheap_validate_print\<close> on a well-formed heap: it returns, no assertion fails, and the result is
  the number of allocated blocks. Then two behaviours outside the contract: a request whose size
  plus the size of the block structures wraps to zero never returns, and \<open>kheap_contract\<close>
  enlarges a heap of the initial size.
\<close>

subsection \<open>Validation\<close>

lemma print_block_simps [simp]:
  "mem (print_block fmt h s) = mem s" "kheap (print_block fmt h s) = kheap s"
  "kheap_lock (print_block fmt h s) = kheap_lock s"
  by (simp_all add: print_block_def)

lemma validate_step:
  assumes ok: "heap_ok bs s" and blk: "(a, n, h) \<in> set bs"
  shows "\<exists>s1. validate_loop pr (addr a) k l s =
      validate_loop pr (addr (a + n + 17)) (if h then k + 1 else k) (if h then l else l + 1) s1 \<and>
    mem s1 = mem s \<and> kheap s1 = kheap s \<and> kheap_lock s1 = kheap_lock s"
proof -
  note d = heap_okD [OF ok] and b = heap_ok_block [OF ok blk]
  note rd = block_at_reads [OF b(1)]
  define e where "e = unat (kh_end_address (kheap s))"
  have e: "kh_end_address (kheap s) = addr e" "a + n + 17 \<le> e" "e < 4294967296"
    using b d(7) by (simp_all add: e_def)
  have lt: "addr a < kh_end_address (kheap s)" "addr (a + n + 17) \<le> kh_end_address (kheap s)"
    using e by simp_all
  have idx: "ordered_array_find_element (kh_index (kheap s)) (addr a) (mem s) < oa_size (kh_index (kheap s))" if h
  proof -
    have "addr a \<in> set (elems (kh_index (kheap s)) (mem s))"
      using d(6) blk that by (auto simp: index_ok_def holes_def)
    then show ?thesis by (simp add: find_element_spec)
  qed
  define s1 where "s1 = (if pr = 0 then s
    else if h then print_block ''[]--- start:%x end:%x size: %d\<newline>'' (addr a) s
    else print_block ''      start:%x end:%x size: %d\<newline>'' (addr a) s)"
  have s1: "mem s1 = mem s" "kheap s1 = kheap s" "kheap_lock s1 = kheap_lock s"
    by (simp_all add: s1_def)
  have next_a: "addr a + (addr n + 17) = addr (a + n + 17)" by (simp add: ac_simps)
  have "validate_loop pr (addr a) k l s =
      validate_loop pr (addr (a + n + 17)) (if h then k + 1 else k) (if h then l else l + 1) s1"
    using idx by (subst validate_loop.simps, cases h; cases "pr = 0")
      (simp_all add: lt rd Let_def kheap_assert_def next_a s1_def del: addr_simps)
  with s1 show ?thesis by blast
qed

lemma validate_loop_ok:
  assumes "heap_ok bs s" "tiles a rest (unat (kh_end_address (kheap s)))" "set rest \<subseteq> set bs"
  shows "\<exists>s'. validate_loop pr (addr a) k l s = Some (Inr (k + of_nat (length (filter is_hole rest)),
      l + of_nat (length (filter (\<lambda>b. \<not> is_hole b) rest)), s')) \<and>
    mem s' = mem s \<and> kheap s' = kheap s \<and> kheap_lock s' = kheap_lock s"
  using assms
proof (induction rest arbitrary: a k l s)
  case Nil
  then have "addr a = kh_end_address (kheap s)" by simp
  then show ?case by (subst validate_loop.simps) simp
next
  case (Cons b rest)
  obtain n h where b: "b = (a, n, h)" and t: "tiles (a + n + 17) rest (unat (kh_end_address (kheap s)))"
    using Cons.prems(2) by (cases b) auto
  have blk: "(a, n, h) \<in> set bs" using Cons.prems(3) b by simp
  obtain s1 where s1: "validate_loop pr (addr a) k l s =
      validate_loop pr (addr (a + n + 17)) (if h then k + 1 else k) (if h then l else l + 1) s1"
    "mem s1 = mem s" "kheap s1 = kheap s" "kheap_lock s1 = kheap_lock s"
    using validate_step [OF Cons.prems(1) blk] by blast
  have "heap_ok bs s1" using Cons.prems(1) s1 by (simp add: heap_ok_cong [of s1 s])
  from Cons.IH [OF this, of "a + n + 17" "if h then k + 1 else k" "if h then l else l + 1"] t Cons.prems(3) s1
  show ?case by (simp add: b ac_simps split: if_splits)
qed

lemma kheap_validate_counts:
  assumes ok: "heap_ok bs s"
  shows "\<exists>s'. kheap_validate_print pr s = Some (Inr (of_nat (card (allocated bs)), s')) \<and>
    mem s' = mem s \<and> kheap s' = kheap s \<and> kheap_lock s' = kheap_lock s"
proof -
  note d = heap_okD [OF ok]
  define s1 where "s1 = (if pr \<noteq> 0
    then printk ''*************************** kheap *****************************\<newline>'' [] s else s)"
  have s1: "mem s1 = mem s" "kheap s1 = kheap s" "kheap_lock s1 = kheap_lock s" by (simp_all add: s1_def)
  have "heap_ok bs s1" using ok s1 by (simp add: heap_ok_cong [of s1 s])
  from validate_loop_ok [OF this, of "unat (kh_start_address (kheap s))" bs pr 0 0] d(3) obtain s2 where v:
    "validate_loop pr (kh_start_address (kheap s1)) 0 0 s1 = Some (Inr (of_nat (length (filter is_hole bs)),
      of_nat (length (filter (\<lambda>b. \<not> is_hole b) bs)), s2))"
    "mem s2 = mem s" "kheap s2 = kheap s" "kheap_lock s2 = kheap_lock s" by (auto simp: s1)
  have "of_nat (length (filter is_hole bs)) = oa_size (kh_index (kheap s))"
    by (simp flip: card_holes [OF d(3)] index_size(1) [OF ok])
  then show ?thesis
    using v card_allocated [OF d(3)]
    by (simp add: kheap_validate_print_def s1_def [symmetric] Let_def kheap_assert_def)
qed

subsection \<open>A request that wraps\<close>

definition wrapping_size :: u32 where
  "wrapping_size = 0xFFFFFFEF"

lemma find_hole_wrapping:
  assumes ok: "heap_ok bs s"
  shows "find_hole wrapping_size 0 s = None"
proof -
  define ix m where "ix = kh_index (kheap s)" and "m = mem s"
  have no: "hole_fit 0 wrapping_size m (ordered_array_get ix j m) = None" if j: "j < oa_size ix" for j
  proof -
    have "unat j < length (elems ix m)" using j by (simp add: word_less_nat_alt)
    moreover have "set (elems ix m) = addr ` holes bs" using heap_okD(6) [OF ok] by (simp add: index_ok_def ix_def m_def)
    ultimately have "elems ix m ! unat j \<in> addr ` holes bs" using nth_mem by blast
    then obtain a n where a: "ordered_array_get ix j m = addr a" "(a, n, True) \<in> set bs"
      using ordered_array_get_elems [OF j, of m] by (auto simp: holes_def)
    note b = heap_ok_block [OF ok a(2)]
    have "header_size m (addr a) = addr n" using block_at_reads(3) [OF b(1)] by (simp add: m_def)
    moreover have "\<not> wrapping_size \<le> addr n"
      using b(5) by (simp add: wrapping_size_def word_le_nat_alt)
    ultimately show ?thesis using a(1) by (simp add: hole_fit_def)
  qed
  have "find_hole_from (kheap s) m wrapping_size 0 0 = None"
    using find_hole_from_first [where K = "kheap s" and m = m and sz = wrapping_size and al = 0 and i = 0] no
    by (auto simp: ix_def split: option.splits)
  then show ?thesis by (simp add: find_hole_def m_def)
qed

lemma alloc_grow_wrapping:
  assumes ok: "heap_ok bs s" and last: "is_hole (last bs)" and room: "room 0 s"
  shows "\<exists>s'. alloc_grow wrapping_size s = Inr s' \<and> heap_ok bs s' \<and> room 0 s'"
proof -
  note d = heap_okD [OF ok]
  obtain xs a n where bs: "bs = xs @ [(a, n, True)]"
    using d(8) last by (cases bs rule: rev_cases) auto
  define e where "e = unat (kh_end_address (kheap s))"
  define s1 where "s1 = printk ''kheap expand size = %d, end_address = %p, max_address = %p \<newline>''
    [Word 0, Word (kh_end_address (kheap s)), Word (kh_max_address (kheap s))] s"
  have s1: "mem s1 = mem s" "kheap s1 = kheap s" by (simp_all add: s1_def)
  have ok1: "heap_ok bs s1" using ok s1 by (simp add: heap_ok_cong [of s1 s])
  note d1 = heap_okD [OF ok1]
  have z: "wrapping_size + 17 = 0" by (simp add: wrapping_size_def)
  have x: "kheap_expand (wrapping_size + 17) s = Inr (0, s1)"
    unfolding z by (simp add: kheap_expand_def align_to_page_def s1_def)
  note t = tiles_mid [of _ xs a n True "[]", OF d1(3) [unfolded bs]]
  have an: "a + n + 17 = e" "kh_end_address (kheap s) = addr e"
    using t(2) by (simp_all add: e_def s1)
  have mem_bs: "(a, n, True) \<in> set bs" by (simp add: bs)
  note b = heap_ok_block [OF ok1 mem_bs] and rd = block_at_reads [OF heap_ok_block(1) [OF ok1 mem_bs]]
  have f8: "addr e - 8 = addr (a + 9 + n)" by (simp add: ac_simps flip: an(1))
  have H: "holes bs - {a} = holes xs" "a \<in> holes bs"
    using apart_not_member [OF t(6), of a] holes_subset [of xs] by (auto simp: bs)
  have C: "set xs \<subseteq> set bs" "holes bs - {a} \<subseteq> fst ` set xs" "apart a n (set xs)"
    using holes_subset [of xs] t(6) unfolding H by (auto simp: bs)
  have room1: "room 0 s1" using room s1 by (simp add: room_def)
  from merge_step [OF d1(1) H(2) C b(4,2,3) room1] obtain s2 s3 where m:
    "make_block (addr a) (addr n) 1 s1 = Inr (addr a, s2)" "index_remove_element (addr a) s2 = (1, s3)"
    "heap_rep (insert (a, n, True) (set xs)) (holes xs) s3"
    "evolves (index_area (kheap s1) \<union> meta_area a n) s1 s3" "room (Suc 0) s3" unfolding H(1) by blast
  note K3 = evolves_fields [OF m(4)]
  have "a \<notin> holes xs" using H(1) by blast
  from index_insert_step [OF m(3) _ this m(5)] obtain s4 where i:
    "index_insert (addr a) s3 = (1, s4)" "heap_rep (insert (a, n, True) (set xs)) (insert a (holes xs)) s4"
    "evolves (index_area (kheap s3)) s3 s4" "room 0 s4" by auto
  note K4 = evolves_fields [OF i(3)]
  have "alloc_grow wrapping_size s = Inr s4"
    unfolding alloc_grow_def BLOCK_META_SIZE_def x FOOTER_SIZE_def an(2) Let_def f8
    using rd(2,3,5) m(1,2) i(1) by (simp add: kheap_assert_def f8)
  moreover have "heap_ok bs s4"
    using i(2) d1(2,3) by (simp add: heap_ok_def bs K4 K3 s1)
  ultimately show ?thesis using i(4) by blast
qed

lemma alloc_wrapping_diverges:
  assumes "heap_ok bs s" "is_hole (last bs)" "room 0 s"
  shows "alloc wrapping_size 0 s = None"
proof (rule ccontr)
  assume "alloc wrapping_size 0 s \<noteq> None"
  then obtain r where "alloc wrapping_size 0 s = Some r" by blast
  then have "\<not> (wrapping_size = wrapping_size \<and> (0 :: u8) = 0 \<and> (\<exists>bs. heap_ok bs s \<and> is_hole (last bs) \<and> room 0 s))"
  proof (rule alloc.raw_induct [where P = "\<lambda>sz al s r. \<not> (sz = wrapping_size \<and> al = 0 \<and>
      (\<exists>bs. heap_ok bs s \<and> is_hole (last bs) \<and> room 0 s))", rotated])
    fix f sz al s r
    assume IH: "\<And>sz al s r. f sz al s = Some r \<Longrightarrow>
        \<not> (sz = wrapping_size \<and> al = 0 \<and> (\<exists>bs. heap_ok bs s \<and> is_hole (last bs) \<and> room 0 s))"
      and r: "(case kheap_assert (0 < sz) ''alloc'' 152 s of Inl p \<Rightarrow> Some (Inl p)
        | Inr s \<Rightarrow> (case find_hole sz al s of
            None \<Rightarrow> (case alloc_grow sz s of Inl p \<Rightarrow> Some (Inl p) | Inr s \<Rightarrow> f sz al s)
          | Some (i, p) \<Rightarrow> Some (alloc_use i p sz al s))) = Some r"
    show "\<not> (sz = wrapping_size \<and> al = 0 \<and> (\<exists>bs. heap_ok bs s \<and> is_hole (last bs) \<and> room 0 s))"
    proof
      assume "sz = wrapping_size \<and> al = 0 \<and> (\<exists>bs. heap_ok bs s \<and> is_hole (last bs) \<and> room 0 s)"
      then obtain bs where h: "sz = wrapping_size" "al = 0" "heap_ok bs s" "is_hole (last bs)" "room 0 s" by blast
      obtain s' where s': "alloc_grow wrapping_size s = Inr s'" "heap_ok bs s'" "room 0 s'"
        using alloc_grow_wrapping [OF h(3-5)] by blast
      have "f wrapping_size 0 s' = Some r"
        using r find_hole_wrapping [OF h(3)] s'(1) h(1,2) by (simp add: kheap_assert_def wrapping_size_def)
      then show False using IH s' h(4) by blast
    qed
  qed
  then show False using assms by blast
qed

text \<open>C23: A request of 0xFFFFFFEF bytes never returns when the last block of the heap is a hole:
  its size plus the block structures wraps to zero, the expansion adds nothing, and alloc
  tries again for ever.\<close>

theorem kmalloc_huge_never_returns:
  assumes "heap_ok bs s" "is_hole (last bs)" "lock (kheap_lock s) = LOCKED_NO"
    "card (allocated bs) \<le> capacity s" "0 < capacity s"
  shows "kmalloc 0xFFFFFFEF s = None"
proof -
  have "heap_ok bs (lock_held s)" using assms(1) by (simp add: heap_ok_cong [of "lock_held s" s])
  moreover have "room 0 (lock_held s)"
    by (rule room_allocated [OF calculation]) (use assms(4,5) in \<open>simp add: capacity_def\<close>)
  ultimately have "alloc wrapping_size 0 (lock_held s) = None" by (rule alloc_wrapping_diverges [OF _ assms(2)])
  then show ?thesis
    by (simp add: kmalloc_def lock_kheap_free [OF assms(3)] kmalloc_impl_def wrapping_size_def)
qed

subsection \<open>Contraction\<close>

text \<open>\<open>KHEAP_MIN_SIZE\<close> bounds the size without the index, while \<open>init_kheap\<close> counts the index into it.\<close>

theorem kheap_contract_enlarges:
  assumes "kh_size (kheap s) = KHEAP_MIN_SIZE - 4 * KHEAP_INDEX_NUM" "0 < c" "c \<le> 0x1000"
  shows "kh_size (kheap (snd (kheap_contract c s))) = kh_size (kheap s) + 4 * KHEAP_INDEX_NUM"
proof -
  have c: "c = addr (unat c)" "0 < unat c" "unat c \<le> 4096"
    using assms(2,3) by (simp_all add: word_less_nat_alt word_le_nat_alt)
  have "page_up (unat c) = 4096" using c(2,3) by (intro page_up_unique) auto
  then have "align_to_page c = 0x1000" using align_to_page_addr [of "unat c"] c(3) by simp
  then show ?thesis using assms(1)
    by (simp add: kheap_contract_def Let_def KHEAP_MIN_SIZE_def KHEAP_INDEX_NUM_def)
qed

end
