(* ===== verification/Kheap_tests.thy ===== *)
theory Kheap_tests
  imports Kheap_client Kheap_check
begin

text \<open>
  The tests at the end of \<open>kheap.c\<close>. \<open>kheap_killer\<close> allocates and frees in fixed patterns and
  asserts after each call that \<open>kheap_validate_print\<close> finds the expected number of blocks. On a
  fresh heap with room for the blocks it returns, so that no assertion of the heap fails.
\<close>

subsection \<open>The tests\<close>

text \<open>A \<open>for\<close> loop whose counter runs from \<open>i\<close> over \<open>n\<close> values.\<close>

primrec for_run :: "nat \<Rightarrow> nat \<Rightarrow> (nat \<Rightarrow> 'x \<Rightarrow> ('p, 'x) run) \<Rightarrow> 'x \<Rightarrow> ('p, 'x) run" where
  "for_run 0 i body x = Some (Inr x)"
| "for_run (Suc n) i body x = run_bind (body i x) (for_run n (Suc i) body)"

definition store_byte :: "u32 \<Rightarrow> u8 \<Rightarrow> 'a kheap_state_scheme \<Rightarrow> 'a kheap_state_scheme" where
  "store_byte p v s = s\<lparr>mem := store8 (mem s) p v\<rparr>"

definition kheap_test :: "'a kheap_state_scheme \<Rightarrow> ('a kheap_state_scheme, 'a kheap_state_scheme) run" where
  "kheap_test s =
     run_bind (kmalloc 32 s) (\<lambda>(ptr, s). let s = store_byte ptr 100 s in
     run_bind (kmalloc 200 s) (\<lambda>(ptr1, s). let s = store_byte ptr1 101 s in
     run_bind (kmalloc_aligned (4096 * 2) s) (\<lambda>(ptr2, s). let s = store_byte ptr2 200 s in
     run_bind (kfree ptr s) (\<lambda>s.
     run_bind (kmalloc 14 s) (\<lambda>(ptr, s). let s = store_byte ptr 100 s in
     run_bind (kmalloc 1 s) (\<lambda>(ptr3, s). let s = store_byte ptr3 5 s in
     run_bind (kmalloc_aligned (4096 * 10) s) (\<lambda>(ptr4, s). let s = store_byte ptr4 200 s in
     run_bind (kfree ptr s) (\<lambda>s.
     run_bind (kfree ptr1 s) (\<lambda>s.
     run_bind (kfree ptr2 s) (\<lambda>s.
     run_bind (kfree ptr3 s) (\<lambda>s.
     run_bind (kfree ptr4 s) (\<lambda>s.
     run_bind (kmalloc 32 s) (\<lambda>(ptr, s).
     run_bind (kmalloc 2621374 s) (\<lambda>(ptr1, s).
     run_bind (kmalloc 2 s) (\<lambda>(ptr2, s).
     run_bind (kmalloc 1 s) (\<lambda>(ptr3, s).
     run_bind (kmalloc 10 s) (\<lambda>(ptr4, s).
     run_bind (kheap_validate_print 1 s) (\<lambda>(_, s). Some (Inr s)))))))))))))))))))"

text \<open>\<open>ASSERT(kheap_validate_print(print) == expected)\<close> in \<open>kheap_killer\<close>.\<close>

definition check_count ::
  "u8 \<Rightarrow> u32 \<Rightarrow> nat \<Rightarrow> 'a kheap_state_scheme \<Rightarrow> ('a kheap_state_scheme, 'a kheap_state_scheme) run" where
  "check_count print expected line s =
     run_bind (kheap_validate_print print s)
       (\<lambda>(n, s). Some (kheap_assert (n = expected) ''kheap_killer'' line s))"

text \<open>The two kinds of steps of its loops, on the array of pointers and the state.\<close>

definition killer_alloc ::
  "bool \<Rightarrow> nat \<Rightarrow> u32 \<Rightarrow> nat \<Rightarrow> (nat \<Rightarrow> u32) \<times> 'a kheap_state_scheme \<Rightarrow>
   ('a kheap_state_scheme, (nat \<Rightarrow> u32) \<times> 'a kheap_state_scheme) run" where
  "killer_alloc aligned idx expected line = (\<lambda>(ptrs, s).
     let (random, s) = rand_range 1 1000 s
     in run_bind (if aligned then kmalloc_aligned random s else kmalloc random s) (\<lambda>(p, s).
        run_bind (check_count 0 expected line s) (\<lambda>s. Some (Inr (ptrs(idx := p), s)))))"

definition killer_free ::
  "nat \<Rightarrow> u32 \<Rightarrow> nat \<Rightarrow> (nat \<Rightarrow> u32) \<times> 'a kheap_state_scheme \<Rightarrow>
   ('a kheap_state_scheme, (nat \<Rightarrow> u32) \<times> 'a kheap_state_scheme) run" where
  "killer_free idx expected line = (\<lambda>(ptrs, s).
     run_bind (kfree (ptrs idx) s) (\<lambda>s.
     run_bind (check_count 0 expected line s) (\<lambda>s. Some (Inr (ptrs, s)))))"

definition killer_size :: nat where
  "killer_size = 200"

text \<open>One round of the outer loop; the array starts with the content of the stack.\<close>

definition killer_round ::
  "nat \<Rightarrow> 'a kheap_state_scheme \<Rightarrow> ('a kheap_state_scheme, 'a kheap_state_scheme) run" where
  "killer_round loop s =
     (let size = killer_size; n = (\<lambda>k. of_nat k :: u32)
      in run_bind (for_run size 0 (\<lambda>i. killer_alloc (i mod 5 = 1) i (n (i + 1)) 417) (\<lambda>_. stale_word s, s)) (\<lambda>x.
         run_bind (for_run (size div 2) 0 (\<lambda>i. killer_free (i * 2) (n (size - (i + 1))) 424) x) (\<lambda>x.
         run_bind (for_run size 0 (\<lambda>i. killer_alloc (i mod 5 \<ge> 2) (i + size) (n (size div 2 + (i + 1))) 439) x) (\<lambda>x.
         run_bind (for_run (size div 2) 0 (\<lambda>i. killer_free (size + i * 2 + 1) (n (size div 2 * 3 - (i + 1))) 446) x) (\<lambda>x.
         run_bind (for_run (size div 2) 0 (\<lambda>i. killer_free (i * 2 + 1) (n (size - (i + 1))) 451) x) (\<lambda>x.
         run_bind (for_run (size div 2) 0 (\<lambda>i. killer_free (size + i * 2) (n (size div 2 - (i + 1))) 456) x) (\<lambda>(_, s).
         run_bind (check_count 0 0 459 s) (\<lambda>s. Some (Inr (rand_seed_with_time s))))))))))"

definition kheap_killer :: "'a kheap_state_scheme \<Rightarrow> ('a kheap_state_scheme, 'a kheap_state_scheme) run" where
  "kheap_killer s =
     (let s = printk ''kheap stress test ... '' [] (rand_seed 5 s)
      in run_bind (for_run 5 0 killer_round s) (\<lambda>s.
           let s = printk ''OK\<newline>'' [] s
           in check_count 1 0 466 s))"

subsection \<open>Live pointers\<close>

text \<open>
  The pointers at the positions \<open>I\<close> of the array are the live blocks of the heap, which can still
  grow by \<open>b\<close> times the most that a request of at most 1000 bytes may take.
\<close>

definition live :: "(nat \<Rightarrow> u32) \<Rightarrow> nat set \<Rightarrow> nat \<Rightarrow> 'a kheap_state_scheme \<Rightarrow> bool" where
  "live ptrs I b s \<longleftrightarrow> finite I \<and> 1000 \<le> capacity s \<and>
     unat (kh_end_address (kheap s)) + 8192 * b \<le> unat (kh_max_address (kheap s)) \<and>
     (\<exists>f. represents (f ` I) s \<and> inj_on f I \<and> (\<forall>i \<in> I. ptrs i = addr (fst (f i) + 9)))"

lemma represents_cong:
  "mem t = mem s \<Longrightarrow> kheap t = kheap s \<Longrightarrow> kheap_lock t = kheap_lock s \<Longrightarrow> represents A t = represents A s"
  using heap_ok_cong [of t s] by (simp add: represents_def)

lemma live_cong:
  "mem t = mem s \<Longrightarrow> kheap t = kheap s \<Longrightarrow> kheap_lock t = kheap_lock s \<Longrightarrow> live ptrs I b t = live ptrs I b s"
  using represents_cong [of t s] by (simp add: live_def capacity_def)

lemma growth_small: "sz \<le> 1000 \<Longrightarrow> growth al sz \<le> 8192"
proof -
  assume "sz \<le> 1000"
  then have "page_up (sz + 17) = 4096" by (intro page_up_unique) auto
  then show ?thesis by (simp add: growth_def)
qed

lemma granted_live:
  assumes lv: "live ptrs I (Suc b) s" and j: "j \<notin> I" and sz: "sz \<le> 1000"
    and f: "represents (f ` I) s" "inj_on f I" "\<forall>i \<in> I. ptrs i = addr (fst (f i) + 9)"
    and g: "granted al sz (f ` I) s p A' s'"
  shows "live (ptrs(j := p)) (insert j I) b s'"
proof -
  obtain a n where an: "p = addr (a + 9)" "A' = insert (a, n) (f ` I)" "(a, n) \<notin> f ` I"
    using g by (auto simp: granted_def)
  have s': "represents A' s'" "capacity s' = capacity s" "kh_max_address (kheap s') = kh_max_address (kheap s)"
    "unat (kh_end_address (kheap s')) \<le> unat (kh_end_address (kheap s)) + 8192"
    using g growth_small [OF sz, of al] by (auto simp: granted_def)
  define g where "g = f(j := (a, n))"
  have same: "g i = f i" if "i \<in> I" for i using that j by (auto simp: g_def)
  then have img: "g ` I = f ` I" by (intro image_cong) simp_all
  have gj: "g j = (a, n)" by (simp add: g_def)
  have rep: "represents (g ` insert j I) s'" using s'(1) an(2) img gj by simp
  have "inj_on g I" using f(2) same inj_on_cong by metis
  then have inj: "inj_on g (insert j I)" using an(3) img gj j by simp
  have ptrs: "\<forall>i \<in> insert j I. (ptrs(j := p)) i = addr (fst (g i) + 9)"
    using f(3) an(1) j gj same by auto
  have "finite I" "1000 \<le> capacity s" "unat (kh_end_address (kheap s)) + 8192 * Suc b \<le> unat (kh_max_address (kheap s))"
    using lv unfolding live_def by blast+
  then have "finite (insert j I)" "1000 \<le> capacity s'"
    "unat (kh_end_address (kheap s')) + 8192 * b \<le> unat (kh_max_address (kheap s'))"
    using s' by simp_all
  then show ?thesis unfolding live_def using rep inj ptrs by blast
qed

lemma live_alloc:
  assumes lv: "live ptrs I (Suc b) s" and j: "j \<notin> I" and c: "card I \<le> 400" and sz: "0 < sz" "sz \<le> 1000"
  shows "\<exists>p s'. (if al then kmalloc_aligned (addr sz) s else kmalloc (addr sz) s) = Some (Inr (p, s')) \<and>
    live (ptrs(j := p)) (insert j I) b s'"
proof -
  obtain f where f: "represents (f ` I) s" "inj_on f I" "\<forall>i \<in> I. ptrs i = addr (fst (f i) + 9)"
    using lv by (auto simp: live_def)
  have cap: "card (f ` I) \<le> capacity s" "0 < capacity s"
    using lv c card_image [OF f(2)] by (auto simp: live_def)
  have fits: "\<not> unat (kh_max_address (kheap s)) < unat (kh_end_address (kheap s)) + growth x sz" for x
    using lv growth_small [OF sz(2), of x] by (simp add: live_def)
  have big: "sz \<le> max_request" using sz by simp
  show ?thesis
    using kmalloc_grants [OF f(1) sz(1) big cap] kmalloc_aligned_grants [OF f(1) sz(1) big cap] fits
      granted_live [OF lv j sz(2) f] by (cases al) fastforce+
qed

lemma live_free:
  assumes lv: "live ptrs I b s" and j: "j \<in> I" and c: "card I \<le> 400"
  shows "\<exists>s'. kfree (ptrs j) s = Some (Inr s') \<and> live ptrs (I - {j}) b s'"
proof -
  obtain f where f: "represents (f ` I) s" "inj_on f I" "\<forall>i \<in> I. ptrs i = addr (fst (f i) + 9)"
    using lv by (auto simp: live_def)
  have cap: "card (f ` I) \<le> capacity s" "0 < capacity s"
    using lv c card_image [OF f(2)] by (auto simp: live_def)
  obtain a n where an: "f j = (a, n)" by (cases "f j")
  then have "(a, n) \<in> f ` I" using j by (metis imageI)
  from kfree_removes [OF f(1) this cap] obtain s' where s': "kfree (addr (a + 9)) s = Some (Inr s')"
    "represents (f ` I - {(a, n)}) s'" "capacity s' = capacity s" "kh_max_address (kheap s') = kh_max_address (kheap s)"
    "kh_end_address (kheap s') = kh_end_address (kheap s)" by blast
  have "f ` (I - {j}) = f ` I - {(a, n)}" using inj_on_image_set_diff [OF f(2), of I "{j}"] j an by simp
  moreover have "inj_on f (I - {j})" by (rule inj_on_subset [OF f(2)]) blast
  ultimately have "live ptrs (I - {j}) b s'"
    using lv s' f(3) unfolding live_def by (intro conjI exI [of _ f]) simp_all
  then show ?thesis using s'(1) f(3) j an by auto
qed

lemma live_check:
  assumes lv: "live ptrs I b s" and c: "of_nat (card I) = expected"
  shows "\<exists>s'. check_count pr expected line s = Some (Inr s') \<and> live ptrs I b s'"
proof -
  obtain f where f: "represents (f ` I) s" "inj_on f I" using lv by (auto simp: live_def)
  then obtain bs where bs: "heap_ok bs s" "allocated bs = f ` I" by (auto simp: represents_def)
  obtain s' where s': "kheap_validate_print pr s = Some (Inr (expected, s'))" "mem s' = mem s" "kheap s' = kheap s"
    "kheap_lock s' = kheap_lock s"
    using kheap_validate_counts [OF bs(1), of pr] bs(2) card_image [OF f(2)] c by auto
  have "live ptrs I b s'" using lv live_cong [OF s'(2-4)] by simp
  then show ?thesis using s'(1) by (simp add: check_count_def kheap_assert_def)
qed

subsection \<open>The loops\<close>

lemma for_run_invariant:
  assumes "P i x" "\<And>j x. i \<le> j \<Longrightarrow> j < i + n \<Longrightarrow> P j x \<Longrightarrow> \<exists>x'. body j x = Some (Inr x') \<and> P (Suc j) x'"
  shows "\<exists>x'. for_run n i body x = Some (Inr x') \<and> P (i + n) x'"
  using assms
proof (induction n arbitrary: i x)
  case (Suc n)
  obtain x1 where x1: "body i x = Some (Inr x1)" "P (Suc i) x1" using Suc.prems(2) [of i x] Suc.prems(1) by auto
  have "\<exists>x'. for_run n (Suc i) body x1 = Some (Inr x') \<and> P (Suc i + n) x'"
    by (rule Suc.IH [OF x1(2)]) (use Suc.prems(2) in auto)
  then show ?case using x1(1) by simp
qed simp

lemma rand_range_1000:
  "\<exists>sz s1. rand_range 1 1000 s = (addr sz, s1) \<and> 0 < sz \<and> sz \<le> 1000 \<and>
     mem s1 = mem s \<and> kheap s1 = kheap s \<and> kheap_lock s1 = kheap_lock s" for s :: "'a kheap_state_scheme"
proof -
  obtain r s1 where r: "rand_range 1 1000 s = (r, s1)" by (cases "rand_range 1 1000 s")
  have "1 \<le> r" "r < 1000" using rand_range_in [of 1 1000 s] r by simp_all
  then have "0 < unat r" "unat r \<le> 1000" by (simp_all add: word_le_nat_alt word_less_nat_alt)
  moreover have "mem s1 = mem s \<and> kheap s1 = kheap s \<and> kheap_lock s1 = kheap_lock s"
    using r by (auto simp: rand_range_def rand_def rand_seed_with_time_def rand_seed_def Let_def)
  ultimately show ?thesis using r by (intro exI [of _ "unat r"] exI [of _ s1]) simp
qed

lemma killer_alloc_ok:
  assumes lv: "live ptrs I (Suc b) s" and j: "j \<notin> I" and c: "card I < 400" "expected = of_nat (card I + 1)"
  shows "\<exists>ptrs' s'. killer_alloc al j expected line (ptrs, s) = Some (Inr (ptrs', s')) \<and> live ptrs' (insert j I) b s'"
proof -
  obtain sz s1 where r: "rand_range 1 1000 s = (addr sz, s1)" "0 < sz" "sz \<le> 1000"
    "mem s1 = mem s" "kheap s1 = kheap s" "kheap_lock s1 = kheap_lock s" using rand_range_1000 [of s] by blast
  have lv1: "live ptrs I (Suc b) s1" using lv live_cong [OF r(4-6)] by simp
  have c': "card I \<le> 400" using c by simp
  obtain p s2 where p: "(if al then kmalloc_aligned (addr sz) s1 else kmalloc (addr sz) s1) = Some (Inr (p, s2))"
    "live (ptrs(j := p)) (insert j I) b s2" using live_alloc [OF lv1 j c' r(2,3)] by blast
  have "card (insert j I) = card I + 1" using lv j by (simp add: live_def)
  with live_check [OF p(2)] c(2) obtain s3 where "check_count 0 expected line s2 = Some (Inr s3)"
    "live (ptrs(j := p)) (insert j I) b s3" by metis
  then show ?thesis using r(1) p(1) by (simp add: killer_alloc_def split del: if_split)
qed

lemma killer_free_ok:
  assumes lv: "live ptrs I b s" and j: "j \<in> I" and c: "card I \<le> 400" "expected = of_nat (card I - 1)"
  shows "\<exists>s'. killer_free j expected line (ptrs, s) = Some (Inr (ptrs, s')) \<and> live ptrs (I - {j}) b s'"
proof -
  obtain s1 where s1: "kfree (ptrs j) s = Some (Inr s1)" "live ptrs (I - {j}) b s1"
    using live_free [OF lv j c(1)] by blast
  have "card (I - {j}) = card I - 1" using lv j by (simp add: live_def)
  with live_check [OF s1(2)] c(2) obtain s2 where "check_count 0 expected line s1 = Some (Inr s2)"
    "live ptrs (I - {j}) b s2" by metis
  then show ?thesis using s1(1) by (simp add: killer_free_def)
qed

lemma alloc_loop:
  fixes s :: "'a kheap_state_scheme"
  assumes lv: "live ptrs I (b + n) s" and g: "inj_on g {..<n}" "g ` {..<n} \<inter> I = {}" and c: "card I = c" "c + n \<le> 400"
  shows "\<exists>ptrs' s'. for_run n 0 (\<lambda>i. killer_alloc (al i) (g i) (of_nat (c + (i + 1))) line) (ptrs, s) = Some (Inr (ptrs', s')) \<and>
    live ptrs' (I \<union> g ` {..<n}) b s' \<and> card (I \<union> g ` {..<n}) = c + n"
proof -
  define P :: "nat \<Rightarrow> (nat \<Rightarrow> u32) \<times> 'a kheap_state_scheme \<Rightarrow> bool" where "P = (\<lambda>i (ptrs, s). i \<le> n \<and> live ptrs (I \<union> g ` {..<i}) (b + n - i) s)"
  have card: "card (I \<union> g ` {..<i}) = c + i" if "i \<le> n" for i
  proof -
    have "g ` {..<i} \<subseteq> g ` {..<n}" using that by auto
    then have "g ` {..<i} \<inter> I = {}" using g(2) by blast
    moreover have "inj_on g {..<i}" using g(1) that by (auto intro: inj_on_subset)
    moreover have "finite I" using lv by (simp add: live_def)
    ultimately have "inj_on g {..<i}" "g ` {..<i} \<inter> I = {}" "finite I" by blast+
    then show ?thesis using c(1) by (subst card_Un_disjoint) (auto simp: card_image)
  qed
  have "\<exists>x'. for_run n 0 (\<lambda>i. killer_alloc (al i) (g i) (of_nat (c + (i + 1))) line) (ptrs, s) = Some (Inr x') \<and> P (0 + n) x'"
  proof (rule for_run_invariant)
    show "P 0 (ptrs, s)" using lv by (simp add: P_def)
    fix i x assume i: "0 \<le> i" "i < 0 + n" "P i x"
    obtain ps t where x: "x = (ps, t)" by (cases x)
    have lt: "live ps (I \<union> g ` {..<i}) (Suc (b + n - Suc i)) t"
      using i x by (simp add: P_def Suc_diff_Suc)
    have new: "g i \<notin> I \<union> g ` {..<i}" using g i by (force simp: inj_on_def)
    have ci: "card (I \<union> g ` {..<i}) < 400"
      "of_nat (c + (i + 1)) = (of_nat (card (I \<union> g ` {..<i}) + 1) :: u32)" using card [of i] i c(2) by simp_all
    have "insert (g i) (I \<union> g ` {..<i}) = I \<union> g ` {..<Suc i}" by (auto simp: lessThan_Suc)
    with killer_alloc_ok [OF lt new ci] i(2) show "\<exists>x'. killer_alloc (al i) (g i) (of_nat (c + (i + 1))) line x = Some (Inr x') \<and> P (Suc i) x'"
      unfolding x by (fastforce simp: P_def)
  qed
  then show ?thesis using card [of n] by (auto simp: P_def)
qed

lemma free_loop:
  fixes s :: "'a kheap_state_scheme"
  assumes lv: "live ptrs I b s" and g: "inj_on g {..<n}" "g ` {..<n} \<subseteq> I" and c: "card I = c" "c \<le> 400"
  shows "\<exists>s'. for_run n 0 (\<lambda>i. killer_free (g i) (of_nat (c - (i + 1))) line) (ptrs, s) = Some (Inr (ptrs, s')) \<and>
    live ptrs (I - g ` {..<n}) b s' \<and> card (I - g ` {..<n}) = c - n"
proof -
  define P :: "nat \<Rightarrow> (nat \<Rightarrow> u32) \<times> 'a kheap_state_scheme \<Rightarrow> bool" where "P = (\<lambda>i (ps, s). i \<le> n \<and> ps = ptrs \<and> live ptrs (I - g ` {..<i}) b s)"
  have card: "card (I - g ` {..<i}) = c - i" if "i \<le> n" for i
  proof -
    have "inj_on g {..<i}" "g ` {..<i} \<subseteq> I" using g that by (auto intro: inj_on_subset)
    then show ?thesis using c(1) by (simp add: card_Diff_subset card_image)
  qed
  have "\<exists>x'. for_run n 0 (\<lambda>i. killer_free (g i) (of_nat (c - (i + 1))) line) (ptrs, s) = Some (Inr x') \<and> P (0 + n) x'"
  proof (rule for_run_invariant)
    show "P 0 (ptrs, s)" using lv by (simp add: P_def)
    fix i x assume i: "0 \<le> i" "i < 0 + n" "P i x"
    obtain t where x: "x = (ptrs, t)" "live ptrs (I - g ` {..<i}) b t" using i(3) by (cases x) (auto simp: P_def)
    have old: "g i \<in> I - g ` {..<i}" using g i by (force simp: inj_on_def)
    have ci: "card (I - g ` {..<i}) \<le> 400"
      "of_nat (c - (i + 1)) = (of_nat (card (I - g ` {..<i}) - 1) :: u32)" using card [of i] i c(2) by simp_all
    have "I - g ` {..<i} - {g i} = I - g ` {..<Suc i}" by (auto simp: lessThan_Suc)
    with killer_free_ok [OF x(2) old ci] i(2) show "\<exists>x'. killer_free (g i) (of_nat (c - (i + 1))) line x = Some (Inr x') \<and> P (Suc i) x'"
      unfolding x(1) by (fastforce simp: P_def)
  qed
  then show ?thesis using card [of n] by (auto simp: P_def)
qed

lemma live_empty: "live ptrs {} b s \<Longrightarrow> live ptrs' {} b s"
  by (simp add: live_def)

lemma killer_round_ok:
  assumes "live ptrs {} (b + 400) s"
  shows "\<exists>s'. killer_round loop s = Some (Inr s') \<and> live ptrs {} b s'"
proof -
  let ?n = "\<lambda>k. of_nat k :: u32"
  have lv0: "live (\<lambda>_. stale_word s) {} (b + 200 + 200) s" using live_empty [OF assms] by (simp add: add.assoc)
  have "inj_on (\<lambda>i::nat. i) {..<200}" "(\<lambda>i. i) ` {..<200} \<inter> {} = ({} :: nat set)" by simp_all
  from alloc_loop [OF lv0 this, of 0 "\<lambda>i. i mod 5 = 1" 417] obtain p1 s1 where l1:
    "for_run 200 0 (\<lambda>i. killer_alloc (i mod 5 = 1) i (?n (0 + (i + 1))) 417) (\<lambda>_. stale_word s, s) = Some (Inr (p1, s1))"
    "live p1 ({} \<union> (\<lambda>i. i) ` {..<200}) (b + 200) s1" "card ({} \<union> (\<lambda>i. i) ` {..<200 :: nat}) = 0 + 200" by auto
  define I1 where "I1 = ({} \<union> (\<lambda>i. i) ` {..<200 :: nat})"
  note l1 = l1 [folded I1_def]
  have g2: "inj_on (\<lambda>i::nat. i * 2) {..<100}" "(\<lambda>i. i * 2) ` {..<100} \<subseteq> I1"
    by (auto simp: inj_on_def I1_def)
  from free_loop [OF l1(2) g2, of 200 424] l1(3) obtain s2 where l2:
    "for_run 100 0 (\<lambda>i. killer_free (i * 2) (?n (200 - (i + 1))) 424) (p1, s1) = Some (Inr (p1, s2))"
    "live p1 (I1 - (\<lambda>i. i * 2) ` {..<100}) (b + 200) s2" "card (I1 - (\<lambda>i. i * 2) ` {..<100}) = 100" by auto
  define I2 where "I2 = I1 - (\<lambda>i. i * 2) ` {..<100}"
  note l2 = l2 [folded I2_def]
  have g3: "inj_on (\<lambda>i::nat. i + 200) {..<200}" "(\<lambda>i. i + 200) ` {..<200} \<inter> I2 = {}"
    by (auto simp: inj_on_def I1_def I2_def)
  from alloc_loop [OF l2(2) g3 l2(3), of "\<lambda>i. 2 \<le> i mod 5" 439] obtain p3 s3 where l3:
    "for_run 200 0 (\<lambda>i. killer_alloc (2 \<le> i mod 5) (i + 200) (?n (100 + (i + 1))) 439) (p1, s2) = Some (Inr (p3, s3))"
    "live p3 (I2 \<union> (\<lambda>i. i + 200) ` {..<200}) b s3" "card (I2 \<union> (\<lambda>i. i + 200) ` {..<200}) = 300" by auto
  define I3 where "I3 = I2 \<union> (\<lambda>i. i + 200) ` {..<200}"
  note l3 = l3 [folded I3_def]
  have g4: "inj_on (\<lambda>i::nat. 200 + i * 2 + 1) {..<100}" "(\<lambda>i. 200 + i * 2 + 1) ` {..<100} \<subseteq> I3"
  proof -
    show "(\<lambda>i. 200 + i * 2 + 1) ` {..<100} \<subseteq> I3"
    proof (rule image_subsetI)
      fix i :: nat assume "i \<in> {..<100}"
      then have "200 + i * 2 + 1 = (i * 2 + 1) + 200" "i * 2 + 1 \<in> {..<200}" by auto
      then show "200 + i * 2 + 1 \<in> I3" unfolding I3_def by blast
    qed
  qed (simp add: inj_on_def)
  from free_loop [OF l3(2) g4 l3(3), of 446] obtain s4 where l4:
    "for_run 100 0 (\<lambda>i. killer_free (200 + i * 2 + 1) (?n (300 - (i + 1))) 446) (p3, s3) = Some (Inr (p3, s4))"
    "live p3 (I3 - (\<lambda>i. 200 + i * 2 + 1) ` {..<100}) b s4" "card (I3 - (\<lambda>i. 200 + i * 2 + 1) ` {..<100}) = 200" by auto
  define I4 where "I4 = I3 - (\<lambda>i. 200 + i * 2 + 1) ` {..<100}"
  note l4 = l4 [folded I4_def]
  have g5: "inj_on (\<lambda>i::nat. i * 2 + 1) {..<100}" "(\<lambda>i. i * 2 + 1) ` {..<100} \<subseteq> I4"
  proof -
    show "(\<lambda>i. i * 2 + 1) ` {..<100} \<subseteq> I4"
    proof (rule image_subsetI)
      fix i :: nat assume i: "i \<in> {..<100}"
      then have "i * 2 + 1 \<in> I2" by (auto simp: I1_def I2_def) presburger
      then show "i * 2 + 1 \<in> I4" using i by (auto simp: I3_def I4_def)
    qed
  qed (simp add: inj_on_def)
  from free_loop [OF l4(2) g5 l4(3), of 451] obtain s5 where l5:
    "for_run 100 0 (\<lambda>i. killer_free (i * 2 + 1) (?n (200 - (i + 1))) 451) (p3, s4) = Some (Inr (p3, s5))"
    "live p3 (I4 - (\<lambda>i. i * 2 + 1) ` {..<100}) b s5" "card (I4 - (\<lambda>i. i * 2 + 1) ` {..<100}) = 100" by auto
  define I5 where "I5 = I4 - (\<lambda>i. i * 2 + 1) ` {..<100}"
  note l5 = l5 [folded I5_def]
  have g6: "inj_on (\<lambda>i::nat. 200 + i * 2) {..<100}" "(\<lambda>i. 200 + i * 2) ` {..<100} \<subseteq> I5"
  proof -
    show "(\<lambda>i. 200 + i * 2) ` {..<100} \<subseteq> I5"
    proof (rule image_subsetI)
      fix i :: nat assume i: "i \<in> {..<100}"
      then have "200 + i * 2 = i * 2 + 200" "i * 2 \<in> {..<200}" by auto
      then have "200 + i * 2 \<in> I3" unfolding I3_def by blast
      moreover have "200 + i * 2 \<noteq> 200 + j * 2 + 1" "j < 100 \<Longrightarrow> 200 + i * 2 \<noteq> j * 2 + 1" for j by presburger+
      ultimately show "200 + i * 2 \<in> I5" by (auto simp: I4_def I5_def)
    qed
  qed (simp add: inj_on_def)
  from free_loop [OF l5(2) g6 l5(3), of 456] obtain s6 where l6:
    "for_run 100 0 (\<lambda>i. killer_free (200 + i * 2) (?n (100 - (i + 1))) 456) (p3, s5) = Some (Inr (p3, s6))"
    "live p3 (I5 - (\<lambda>i. 200 + i * 2) ` {..<100}) b s6" "card (I5 - (\<lambda>i. 200 + i * 2) ` {..<100}) = 0" by auto
  have "finite (I5 - (\<lambda>i. 200 + i * 2) ` {..<100})" using l6(2) by (simp add: live_def)
  then have none: "I5 - (\<lambda>i. 200 + i * 2) ` {..<100} = {}" using l6(3) by simp
  note lv6 = l6(2) [unfolded none]
  obtain s7 where s7: "check_count 0 0 459 s6 = Some (Inr s7)" "live p3 {} b s7"
    using live_check [OF lv6, of 0 0 459] by auto
  have "live ptrs {} b (rand_seed_with_time s7)"
    using live_empty [OF s7(2)] live_cong [of "rand_seed_with_time s7" s7 ptrs "{}" b]
    by (simp add: rand_seed_with_time_def rand_seed_def)
  moreover have "killer_round loop s = Some (Inr (rand_seed_with_time s7))"
    using l1(1) l2(1) l3(1) l4(1) l5(1) l6(1) s7(1)
    by (simp only: killer_round_def killer_size_def Let_def run_bind_simps case_prod_conv add_0) simp
  ultimately show ?thesis by blast
qed

lemma kheap_killer_returns:
  fixes s :: "'a kheap_state_scheme"
  assumes "represents {} s" "1000 \<le> capacity s"
    and room: "unat (kh_end_address (kheap s)) + 5 * 400 * 8192 \<le> unat (kh_max_address (kheap s))"
  shows "\<exists>s'. kheap_killer s = Some (Inr s') \<and> represents {} s'"
proof -
  define s0 where "s0 = printk ''kheap stress test ... '' [] (rand_seed 5 s)"
  let ?p = "\<lambda>_. 0 :: u32"
  have "live ?p {} (5 * 400) s" using assms by (simp add: live_def)
  then have lv0: "live ?p {} ((5 - 0) * 400) s0" using live_cong [of s0 s] by (simp add: s0_def rand_seed_def)
  define P :: "nat \<Rightarrow> 'a kheap_state_scheme \<Rightarrow> bool" where "P = (\<lambda>i s. live ?p {} ((5 - i) * 400) s)"
  have "\<exists>x'. for_run 5 0 killer_round s0 = Some (Inr x') \<and> P (0 + 5) x'"
  proof (rule for_run_invariant)
    show "P 0 s0" using lv0 by (simp add: P_def)
    fix i x assume i: "0 \<le> i" "i < 0 + (5 :: nat)" "P i x"
    then have "(5 - i) * 400 = (5 - Suc i) * 400 + 400" by simp
    then have "live ?p {} ((5 - Suc i) * 400 + 400) x" using i(3) by (simp only: P_def)
    from killer_round_ok [OF this] show "\<exists>x'. killer_round i x = Some (Inr x') \<and> P (Suc i) x'"
      by (simp add: P_def)
  qed
  then obtain s1 where s1: "for_run 5 0 killer_round s0 = Some (Inr s1)" "live ?p {} 0 s1" by (auto simp: P_def)
  define s2 where "s2 = printk ''OK\<newline>'' [] s1"
  have "live ?p {} 0 s2" using s1(2) live_cong [of s2 s1] by (simp add: s2_def)
  then obtain s3 where s3: "check_count 1 0 466 s2 = Some (Inr s3)" "live ?p {} 0 s3"
    using live_check [of ?p "{}" 0 s2 0 1 466] by auto
  have "kheap_killer s = Some (Inr s3)"
    using s1(1) s3(1) by (simp add: kheap_killer_def s0_def [symmetric] s2_def [symmetric] Let_def del: for_run.simps)
  then show ?thesis using s3(2) by (auto simp: live_def)
qed

text \<open>C12: The stress test of the heap returns without a failing assertion on a fresh heap that
  may grow by 16 MiB, and leaves no block allocated.\<close>

theorem kheap_killer_passes:
  fixes s :: "'a kheap_state_scheme"
  assumes "represents {} s" "1000 \<le> capacity s"
    "unat (kh_end_address (kheap s)) + 5 * 400 * 8192 \<le> unat (kh_max_address (kheap s))"
  shows "\<exists>s'. kheap_killer s = Some (Inr s') \<and> represents {} s'"
  by (rule kheap_killer_returns [OF assms])

end
