(* ===== verification/Kernel.thy ===== *)
theory Kernel
  imports Kheap_tests Paging
begin

text \<open>
  \<open>08.kernel-mm/kernel/kernel.c\<close>: the boot sequence over all components. The heap works on memory
  and its own statics only, which the locale \<open>outside_heap\<close> states for any part of the state that
  these do not reach, so that what the earlier steps established holds when \<open>main\<close> idles.
\<close>

subsection \<open>What the heap leaves alone\<close>

locale outside_heap =
  fixes f :: "'a kheap_state_scheme \<Rightarrow> 'b"
  assumes f_mem: "f (s\<lparr>mem := m\<rparr>) = f s"
    and f_kheap: "f (s\<lparr>kheap := k\<rparr>) = f s"
    and f_lock: "f (s\<lparr>kheap_lock := l\<rparr>) = f s"
    and f_seed: "f (s\<lparr>seed := x\<rparr>) = f s"
    and f_printk: "f (printk fmt args s) = f s"
begin

lemmas f_simps = f_mem f_kheap f_lock f_seed f_printk

lemma f_assert: "kheap_assert c func n s = Inr s' \<Longrightarrow> f s' = f s"
  by (simp add: kheap_assert_def)

lemma f_index:
  "f (snd (index_insert x s)) = f s" "f (snd (index_remove i s)) = f s" "f (snd (index_remove_element x s)) = f s"
  by (simp_all add: index_insert_def index_remove_def index_remove_element_def f_simps split: prod.splits)

lemma f_make_block: "make_block a n fl s = Inr (x, s') \<Longrightarrow> f s' = f s"
  by (auto simp: make_block_def seq_bind_eq_Inr kheap_assert_def Let_def f_simps)

lemma f_expand: "kheap_expand n s = Inr (x, s') \<Longrightarrow> f s' = f s"
  by (auto simp: kheap_expand_def seq_bind_eq_Inr kheap_assert_def Let_def f_simps split: if_splits)

lemma f_alloc_grow: "alloc_grow n s = Inr s' \<Longrightarrow> f s' = f s"
  by (auto simp: alloc_grow_def seq_bind_eq_Inr kheap_assert_def Let_def f_index split_beta
      split: if_splits dest!: f_expand f_make_block)

lemma f_cut_front: "cut_front p h n al s = Inr (a, b, s') \<Longrightarrow> f s' = f s"
  by (auto simp: cut_front_def seq_bind_eq_Inr kheap_assert_def Let_def f_index
      split: if_splits dest!: f_make_block)

lemma f_use_block: "use_block h n sz s = Inr s' \<Longrightarrow> f s' = f s"
  by (auto simp: use_block_def seq_bind_eq_Inr kheap_assert_def Let_def f_index
      split: if_splits dest!: f_make_block)

lemma f_alloc_use: "alloc_use i p sz al s = Inr (x, s') \<Longrightarrow> f s' = f s"
  by (auto simp: alloc_use_def seq_bind_eq_Inr kheap_assert_def Let_def f_index dest!: f_cut_front f_use_block)

lemma f_alloc: "alloc sz al s = Some (Inr (x, s')) \<Longrightarrow> f s' = f s"
proof -
  have "alloc sz al s = Some r \<Longrightarrow> \<forall>x s'. r = Inr (x, s') \<longrightarrow> f s' = f s" for r
  proof (rule alloc.raw_induct [where P = "\<lambda>sz al s r. \<forall>x s'. r = Inr (x, s') \<longrightarrow> f s' = f s"])
    fix g sz al r and s :: "'a kheap_state_scheme"
    assume IH: "\<And>sz al s r. g sz al s = Some r \<Longrightarrow> \<forall>x s'. r = Inr (x, s') \<longrightarrow> f s' = f s"
      and r: "(case kheap_assert (0 < sz) ''alloc'' 152 s of Inl p \<Rightarrow> Some (Inl p)
        | Inr s \<Rightarrow> (case find_hole sz al s of
            None \<Rightarrow> (case alloc_grow sz s of Inl p \<Rightarrow> Some (Inl p) | Inr s \<Rightarrow> g sz al s)
          | Some (i, p) \<Rightarrow> Some (alloc_use i p sz al s))) = Some r"
    show "\<forall>x s'. r = Inr (x, s') \<longrightarrow> f s' = f s"
    proof (intro allI impI)
      fix x s' assume "r = Inr (x, s')"
      with r IH show "f s' = f s"
        by (auto simp: kheap_assert_def split: option.splits sum.splits dest!: f_alloc_use f_alloc_grow dest: IH)
    qed
  qed
  then show "alloc sz al s = Some (Inr (x, s')) \<Longrightarrow> f s' = f s" by blast
qed

lemma f_merge_right: "merge_right h g s = Inr s' \<Longrightarrow> f s' = f s"
  by (auto simp: merge_right_def seq_bind_eq_Inr kheap_assert_def Let_def f_index split_beta
      split: if_splits dest!: f_make_block)

lemma f_merge_left: "merge_left h s = Inr (x, s') \<Longrightarrow> f s' = f s"
  by (auto simp: merge_left_def seq_bind_eq_Inr kheap_assert_def Let_def f_index split_beta
      split: if_splits dest!: f_make_block)

lemma f_free: "free p s = Inr s' \<Longrightarrow> f s' = f s"
  by (auto simp: free_def seq_bind_eq_Inr kheap_assert_def Let_def f_index f_simps
      split: if_splits dest!: f_merge_right f_merge_left)

lemma run_bind_Inr: "run_bind r k = Some (Inr y) \<longleftrightarrow> (\<exists>x. r = Some (Inr x) \<and> k x = Some (Inr y))"
  by (simp add: run_bind_def split: option.splits sum.splits)

lemma f_lock_kheap: "lock_kheap s = Some s' \<Longrightarrow> f s' = f s"
  by (auto simp: lock_kheap_def f_lock)

lemma f_unlock_kheap: "f (unlock_kheap s) = f s"
  by (simp add: unlock_kheap_def f_lock)

lemma f_kmalloc_impl: "kmalloc_impl sz al s = Some (Inr (x, s')) \<Longrightarrow> f s' = f s"
  by (auto simp: kmalloc_impl_def run_bind_Inr split: if_splits dest!: f_alloc)

lemma f_kmalloc:
  "kmalloc sz s = Some (Inr (x, s')) \<Longrightarrow> f s' = f s" "kmalloc_aligned sz s = Some (Inr (x, s')) \<Longrightarrow> f s' = f s"
  by (auto simp: kmalloc_def kmalloc_aligned_def run_bind_Inr f_unlock_kheap split: option.splits
      dest!: f_kmalloc_impl f_lock_kheap)

lemma f_kfree: "kfree p s = Some (Inr s') \<Longrightarrow> f s' = f s"
  by (auto simp: kfree_def run_bind_Inr f_unlock_kheap split: if_splits option.splits dest!: f_free f_lock_kheap)

lemma f_print_block: "f (print_block fmt h s) = f s"
  by (simp add: print_block_def f_printk)

lemma f_validate_loop: "validate_loop pr a k l s = Some (Inr (x, y, s')) \<Longrightarrow> f s' = f s"
proof -
  have "validate_loop pr a k l s = Some r \<Longrightarrow> \<forall>x y s'. r = Inr (x, y, s') \<longrightarrow> f s' = f s" for r
  proof (rule validate_loop.raw_induct [where P = "\<lambda>pr a k l s r. \<forall>x y s'. r = Inr (x, y, s') \<longrightarrow> f s' = f s"], goal_cases)
    case (1 g pr a k l s r)
    show ?case
    proof (intro allI impI)
      fix x y s' assume "r = Inr (x, y, s')"
      with 1(3) show "f s' = f s"
        by (auto simp: Let_def kheap_assert_def seq_bind_eq_Inr f_print_block
            split: if_splits sum.splits dest!: 1(2))
    qed
  qed
  then show "validate_loop pr a k l s = Some (Inr (x, y, s')) \<Longrightarrow> f s' = f s" by blast
qed

lemma f_validate: "kheap_validate_print pr s = Some (Inr (x, s')) \<Longrightarrow> f s' = f s"
  by (auto simp: kheap_validate_print_def Let_def run_bind_Inr seq_bind_eq_Inr kheap_assert_def f_printk
      split: if_splits dest!: f_validate_loop)

lemma f_check_count: "check_count pr e line s = Some (Inr s') \<Longrightarrow> f s' = f s"
  by (auto simp: check_count_def run_bind_Inr kheap_assert_def dest!: f_validate)

lemma f_rand_range: "f (snd (rand_range lo hi s)) = f s"
  by (simp add: rand_range_def rand_def rand_seed_with_time_def rand_seed_def Let_def f_seed split: prod.splits)

lemma f_killer_alloc: "killer_alloc al i e line x = Some (Inr x') \<Longrightarrow> f (snd x') = f (snd x)"
proof -
  assume k: "killer_alloc al i e line x = Some (Inr x')"
  obtain ps s where x: "x = (ps, s)" by (cases x)
  obtain r s1 where rr: "rand_range 1 1000 s = (r, s1)" by (cases "rand_range 1 1000 s")
  have "f s1 = f s" using f_rand_range [of 1 1000 s] rr by simp
  then show ?thesis
    using k by (auto simp: killer_alloc_def x rr run_bind_Inr split: if_splits dest!: f_kmalloc f_check_count)
qed

lemma f_killer_free: "killer_free i e line x = Some (Inr x') \<Longrightarrow> f (snd x') = f (snd x)"
  by (auto simp: killer_free_def run_bind_Inr split: prod.splits dest!: f_kfree f_check_count)

lemma f_for_run:
  assumes "\<And>i x x'. body i x = Some (Inr x') \<Longrightarrow> f (h x') = f (h x)"
  shows "for_run n i body x = Some (Inr x') \<Longrightarrow> f (h x') = f (h x)"
  by (induction n arbitrary: i x) (auto simp: run_bind_Inr dest!: assms)

lemma f_loops:
  "for_run n i (\<lambda>i. killer_alloc (al i) (g i) (e i) line) x = Some (Inr x') \<Longrightarrow> f (snd x') = f (snd x)"
  "for_run n i (\<lambda>i. killer_free (g i) (e i) line) x = Some (Inr x') \<Longrightarrow> f (snd x') = f (snd x)"
  by (erule f_for_run [where h = snd, rotated], erule f_killer_alloc f_killer_free)+

lemma f_killer_round: "killer_round loop s = Some (Inr s') \<Longrightarrow> f s' = f s"
  by (auto simp: killer_round_def Let_def run_bind_Inr rand_seed_with_time_def rand_seed_def f_seed
      dest!: f_check_count f_loops)

lemma f_rounds: "for_run n i killer_round s = Some (Inr s') \<Longrightarrow> f s' = f s"
  by (erule f_for_run [where h = "\<lambda>s. s", rotated], erule f_killer_round)

lemma f_kheap_killer: "kheap_killer s = Some (Inr s') \<Longrightarrow> f s' = f s"
  by (auto simp: kheap_killer_def Let_def run_bind_Inr f_printk rand_seed_def f_seed
      dest!: f_check_count f_rounds)

lemma f_init_kheap: "init_kheap s = Inr s' \<Longrightarrow> f s' = f s"
  by (auto simp: init_kheap_def create_kheap_def Let_def seq_bind_eq_Inr kheap_assert_def f_simps split_beta
      dest!: f_make_block)

end

subsection \<open>The boot sequence\<close>

text \<open>
  \<open>main\<close>, with what the linker and the compiler fix as arguments: the addresses of the symbols,
  the address of \<open>gdt_ptr\<close>, the content of \<open>EAX\<close> at the call of \<open>gdt_flush\<close> and the section table.
  \<open>kernel_boot\<close> is its first part, up to \<open>vmm_init\<close>; from there on memory is paged on demand, and the
  accesses of the heap go to \<open>mem\<close>, the kernel's memory behind the page fault handler (theory
  \<open>Paging\<close>). The result is the state in which \<open>main\<close> idles. Interrupts that arrive after
  \<open>enable_interrupts\<close> and before that are not interleaved.
\<close>

definition kernel_boot ::
  "symbols \<Rightarrow> u32 \<Rightarrow> u32 \<Rightarrow> kernel_section_info \<Rightarrow> 'a kheap_state_scheme \<Rightarrow> ('a kheap_state_scheme, 'a kheap_state_scheme) run" where
  "kernel_boot syms gdt_ptr_addr eax sections s =
     (let s = vga_clear s;
          s = printk ''Hello, kernel world!\<newline>'' [] s;
          s = gdt_init syms gdt_ptr_addr eax s;
          s = idt_init syms s;
          s = enable_interrupts s
      in case init_timer syms TIMER_FREQUENCY s of
           None \<Rightarrow> None
         | Some s \<Rightarrow>
             let s = boot_info_init sections s
             in run_bind (Some (pmm_init (the_boot_info s) s)) (\<lambda>s. Some (Inr (vmm_init syms s))))"

definition kernel_main ::
  "symbols \<Rightarrow> u32 \<Rightarrow> u32 \<Rightarrow> kernel_section_info \<Rightarrow> 'a kheap_state_scheme \<Rightarrow> ('a kheap_state_scheme, 'a kheap_state_scheme) run" where
  "kernel_main syms gdt_ptr_addr eax sections s =
     run_bind (kernel_boot syms gdt_ptr_addr eax sections s) (\<lambda>s.
       run_bind (Some (init_kheap s)) kheap_killer)"

lemma boot_fields_in_more:
  "the_boot_info s = the_boot_info (vga_state.extend v (vga_state.more s))"
  "pmm_bitmap s = pmm_bitmap (vga_state.extend v (vga_state.more s))"
  "pmm_bitmap_size_bytes s = pmm_bitmap_size_bytes (vga_state.extend v (vga_state.more s))"
  "pmm_total_pages s = pmm_total_pages (vga_state.extend v (vga_state.more s))"
  "pmm_max_ram_page s = pmm_max_ram_page (vga_state.extend v (vga_state.more s))"
  "pmm_free_pages s = pmm_free_pages (vga_state.extend v (vga_state.more s))"
  "pmm_last_alloc_index s = pmm_last_alloc_index (vga_state.extend v (vga_state.more s))"
  "phys s = phys (vga_state.extend v (vga_state.more s))" "tlb s = tlb (vga_state.extend v (vga_state.more s))"
  for s :: "'a vmm_state_scheme"
  by (cases s; simp add: vga_state.defs)+

lemma printk_boot [simp]:
  fixes s :: "'a vmm_state_scheme"
  shows "phys (printk fmt args s) = phys s" "tlb (printk fmt args s) = tlb s" "the_boot_info (printk fmt args s) = the_boot_info s" "pmm_bitmap (printk fmt args s) = pmm_bitmap s"
    "pmm_bitmap_size_bytes (printk fmt args s) = pmm_bitmap_size_bytes s"
    "pmm_total_pages (printk fmt args s) = pmm_total_pages s" "pmm_max_ram_page (printk fmt args s) = pmm_max_ram_page s"
    "pmm_free_pages (printk fmt args s) = pmm_free_pages s" "pmm_last_alloc_index (printk fmt args s) = pmm_last_alloc_index s"
  unfolding boot_fields_in_more [where s = s and v = undefined] boot_fields_in_more [where s = "printk fmt args s" and v = undefined]
    printk_simps by (rule refl)+

definition tables :: "'a kheap_state_scheme \<Rightarrow> _" where
  "tables s = (eflags s, interrupt_handlers s, idtr s, idt s)"

interpretation tables: outside_heap tables
  by unfold_locales (simp_all add: tables_def)

text \<open>What the initialisers of the descriptor tables and of the timer leave alone.\<close>

definition memory :: "'a vmm_state_scheme \<Rightarrow> _" where
  "memory s = (mem s, the_boot_info s, phys s, cr3 s, tlb s, tick s)"

lemma gdt_init_keeps: "memory (gdt_init syms p eax s) = memory s"
  by (simp add: memory_def gdt_init_def Let_def gdt_set_gate_def gdt_flush_def tss_flush_def)

lemma idt_set_gate_keeps: "memory (idt_set_gate v base sel attr s) = memory s"
  by (simp add: memory_def idt_set_gate_def Let_def)

lemma pic_init_keeps: "memory (pic_init a b s) = memory s"
  by (simp add: memory_def pic_init_def Let_def io_wait_def outb_def)

lemma idt_init_keeps: "memory (idt_init syms s) = memory s"
proof -
  have "memory (fold clear_gate xs t) = memory t" "memory (fold (SET_ISR syms) xs t) = memory t"
    "memory (fold (SET_IRQ syms) xs t) = memory t" for xs and t :: "'a vmm_state_scheme"
    by (rule fold_keeps, simp add: clear_gate_def SET_ISR_def SET_IRQ_def idt_set_gate_keeps)+
  moreover have "memory (t\<lparr>the_idt_ptr := x\<rparr>) = memory t" "memory (t\<lparr>idtr := y\<rparr>) = memory t"
    "memory (printk fmt args t) = memory t" for t :: "'a vmm_state_scheme" and x y fmt args
    by (simp_all add: memory_def)
  ultimately show ?thesis by (simp add: idt_init_def Let_def pic_init_keeps)
qed

definition vectors :: "'a vmm_state_scheme \<Rightarrow> _" where
  "vectors s = (mem s, eflags s, interrupt_handlers s, idtr s, idt s, phys s, cr3 s, tlb s, tick s)"

lemma mark_pages_keeps: "vectors (mark_pages p e s) = vectors s"
proof (induction p e s rule: mark_pages.induct)
  case (1 p e s)
  then show ?case
    by (subst mark_pages.simps) (simp add: vectors_def pmm_set_bit_def Let_def split: if_splits)
qed

lemma mark_region_keeps: "vectors (pmm_mark_region_used a n s) = vectors s"
  by (simp add: pmm_mark_region_used_def Let_def mark_pages_keeps)

lemma pmm_init_keeps: "pmm_init bi s = Inr s' \<Longrightarrow> vectors s' = vectors s"
  by (auto simp: pmm_init_def Let_def mark_region_keeps fold_keeps [where f = vectors] split: if_splits)
    (simp add: vectors_def)

text \<open>
  The state in which \<open>main\<close> idles: an empty well-formed heap, interrupts enabled, the interrupt
  table loaded and the handlers of the timer and of page faults registered.
\<close>

definition idling :: "symbols \<Rightarrow> 'a kheap_state_scheme \<Rightarrow> bool" where
  "idling syms s \<longleftrightarrow> represents {} s \<and> interrupts_enabled s \<and>
     idtr s = Some \<lparr>idt_limit = 2047, idt_base = idt_sym syms\<rparr> \<and>
     interrupt_handlers s 32 = timer_callback_sym syms \<and> interrupt_handlers s 14 = page_fault_handler_sym syms"

text \<open>The state that the paged phase starts from, for the boot information \<open>bi\<close>.\<close>

definition booted :: "boot_info \<Rightarrow> 'a vmm_state_scheme \<Rightarrow> bool" where
  "booted bi s \<longleftrightarrow> pmm_ok s \<and> kernel_layout s \<and> tlb_coherent s \<and>
     free_set s = {..<unat (highest_end (entries bi)) div 4096} - Pmm.reserved bi"

lemma kernel_boot_booted:
  fixes s :: "'a kheap_state_scheme" and sections
  defines "bi \<equiv> the_boot_info (boot_info_init sections s)"
  assumes small: "\<forall>e \<in> set (entries bi). unat (e_addr e) + unat (e_size e) \<le> 2 ^ 43"
    and fits: "unat (highest_end (entries bi)) div 4096 \<le> 1048576"
    and layout: "kernel_layout s" "tlb_coherent s"
  shows "\<exists>s'. kernel_boot syms gdt_ptr_addr eax sections s = Some (Inr s') \<and> booted bi s' \<and> mem s' = mem s \<and>
     interrupts_enabled s' \<and> idtr s' = Some \<lparr>idt_limit = 2047, idt_base = idt_sym syms\<rparr> \<and>
     interrupt_handlers s' 32 = timer_callback_sym syms \<and> interrupt_handlers s' 14 = page_fault_handler_sym syms"
proof -
  define s1 where "s1 = enable_interrupts (idt_init syms (gdt_init syms gdt_ptr_addr eax
    (printk ''Hello, kernel world!\<newline>'' [] (vga_clear s))))"
  have "memory (vga_clear s) = memory s"
    by (simp add: memory_def vga_clear_def vga_sync_cursor_def outb_def Let_def)
  then have "memory s1 = memory s"
    using idt_init_keeps [of syms "gdt_init syms gdt_ptr_addr eax (printk ''Hello, kernel world!\<newline>'' [] (vga_clear s))"]
      gdt_init_keeps [of syms gdt_ptr_addr eax "printk ''Hello, kernel world!\<newline>'' [] (vga_clear s)"]
    by (simp add: memory_def s1_def enable_interrupts_def)
  moreover obtain s2 where t: "init_timer syms TIMER_FREQUENCY s1 = Some s2"
    and s2': "s2 = program_pit (1193180 div 50) (register_interrupt_handler INT_IRQ0 (timer_callback_sym syms) s1)"
    by (simp add: init_timer_def TIMER_FREQUENCY_def)
  ultimately have s2: "memory s2 = memory s" "interrupt_handlers s2 32 = timer_callback_sym syms"
    "eflags s2 = eflags s1" "idtr s2 = idtr s1"
    unfolding s2' register_interrupt_handler_def by (simp_all add: memory_def program_pit_def outb_def Let_def)
  define s3 where "s3 = boot_info_init sections s2"
  have bi: "the_boot_info s3 = bi" "magic bi = BOOT_INFO_MAGIC"
    using s2(1) by (simp_all add: s3_def bi_def boot_info_init_def Let_def split_beta memory_def)
  have s3: "vectors s3 = vectors s2" by (simp add: s3_def vectors_def boot_info_init_def split_beta Let_def)
  obtain s4 where p: "pmm_init bi s3 = Inr s4" "pmm_ok s4"
    "free_set s4 = {..<unat (highest_end (entries bi)) div 4096} - Pmm.reserved bi"
    using pmm_init_frames [OF bi(2) small, of s3] fits by auto
  have s4: "vectors s4 = vectors s2" using pmm_init_keeps [OF p(1)] s3 by simp
  define s5 where "s5 = vmm_init syms s4"
  have run: "kernel_boot syms gdt_ptr_addr eax sections s = Some (Inr s5)"
    using t p(1) bi(1)
    by (simp add: kernel_boot_def Let_def s1_def [symmetric] s3_def [symmetric] s5_def [symmetric] run_bind_def)
  have s5: "mem s5 = mem s" "phys s5 = phys s" "cr3 s5 = cr3 s" "tlb s5 = tlb s" "eflags s5 = eflags s1"
    "idtr s5 = idtr s1" "interrupt_handlers s5 = (interrupt_handlers s2)(14 := page_fault_handler_sym syms)"
    using s4 s2 by (simp_all add: s5_def vmm_init_def Let_def register_interrupt_handler_def vectors_def memory_def)
  have "pmm_ok s5 = pmm_ok s4" "free_set s5 = free_set s4"
    by (simp_all add: s5_def vmm_init_def Let_def register_interrupt_handler_def pmm_ok_def counted_def free_set_def used_def)
  then have "booted bi s5" using p paging_cong [OF s5(2-4)] layout by (simp add: booted_def)
  moreover have "interrupts_enabled s1" "idtr s1 = Some \<lparr>idt_limit = 2047, idt_base = idt_sym syms\<rparr>"
    by (simp add: s1_def, simp add: s1_def enable_interrupts_def idt_init_loads)
  ultimately show ?thesis using run s5 s2(2) by (intro exI [of _ s5]) (simp add: interrupts_enabled_def)
qed

lemma kernel_main_idling:
  fixes s :: "'a kheap_state_scheme" and sections
  defines "bi \<equiv> the_boot_info (boot_info_init sections s)"
  assumes guards: "init_guards (mem s)"
    and "\<forall>e \<in> set (entries bi). unat (e_addr e) + unat (e_size e) \<le> 2 ^ 43"
    and "unat (highest_end (entries bi)) div 4096 \<le> 1048576" "kernel_layout s" "tlb_coherent s"
  shows "\<exists>s1 s2. kernel_boot syms gdt_ptr_addr eax sections s = Some (Inr s1) \<and> booted bi s1 \<and>
     kernel_main syms gdt_ptr_addr eax sections s = Some (Inr s2) \<and> idling syms s2"
proof -
  obtain s5 where b: "kernel_boot syms gdt_ptr_addr eax sections s = Some (Inr s5)" "booted bi s5" "mem s5 = mem s"
    "interrupts_enabled s5" "idtr s5 = Some \<lparr>idt_limit = 2047, idt_base = idt_sym syms\<rparr>"
    "interrupt_handlers s5 32 = timer_callback_sym syms" "interrupt_handlers s5 14 = page_fault_handler_sym syms"
    using kernel_boot_booted [of sections s syms gdt_ptr_addr eax] assms(3-6) unfolding bi_def by blast
  obtain s6 where k: "init_kheap s5 = Inr s6" "represents {} s6" "capacity s6 = 0x1FFFB"
    "kh_end_address (kheap s6) = 0xC0F00000" "kh_max_address (kheap s6) = KHEAP_MAX"
    using init_kheap_ok [of s5] guards b(3) by auto
  obtain s7 where r: "kheap_killer s6 = Some (Inr s7)" "represents {} s7"
    using kheap_killer_returns [OF k(2)] by (auto simp: k(3-5) KHEAP_MAX_def)
  have "tables s7 = tables s5" using tables.f_kheap_killer [OF r(1)] tables.f_init_kheap [OF k(1)] by simp
  then have "idling syms s7" using b r(2) by (simp add: idling_def tables_def interrupts_enabled_def)
  moreover have "kernel_main syms gdt_ptr_addr eax sections s = Some (Inr s7)"
    using b(1) k(1) r(1) by (simp add: kernel_main_def run_bind_def)
  ultimately show ?thesis using b by blast
qed


end
