(* ===== verification/Idle.thy ===== *)
theory Idle
  imports Kernel
begin

text \<open>
  The kernel after \<open>main\<close>: it spins, and the processor delivers interrupts of the timer to the
  stubs, the dispatcher and the callback of \<open>08.kernel-mm/kernel/interrupt/\<close>.
\<close>

text \<open>
  The code behind the handler addresses: the timer's callback, and any other handlers. IRQs are
  delivered as \<open>deliver_irq\<close> of theory \<open>Interrupt\<close> says.
\<close>

definition handler_code :: "symbols \<Rightarrow> 'a kheap_state_scheme code_map \<Rightarrow> 'a kheap_state_scheme code_map" where
  "handler_code syms others h frame s =
     (if h = timer_callback_sym syms then Inr (timer_callback frame s) else others h frame s)"

definition take_irq ::
  "'a kheap_state_scheme code_map \<Rightarrow> nat \<Rightarrow> cpu \<times> u32 \<times> u32 list \<Rightarrow> 'a kheap_state_scheme \<Rightarrow>
     ('a kheap_state_scheme, 'a kheap_state_scheme) outcome" where
  "take_irq code = deliver_irq (irq_handler code)"

definition take_irqs ::
  "'a kheap_state_scheme code_map \<Rightarrow> nat \<Rightarrow> (cpu \<times> u32 \<times> u32 list) list \<Rightarrow> 'a kheap_state_scheme \<Rightarrow>
     ('a kheap_state_scheme, 'a kheap_state_scheme) outcome" where
  "take_irqs code = deliver_irqs (irq_handler code)"

lemma take_irqs_simps [simp]:
  "take_irqs code n [] s = Inr s"
  "take_irqs code n (x # xs) s = seq_bind (take_irq code n x s) (take_irqs code n xs)"
  by (simp_all add: take_irqs_def take_irq_def)

text \<open>What one tick changes.\<close>

definition ticked :: "nat \<Rightarrow> 'a kheap_state_scheme \<Rightarrow> 'a kheap_state_scheme" where
  "ticked k s = s\<lparr>tick := tick s + of_nat k, io_log := io_log s @ replicate k (PIC1_CMD, PIC_EOI),
     in_interrupt_context := False\<rparr>"

lemma take_timer_irq:
  assumes "interrupts_enabled s" "interrupt_handlers s 32 = timer_callback_sym syms" "timer_callback_sym syms \<noteq> 0"
  shows "take_irq (handler_code syms others) 0 x s = Inr (ticked 1 s)"
proof -
  obtain c esp st where x: "x = (c, esp, st)" by (cases x)
  show ?thesis
    using assms
    by (simp add: x take_irq_def deliver_irq_def Let_def stub_restores irq_handler_def irq_vector handler_code_def
        timer_callback_def pic_send_eoi_def outb_def disable_interrupts_def ticked_def)
qed

lemma ticked_simps [simp]:
  "interrupts_enabled (ticked k s) = interrupts_enabled s" "interrupt_handlers (ticked k s) = interrupt_handlers s"
  "tables (ticked k s) = tables s" "mem (ticked k s) = mem s" "kheap (ticked k s) = kheap s"
  "kheap_lock (ticked k s) = kheap_lock s" "tick (ticked k s) = tick s + of_nat k"
  "io_log (ticked k s) = io_log s @ replicate k (PIC1_CMD, PIC_EOI)"
  by (simp_all add: ticked_def interrupts_enabled_def tables_def)

lemma ticked_ticked: "ticked (length xs) (ticked (Suc 0) s) = ticked (Suc (length xs)) s"
  by (simp add: ticked_def add.assoc [symmetric] replicate_append_same [symmetric])

lemma take_timer_irqs:
  assumes "interrupts_enabled s" "interrupt_handlers s 32 = timer_callback_sym syms" "timer_callback_sym syms \<noteq> 0" "xs \<noteq> []"
  shows "take_irqs (handler_code syms others) 0 xs s = Inr (ticked (length xs) s)"
  using assms
proof (induction xs arbitrary: s)
  case (Cons x xs)
  then show ?case
    by (cases "xs = []") (simp_all add: take_timer_irq ticked_ticked)
qed simp

lemma idling_ticked: "idling syms s \<Longrightarrow> idling syms (ticked k s)"
  unfolding idling_def
  by (simp add: represents_cong [of "ticked k s" s]) (simp add: ticked_def)

theorem idle_serves_ticks:
  fixes s :: "'a kheap_state_scheme" and sections
  defines "bi \<equiv> the_boot_info (boot_info_init sections s)"
  assumes main: "init_guards (mem s)" "\<forall>e \<in> set (entries bi). unat (e_addr e) + unat (e_size e) \<le> 2 ^ 43"
    "unat (highest_end (entries bi)) div 4096 \<le> 1048576" "kernel_layout s" "tlb_coherent s"
    "kernel_main syms gdt_ptr_addr eax sections s = Some (Inr s1)"
    and callback: "timer_callback_sym syms \<noteq> 0"
  shows "\<exists>s2. take_irqs (handler_code syms others) 0 xs s1 = Inr s2 \<and> idling syms s2 \<and>
    tick s2 = tick s1 + of_nat (length xs) \<and>
    io_log s2 = io_log s1 @ replicate (length xs) (PIC1_CMD, PIC_EOI)"
proof -
  have idle: "idling syms s1"
    using kernel_main_idling [OF main(1-5) [unfolded bi_def], of syms gdt_ptr_addr eax] main(6) by auto
  then have i: "interrupts_enabled s1" "interrupt_handlers s1 32 = timer_callback_sym syms" by (simp_all add: idling_def)
  show ?thesis
  proof (cases "xs = []")
    case False
    then show ?thesis using take_timer_irqs [OF i callback False] idling_ticked [OF idle] by simp
  qed (simp add: idle)
qed

end
