(* ===== verification/Boot_irqs.thy ===== *)
theory Boot_irqs
  imports Idle
begin

text \<open>
  \<open>main\<close> with the hardware interrupts that arrive while it runs: from \<open>enable_interrupts\<close> on, any number
  of interrupts on any line is delivered between two calls of \<open>main\<close>. Until \<open>init_timer\<close> there is no
  handler for the timer's line, and for the other lines there never is one; their interrupts are
  acknowledged and reported on the screen.
\<close>

text \<open>An interrupt: its line, and registers and stack of the code that it interrupts.\<close>

type_synonym irq = "nat \<times> cpu \<times> u32 \<times> u32 list"

primrec interrupts :: "'a kheap_state_scheme code_map \<Rightarrow> irq list \<Rightarrow> 'a kheap_state_scheme \<Rightarrow>
    ('a kheap_state_scheme, 'a kheap_state_scheme) outcome" where
  "interrupts code [] s = Inr s"
| "interrupts code (q # qs) s = seq_bind (take_irq code (fst q) (snd q) s) (interrupts code qs)"

text \<open>\<open>irqs\<close> gives the interrupts of each of the seven places after a call.\<close>

definition kernel_boot_irqs ::
  "'a kheap_state_scheme code_map \<Rightarrow> (nat \<Rightarrow> irq list) \<Rightarrow> symbols \<Rightarrow> u32 \<Rightarrow> u32 \<Rightarrow> kernel_section_info \<Rightarrow>
     'a kheap_state_scheme \<Rightarrow> ('a kheap_state_scheme, 'a kheap_state_scheme) run" where
  "kernel_boot_irqs code irqs syms gdt_ptr_addr eax sections s =
     (let s = vga_clear s;
          s = printk ''Hello, kernel world!\<newline>'' [] s;
          s = gdt_init syms gdt_ptr_addr eax s;
          s = idt_init syms s;
          s = enable_interrupts s
      in run_bind (Some (interrupts code (irqs 0) s)) (\<lambda>s.
         case init_timer syms TIMER_FREQUENCY s of
           None \<Rightarrow> None
         | Some s \<Rightarrow>
             run_bind (Some (interrupts code (irqs 1) s)) (\<lambda>s.
             let s = boot_info_init sections s in
             run_bind (Some (interrupts code (irqs 2) s)) (\<lambda>s.
             run_bind (Some (pmm_init (the_boot_info s) s)) (\<lambda>s.
             run_bind (Some (interrupts code (irqs 3) s)) (\<lambda>s.
             let s = vmm_init syms s in Some (interrupts code (irqs 4) s)))))))"

definition kernel_main_irqs ::
  "'a kheap_state_scheme code_map \<Rightarrow> (nat \<Rightarrow> irq list) \<Rightarrow> symbols \<Rightarrow> u32 \<Rightarrow> u32 \<Rightarrow> kernel_section_info \<Rightarrow>
     'a kheap_state_scheme \<Rightarrow> ('a kheap_state_scheme, 'a kheap_state_scheme) run" where
  "kernel_main_irqs code irqs syms gdt_ptr_addr eax sections s =
     run_bind (kernel_boot_irqs code irqs syms gdt_ptr_addr eax sections s) (\<lambda>s.
     run_bind (Some (init_kheap s)) (\<lambda>s.
     run_bind (Some (interrupts code (irqs 5) s)) (\<lambda>s.
     run_bind (kheap_killer s) (\<lambda>s. Some (interrupts code (irqs 6) s)))))"

subsection \<open>What an interrupt leaves alone\<close>

definition lasting :: "'a kheap_state_scheme \<Rightarrow> _" where
  "lasting s = (mem s, eflags s, cr3 s, interrupt_handlers s, idtr s, idt s, the_boot_info s,
     (pmm_bitmap s, pmm_bitmap_size_bytes s, pmm_total_pages s, pmm_max_ram_page s, pmm_free_pages s, pmm_last_alloc_index s),
     phys s, tlb s, kheap s, kheap_lock s)"

lemma lasting_printk [simp]: "lasting (printk fmt args s) = lasting s"
  by (simp add: lasting_def)

lemma lasting_simps [simp]:
  "lasting (s\<lparr>in_interrupt_context := b\<rparr>) = lasting s" "lasting (s\<lparr>tick := k\<rparr>) = lasting s" "lasting (pic_send_eoi n s) = lasting s"
  by (simp_all add: lasting_def pic_send_eoi_def outb_def Let_def)

text \<open>The lines have no handler, but for the timer's callback on line 0.\<close>

definition timer_only :: "symbols \<Rightarrow> 'a kheap_state_scheme \<Rightarrow> bool" where
  "timer_only syms s \<longleftrightarrow> (\<forall>n < 16. interrupt_handlers s (32 + n) = 0 \<or> n = 0 \<and> interrupt_handlers s 32 = timer_callback_sym syms)"

text \<open>How many of the interrupts are ticks.\<close>

definition ticks_of :: "irq list \<Rightarrow> 'a kheap_state_scheme \<Rightarrow> nat" where
  "ticks_of qs s = (if interrupt_handlers s 32 = 0 then 0 else length (filter (\<lambda>q. fst q = 0) qs))"

definition lines_ok :: "irq list \<Rightarrow> bool" where
  "lines_ok qs \<longleftrightarrow> (\<forall>q \<in> set qs. fst q < 16)"

lemma lasting_eqD:
  assumes "lasting t = lasting s"
  shows "mem t = mem s" "eflags t = eflags s" "cr3 t = cr3 s" "interrupt_handlers t = interrupt_handlers s" "idtr t = idtr s"
    "the_boot_info t = the_boot_info s" "phys t = phys s" "tlb t = tlb s" "kheap t = kheap s" "kheap_lock t = kheap_lock s"
    "pmm_ok t = pmm_ok s" "free_set t = free_set s" "timer_only syms t = timer_only syms s"
  using assms by (simp_all add: lasting_def pmm_ok_def counted_def free_set_def used_def timer_only_def)

lemma take_irq_lasting:
  assumes "interrupts_enabled s" "timer_only syms s" "n < 16"
  shows "\<exists>t. take_irq (handler_code syms others) n x s = Inr t \<and> lasting t = lasting s \<and>
    tick t = tick s + of_nat (ticks_of [(n, x)] s)"
proof -
  obtain c esp st where x: "x = (c, esp, st)" by (cases x)
  define fr where "fr = frame_at (irq_entry n (c\<lparr>r_eflags := eflags s\<rparr>) esp st)"
  have "f_int_no fr = word_of_nat (32 + n)" unfolding fr_def by (rule irq_vector)
  then have v: "unat (f_int_no fr) = 32 + n" using assms(3) by (simp only:) (rule unat_of_nat_u32, simp)
  define s1 where "s1 = pic_send_eoi (ucast (f_int_no fr - 32)) ((disable_interrupts s)\<lparr>in_interrupt_context := True\<rparr>)"
  have s1: "interrupt_handlers s1 = interrupt_handlers s" "lasting (s1\<lparr>eflags := eflags s\<rparr>) = lasting s" "tick s1 = tick s"
    by (simp_all add: s1_def disable_interrupts_def lasting_def pic_send_eoi_def outb_def Let_def)
  have le: "lasting (t\<lparr>in_interrupt_context := b, eflags := e\<rparr>) = lasting (t\<lparr>eflags := e\<rparr>)"
    "lasting ((printk fmt args t)\<lparr>eflags := e\<rparr>) = lasting (t\<lparr>eflags := e\<rparr>)" for t :: "'a kheap_state_scheme" and b e fmt args
    by (simp_all add: lasting_def)
  define h where "h = interrupt_handlers s (32 + n)"
  have "irq_handler code fr (disable_interrupts s) = seq_bind (if h \<noteq> 0 then code h fr s1
        else Inr (printk ''\<newline>Unhandled IRQ: 0x%x\<newline>'' [Word (f_int_no fr)] s1)) (\<lambda>s. Inr (s\<lparr>in_interrupt_context := False\<rparr>))" for code
    unfolding irq_handler_def Let_def s1_def [symmetric] s1(1) v h_def ..
  then have deliver: "take_irq (handler_code syms others) n x s =
      seq_bind (if h \<noteq> 0 then handler_code syms others h fr s1
        else Inr (printk ''\<newline>Unhandled IRQ: 0x%x\<newline>'' [Word (f_int_no fr)] s1))
       (\<lambda>s'. Inr (s'\<lparr>in_interrupt_context := False, eflags := eflags s\<rparr>))"
    using assms(1) unfolding x take_irq_def deliver_irq_def Let_def prod.case fr_def [symmetric] stub_restores
    by (simp add: seq_bind_def split: sum.splits)
  show ?thesis
  proof (cases "h = 0")
    case True
    then have "ticks_of [(n, x)] s = 0" by (auto simp: ticks_of_def h_def)
    with True s1 show ?thesis unfolding deliver by (simp add: le)
  next
    case False
    then have n: "n = 0" "h = timer_callback_sym syms" using assms(2,3) by (auto simp: timer_only_def h_def)
    then have "ticks_of [(n, x)] s = 1" using False by (simp add: ticks_of_def h_def)
    moreover have "lasting ((s1\<lparr>tick := k\<rparr>)\<lparr>in_interrupt_context := False, eflags := eflags s\<rparr>) = lasting s" for k
      using s1(2) by (simp add: lasting_def)
    ultimately show ?thesis using False n s1 unfolding deliver by (simp add: handler_code_def timer_callback_def)
  qed
qed

lemma interrupts_lasting:
  "interrupts_enabled s \<Longrightarrow> timer_only syms s \<Longrightarrow> lines_ok qs \<Longrightarrow>
   \<exists>t. interrupts (handler_code syms others) qs s = Inr t \<and> lasting t = lasting s \<and> tick t = tick s + of_nat (ticks_of qs s)"
proof (induction qs arbitrary: s)
  case Nil
  then show ?case by (simp add: ticks_of_def)
next
  case (Cons q qs)
  from take_irq_lasting [OF Cons.prems(1,2), of "fst q" others "snd q"] Cons.prems(3) obtain t where
    t: "take_irq (handler_code syms others) (fst q) (snd q) s = Inr t" "lasting t = lasting s"
      "tick t = tick s + of_nat (ticks_of [q] s)" by (auto simp: lines_ok_def)
  note l = lasting_eqD [OF t(2)]
  have "interrupts_enabled t" "timer_only syms t" "lines_ok qs"
    using Cons.prems l(2,13) by (simp_all add: interrupts_enabled_def lines_ok_def)
  from Cons.IH [OF this] obtain u where
    "interrupts (handler_code syms others) qs t = Inr u" "lasting u = lasting t" "tick u = tick t + of_nat (ticks_of qs t)" by blast
  moreover have "ticks_of (q # qs) s = ticks_of [q] s + ticks_of qs t" by (simp add: ticks_of_def l(4))
  ultimately show ?case using t by (simp add: add.assoc)
qed

subsection \<open>The boot sequence under interrupts\<close>

text \<open>What holds of the interrupts from \<open>init_timer\<close> on.\<close>

definition served :: "symbols \<Rightarrow> 'a kheap_state_scheme \<Rightarrow> bool" where
  "served syms s \<longleftrightarrow> interrupts_enabled s \<and> timer_only syms s \<and> interrupt_handlers s 32 = timer_callback_sym syms \<and>
     idtr s = Some \<lparr>idt_limit = 2047, idt_base = idt_sym syms\<rparr>"

lemma served_cong:
  "eflags t = eflags s \<Longrightarrow> interrupt_handlers t = interrupt_handlers s \<Longrightarrow> idtr t = idtr s \<Longrightarrow> served syms t = served syms s"
  by (simp add: served_def interrupts_enabled_def timer_only_def)

definition timer_irqs :: "irq list \<Rightarrow> nat" where
  "timer_irqs qs = length (filter (\<lambda>q. fst q = 0) qs)"

lemma interrupts_served:
  assumes "served syms s" "timer_callback_sym syms \<noteq> 0" "lines_ok qs"
  shows "\<exists>t. interrupts (handler_code syms others) qs s = Inr t \<and> lasting t = lasting s \<and> served syms t \<and>
    tick t = tick s + of_nat (timer_irqs qs)"
proof -
  from assms obtain t where t: "interrupts (handler_code syms others) qs s = Inr t" "lasting t = lasting s"
      "tick t = tick s + of_nat (ticks_of qs s)"
    using interrupts_lasting [of s syms qs others] by (auto simp: served_def)
  moreover have "ticks_of qs s = timer_irqs qs" using assms(1,2) by (simp add: served_def ticks_of_def timer_irqs_def)
  moreover have "served syms t" using served_cong [of t s syms] lasting_eqD [OF t(2)] assms(1) by simp
  ultimately show ?thesis by auto
qed

interpretation clock: outside_heap "\<lambda>s. (tables s, tick s)"
  by unfold_locales (simp_all add: tables_def)

lemma entry_state:
  fixes s :: "'a kheap_state_scheme" and syms p eax
  defines "s1 \<equiv> enable_interrupts (idt_init syms (gdt_init syms p eax (printk ''Hello, kernel world!\<newline>'' [] (vga_clear s))))"
  shows "memory s1 = memory s" "interrupts_enabled s1" "interrupt_handlers s1 = interrupt_handlers s"
    "idtr s1 = Some \<lparr>idt_limit = 2047, idt_base = idt_sym syms\<rparr>"
proof -
  have v: "memory (vga_clear s) = memory s" "interrupt_handlers (vga_clear s) = interrupt_handlers s"
    by (simp_all add: memory_def vga_clear_def vga_sync_cursor_def outb_def Let_def)
  have "interrupt_handlers (gdt_init syms p eax t) = interrupt_handlers t" for t :: "'a kheap_state_scheme"
    by (simp add: gdt_init_def Let_def gdt_set_gate_def gdt_flush_def tss_flush_def)
  then show "interrupt_handlers s1 = interrupt_handlers s" by (simp add: s1_def enable_interrupts_def idt_init_loads v)
  show "memory s1 = memory s"
    using v idt_init_keeps [of syms "gdt_init syms p eax (printk ''Hello, kernel world!\<newline>'' [] (vga_clear s))"]
      gdt_init_keeps [of syms p eax "printk ''Hello, kernel world!\<newline>'' [] (vga_clear s)"]
    by (simp add: memory_def s1_def enable_interrupts_def)
  show "interrupts_enabled s1" "idtr s1 = Some \<lparr>idt_limit = 2047, idt_base = idt_sym syms\<rparr>"
    by (simp add: s1_def, simp add: s1_def enable_interrupts_def idt_init_loads)
qed

lemma timer_state:
  assumes "interrupts_enabled s" "timer_only syms s" "idtr s = Some \<lparr>idt_limit = 2047, idt_base = idt_sym syms\<rparr>"
  shows "\<exists>t. init_timer syms TIMER_FREQUENCY s = Some t \<and> memory t = memory s \<and> served syms t"
proof -
  define t where "t = program_pit (1193180 div 50) (register_interrupt_handler INT_IRQ0 (timer_callback_sym syms) s)"
  have "memory t = memory s" "interrupt_handlers t = (interrupt_handlers s)(32 := timer_callback_sym syms)"
    "eflags t = eflags s" "idtr t = idtr s"
    unfolding t_def register_interrupt_handler_def by (simp_all add: memory_def program_pit_def outb_def Let_def)
  with assms have "memory t = memory s" "served syms t"
    by (auto simp: served_def timer_only_def interrupts_enabled_def)
  moreover have "init_timer syms TIMER_FREQUENCY s = Some t" by (simp add: init_timer_def TIMER_FREQUENCY_def t_def)
  ultimately show ?thesis by blast
qed

lemma boot_info_same:
  "mem t = mem s \<Longrightarrow> the_boot_info t = the_boot_info s \<Longrightarrow> the_boot_info (boot_info_init sections t) = the_boot_info (boot_info_init sections s)"
  by (simp add: boot_info_init_def Let_def split_beta)

lemma kernel_boot_irqs_served:
  fixes s :: "'a kheap_state_scheme" and sections
  defines "bi \<equiv> the_boot_info (boot_info_init sections s)"
  assumes small: "\<forall>e \<in> set (entries bi). unat (e_addr e) + unat (e_size e) \<le> 2 ^ 43"
    and fits: "unat (highest_end (entries bi)) div 4096 \<le> 1048576"
    and handlers: "\<forall>n < 16. interrupt_handlers s (32 + n) = 0" and cb: "timer_callback_sym syms \<noteq> 0"
    and lines: "\<And>i. lines_ok (irqs i)"
  shows "\<exists>t. kernel_boot_irqs (handler_code syms others) irqs syms p eax sections s = Some (Inr t) \<and> mem t = mem s \<and> served syms t \<and>
    interrupt_handlers t 14 = page_fault_handler_sym syms \<and>
    tick t = tick s + of_nat (timer_irqs (irqs 1 @ irqs 2 @ irqs 3 @ irqs 4))"
proof -
  define s1 where "s1 = enable_interrupts (idt_init syms (gdt_init syms p eax (printk ''Hello, kernel world!\<newline>'' [] (vga_clear s))))"
  note s1 = entry_state [of syms p eax s, folded s1_def]
  have "timer_only syms s1" using handlers by (simp add: timer_only_def s1(3))
  with s1(2) lines obtain a1 where a1: "interrupts (handler_code syms others) (irqs 0) s1 = Inr a1" "lasting a1 = lasting s1"
      "tick a1 = tick s1 + of_nat (ticks_of (irqs 0) s1)" using interrupts_lasting by blast
  have "interrupt_handlers s 32 = 0" using handlers by (metis add.right_neutral zero_less_numeral)
  then have tick1: "tick a1 = tick s1" using a1(3) s1(3) by (simp add: ticks_of_def)
  note l1 = lasting_eqD [OF a1(2)]
  have "interrupts_enabled a1" "timer_only syms a1" "idtr a1 = Some \<lparr>idt_limit = 2047, idt_base = idt_sym syms\<rparr>"
    using s1 l1 \<open>timer_only syms s1\<close> by (simp_all add: interrupts_enabled_def)
  from timer_state [OF this] obtain s2 where s2: "init_timer syms TIMER_FREQUENCY a1 = Some s2" "memory s2 = memory a1" "served syms s2" by blast
  from interrupts_served [OF s2(3) cb lines] obtain a2 where
    a2: "interrupts (handler_code syms others) (irqs 1) s2 = Inr a2" "lasting a2 = lasting s2" "served syms a2"
      "tick a2 = tick s2 + of_nat (timer_irqs (irqs 1))" by blast
  define s3 where "s3 = boot_info_init sections a2"
  have same: "mem a2 = mem s" "the_boot_info a2 = the_boot_info s" "tick s2 = tick s"
    using lasting_eqD [OF a2(2)] s2(2) l1 s1(1) tick1 by (simp_all add: memory_def)
  have bi: "the_boot_info s3 = bi" "magic bi = BOOT_INFO_MAGIC"
    using boot_info_same [OF same(1,2)] by (simp_all add: s3_def bi_def) (simp add: boot_info_init_def Let_def split_beta)
  have s3: "vectors s3 = vectors a2" by (simp add: s3_def vectors_def boot_info_init_def split_beta Let_def)
  then have "served syms s3" using served_cong [of s3 a2 syms] a2(3) by (simp add: vectors_def)
  from interrupts_served [OF this cb lines] obtain a3 where
    a3: "interrupts (handler_code syms others) (irqs 2) s3 = Inr a3" "lasting a3 = lasting s3" "served syms a3"
      "tick a3 = tick s3 + of_nat (timer_irqs (irqs 2))" by blast
  obtain s4 where p: "pmm_init bi a3 = Inr s4"
    using pmm_init_frames [OF bi(2) small, of a3] fits by auto
  have s4: "vectors s4 = vectors a3" using pmm_init_keeps [OF p] by simp
  then have "served syms s4" using served_cong [of s4 a3 syms] a3(3) by (simp add: vectors_def)
  from interrupts_served [OF this cb lines] obtain a4 where
    a4: "interrupts (handler_code syms others) (irqs 3) s4 = Inr a4" "lasting a4 = lasting s4" "served syms a4"
      "tick a4 = tick s4 + of_nat (timer_irqs (irqs 3))" by blast
  define s5 where "s5 = vmm_init syms a4"
  have s5: "mem s5 = mem a4" "tick s5 = tick a4" "interrupt_handlers s5 14 = page_fault_handler_sym syms" "served syms s5"
    using a4(3) by (auto simp: s5_def vmm_init_def Let_def register_interrupt_handler_def served_def interrupts_enabled_def timer_only_def)
  from interrupts_served [OF s5(4) cb lines] obtain a5 where
    a5: "interrupts (handler_code syms others) (irqs 4) s5 = Inr a5" "lasting a5 = lasting s5" "served syms a5"
      "tick a5 = tick s5 + of_nat (timer_irqs (irqs 4))" by blast
  have "kernel_boot_irqs (handler_code syms others) irqs syms p eax sections s = Some (Inr a5)"
    unfolding kernel_boot_irqs_def Let_def s1_def [symmetric]
    using a1(1) s2(1) a2(1) a3(1) p lasting_eqD(6) [OF a3(2)] bi(1) a4(1) a5(1)
    by (simp add: run_bind_def s3_def [symmetric] s5_def [symmetric])
  moreover have "mem a5 = mem s" "interrupt_handlers a5 14 = page_fault_handler_sym syms"
    using lasting_eqD(1,4) [OF a5(2)] s5(1,3) lasting_eqD(1) [OF a4(2)] s4 lasting_eqD(1) [OF a3(2)] s3 same(1)
    by (simp_all add: vectors_def)
  moreover have "tick a5 = tick s + of_nat (timer_irqs (irqs 1 @ irqs 2 @ irqs 3 @ irqs 4))"
    using a5(4) s5(2) a4(4) s4 a3(4) s3 a2(4) same(3) by (simp add: vectors_def timer_irqs_def add.assoc)
  ultimately show ?thesis using a5(3) by blast
qed

lemma heap_phase_irqs:
  assumes "served syms s" "init_guards (mem s)" "timer_callback_sym syms \<noteq> 0" "lines_ok xs" "lines_ok ys"
    "interrupt_handlers s 14 = page_fault_handler_sym syms"
  shows "\<exists>t. run_bind (Some (init_kheap s)) (\<lambda>s. run_bind (Some (interrupts (handler_code syms others) xs s)) (\<lambda>s.
      run_bind (kheap_killer s) (\<lambda>s. Some (interrupts (handler_code syms others) ys s)))) = Some (Inr t) \<and>
    idling syms t \<and> tick t = tick s + of_nat (timer_irqs (xs @ ys))"
proof -
  obtain s6 where k: "init_kheap s = Inr s6" "represents {} s6" "capacity s6 = 0x1FFFB"
    "kh_end_address (kheap s6) = 0xC0F00000" "kh_max_address (kheap s6) = KHEAP_MAX"
    using init_kheap_ok [of s] assms(2) by auto
  have c6: "tables s6 = tables s" "tick s6 = tick s" using clock.f_init_kheap [OF k(1)] by simp_all
  then have "served syms s6" using served_cong [of s6 s syms] assms(1) by (simp add: tables_def)
  from interrupts_served [OF this assms(3,4)] obtain a6 where
    a6: "interrupts (handler_code syms others) xs s6 = Inr a6" "lasting a6 = lasting s6" "served syms a6"
      "tick a6 = tick s6 + of_nat (timer_irqs xs)" by blast
  note l6 = lasting_eqD [OF a6(2)]
  have "represents {} a6" "capacity a6 = 0x1FFFB" using represents_cong [OF l6(1,9,10)] k(2,3) by (simp_all add: capacity_def l6(9))
  then obtain s7 where r: "kheap_killer a6 = Some (Inr s7)" "represents {} s7"
    using kheap_killer_returns [of a6] by (auto simp: l6(9) k(4,5) KHEAP_MAX_def)
  have c7: "tables s7 = tables a6" "tick s7 = tick a6" using clock.f_kheap_killer [OF r(1)] by simp_all
  then have "served syms s7" using served_cong [of s7 a6 syms] a6(3) by (simp add: tables_def)
  from interrupts_served [OF this assms(3,5)] obtain a7 where
    a7: "interrupts (handler_code syms others) ys s7 = Inr a7" "lasting a7 = lasting s7" "served syms a7"
      "tick a7 = tick s7 + of_nat (timer_irqs ys)" by blast
  note l7 = lasting_eqD [OF a7(2)]
  have "interrupt_handlers a7 14 = page_fault_handler_sym syms"
    using l7(4) c7(1) l6(4) c6(1) assms(6) by (simp add: tables_def)
  then have "idling syms a7"
    using represents_cong [OF l7(1,9,10)] r(2) a7(3) by (simp add: idling_def served_def)
  moreover have "tick a7 = tick s + of_nat (timer_irqs (xs @ ys))"
    using a7(4) c7(2) a6(4) c6(2) by (simp add: timer_irqs_def add.assoc)
  ultimately show ?thesis using k(1) a6(1) r(1) a7(1) by (simp add: run_bind_def)
qed

lemma kernel_main_irqs_idling:
  fixes s :: "'a kheap_state_scheme" and sections
  defines "bi \<equiv> the_boot_info (boot_info_init sections s)"
  assumes "init_guards (mem s)" "\<forall>e \<in> set (entries bi). unat (e_addr e) + unat (e_size e) \<le> 2 ^ 43"
    and "unat (highest_end (entries bi)) div 4096 \<le> 1048576"
    and handlers: "\<forall>n < 16. interrupt_handlers s (32 + n) = 0" and cb: "timer_callback_sym syms \<noteq> 0"
    and lines: "\<And>i. lines_ok (irqs i)"
  shows "\<exists>t. kernel_main_irqs (handler_code syms others) irqs syms p eax sections s = Some (Inr t) \<and> idling syms t \<and>
    tick t = tick s + of_nat (timer_irqs (concat (map irqs [1..<7])))"
proof -
  obtain s5 where s5: "kernel_boot_irqs (handler_code syms others) irqs syms p eax sections s = Some (Inr s5)" "mem s5 = mem s"
      "served syms s5" "interrupt_handlers s5 14 = page_fault_handler_sym syms"
      "tick s5 = tick s + of_nat (timer_irqs (irqs 1 @ irqs 2 @ irqs 3 @ irqs 4))"
    using kernel_boot_irqs_served [OF assms(3,4) [unfolded bi_def] handlers cb, of irqs others p eax] lines by blast
  have "init_guards (mem s5)" using assms(2) s5(2) by simp
  from heap_phase_irqs [OF s5(3) this cb lines lines s5(4)] obtain t where
    t: "run_bind (Some (init_kheap s5)) (\<lambda>s. run_bind (Some (interrupts (handler_code syms others) (irqs 5) s)) (\<lambda>s.
      run_bind (kheap_killer s) (\<lambda>s. Some (interrupts (handler_code syms others) (irqs 6) s)))) = Some (Inr t)"
      "idling syms t" "tick t = tick s5 + of_nat (timer_irqs (irqs 5 @ irqs 6))" by blast
  have "[1..<7] = [1, 2, 3, 4, 5, 6 :: nat]" by code_simp
  then have "tick t = tick s + of_nat (timer_irqs (concat (map irqs [1..<7])))"
    using t(3) s5(5) by (simp add: timer_irqs_def add.assoc)
  with t s5(1) show ?thesis by (simp add: kernel_main_irqs_def)
qed


end
