(* ===== verification/Boot.thy ===== *)
theory Boot
  imports Mode_switch Disk Boot_irqs
begin

text \<open>
  The whole way: from the page tables of \<open>setup_page\<close>, through the mappings of the loader, the image on the
  disk and its segments, to \<open>main\<close> and the interrupts that it runs and idles under.
\<close>

lemma boot_info_phys: "the_boot_info (boot_info_init sections (s\<lparr>phys := x\<rparr>)) = the_boot_info (boot_info_init sections s)"
  by (simp add: boot_info_init_def Let_def split_beta)

text \<open>Without the disk: the mappings of the loader, \<open>main\<close> and every sequence of timer interrupts after it.\<close>

theorem boot_to_ticks:
  fixes s :: "'a kheap_state_scheme" and sections
  defines "bi \<equiv> the_boot_info (boot_info_init sections s)"
  assumes tables: "phys s = setup_page m" "dir_base s = KERNEL_PAGE_DIR_PHY" "tlb s = (\<lambda>_. None)"
      "\<forall>a. 0x102000 \<le> unat a \<longrightarrow> unat a < 0x200000 \<longrightarrow> m a = 0"
    and main: "init_guards (mem s)" "\<forall>e \<in> set (entries bi). unat (e_addr e) + unat (e_size e) \<le> 2 ^ 43"
      "unat (highest_end (entries bi)) div 4096 \<le> 1048576"
    and callback: "timer_callback_sym syms \<noteq> 0"
  shows "\<exists>t s1 s2. allocate_pages_for_kernel s = Some t \<and>
    kernel_main syms gdt_ptr_addr eax sections t = Some (Inr s1) \<and>
    take_irqs (handler_code syms others) 0 xs s1 = Inr s2 \<and>
    idling syms s2 \<and> tick s2 = tick s1 + of_nat (length xs)"
proof -
  from allocate_pages_mmu [OF tables] obtain t where
    t: "allocate_pages_for_kernel s = Some t" "kernel_layout t" "tlb t = (\<lambda>_. None)" "t = s\<lparr>phys := phys t\<rparr>" by blast
  have bi: "the_boot_info (boot_info_init sections t) = bi" unfolding bi_def by (subst t(4)) (rule boot_info_phys)
  have mem: "mem t = mem s" by (subst t(4)) simp
  have "tlb_coherent t" by (simp add: tlb_coherent_def t(3))
  with main t(2) have "init_guards (mem t)" "\<forall>e \<in> set (entries (the_boot_info (boot_info_init sections t))). unat (e_addr e) + unat (e_size e) \<le> 2 ^ 43"
      "unat (highest_end (entries (the_boot_info (boot_info_init sections t)))) div 4096 \<le> 1048576" "kernel_layout t" "tlb_coherent t"
    by (simp_all add: bi mem)
  from kernel_main_idling [OF this, of syms gdt_ptr_addr eax] obtain s1 where
    s1: "kernel_main syms gdt_ptr_addr eax sections t = Some (Inr s1)" "idling syms s1" by auto
  then have i: "interrupts_enabled s1" "interrupt_handlers s1 32 = timer_callback_sym syms" by (simp_all add: idling_def)
  have "\<exists>s2. take_irqs (handler_code syms others) 0 xs s1 = Inr s2 \<and> idling syms s2 \<and> tick s2 = tick s1 + of_nat (length xs)"
  proof (cases "xs = []")
    case False
    then show ?thesis using take_timer_irqs [OF i callback False] idling_ticked [OF s1(2)] by simp
  qed (simp add: s1(2))
  with t(1) s1(1) show ?thesis by blast
qed

subsection \<open>From the disk\<close>

text \<open>
  \<open>init_kernel\<close> of the loader, up to \<open>jmp eax\<close>: the entry point, the drive and the state. The image and the
  segments are in \<open>mem\<close>, the memory behind the mappings that \<open>allocate_pages_for_kernel\<close> makes. The stack that
  ESP is set to and the floating point unit, which \<open>finit\<close> resets, are not part of the state.
\<close>

definition init_kernel :: "disk \<Rightarrow> ata \<Rightarrow> 'a vmm_state_scheme \<Rightarrow> (u32 \<times> ata \<times> 'a vmm_state_scheme) option" where
  "init_kernel disk d s =
     Option.bind (allocate_pages_for_kernel s) (\<lambda>s.
     Option.bind (load_hd_kernel_image disk (mem s) d) (\<lambda>(m, d).
     let (eax, m) = do_load_kernel m in Some (eax, d, s\<lparr>mem := m\<rparr>)))"

text \<open>The segments are for the pages of the kernel.\<close>

definition kernel_segments :: "disk \<Rightarrow> bool" where
  "kernel_segments disk \<longleftrightarrow>
     (\<forall>h \<in> set (disk_segments disk). 0xC0800000 \<le> unat (p_vaddr h) \<and> unat (p_vaddr h) + unat (p_filesz h) \<le> 0xC0900000)"

lemma overlay_outside:
  assumes "\<forall>h \<in> set hs. lo \<le> unat (p_vaddr h) \<and> unat (p_vaddr h) + unat (p_filesz h) \<le> hi" "unat x < lo \<or> hi \<le> unat x"
  shows "overlay m hs k x = k x"
proof -
  have "\<not> covers x h" if "h \<in> set hs" for h using bspec [OF assms(1) that] assms(2) by (auto simp: covers_def)
  then have "find (covers x) (rev hs) = None" by (simp add: find_None_iff)
  then show ?thesis by (simp add: overlay_def)
qed

lemma init_kernel_loads:
  assumes "allocate_pages_for_kernel s = Some t" "t = s\<lparr>phys := phys t\<rparr>" "readable disk 9 2048" "loadable (disk_image disk)" "kernel_segments disk"
  shows "\<exists>d1 m. init_kernel disk d s = Some (load32 (disk_image disk) 0xFFF00018, d1, t\<lparr>mem := m\<rparr>) \<and>
    (\<forall>x. 0xC0800000 \<le> unat x \<longrightarrow> unat x < 0xC0900000 \<longrightarrow> m x = overlay (disk_image disk) (disk_segments disk) (mem s) x) \<and>
    same_on (mem s) m 0 0xC0800000 \<and> same_on (mem s) m 0xC0900000 0xFFF00000"
proof -
  obtain m1 d1 where m1: "load_hd_kernel_image disk (mem s) d = Some (m1, d1)" "same_on (mem s) m1 0 0xFFF00000"
      "do_load_kernel m1 = (load32 (disk_image disk) 0xFFF00018, overlay (disk_image disk) (disk_segments disk) m1)"
    using kernel_from_disk [OF assms(3,4)] by blast
  define m where "m = overlay (disk_image disk) (disk_segments disk) m1"
  have low: "m1 x = mem s x" if "unat x < 0xFFF00000" for x using same_on_byte [OF m1(2) le0 that] by simp
  have "mem t = mem s" by (subst assms(2)) simp
  then have "init_kernel disk d s = Some (load32 (disk_image disk) 0xFFF00018, d1, t\<lparr>mem := m\<rparr>)"
    by (simp add: init_kernel_def assms(1) m1(1,3) m_def)
  moreover have "m x = overlay (disk_image disk) (disk_segments disk) (mem s) x" if "unat x < 0xC0900000" for x
    using low [of x] that by (simp add: m_def overlay_def split: option.split)
  moreover have "same_on (mem s) m 0 0xC0800000" "same_on (mem s) m 0xC0900000 0xFFF00000"
    unfolding same_on_def m_def using assms(5) low
    by (auto simp: kernel_segments_def unat_of_nat_u32 intro!: trans [OF overlay_outside [where lo = "0xC0800000" and hi = "0xC0900000"]])
  ultimately show ?thesis by blast
qed

text \<open>What the kernel assumes of its memory is not touched by the segments.\<close>

lemma init_guards_same: "same_on m m' 0xC0900000 0xFFF00000 \<Longrightarrow> init_guards m \<Longrightarrow> init_guards m'"
proof -
  assume a: "same_on m m' 0xC0900000 0xFFF00000" "init_guards m"
  have "load32 m' (word_of_nat p) = load32 m (word_of_nat p)" if "0xC0C00000 \<le> p" "p \<le> 0xE0000000" for p
    using that by (intro load32_same_on [OF a(1)]) simp_all
  note this [of "0xC0C7FFF8"] this
  then have "load32 m' 0xC0C7FFF8 = load32 m 0xC0C7FFF8"
    "\<And>p. 0xC0F00000 \<le> p \<Longrightarrow> p \<le> 0xE0000000 \<Longrightarrow> load32 m' (addr p) = load32 m (addr p)" by (simp_all add: addr_def)
  then show "init_guards m'" using a(2) unfolding init_guards_def by metis
qed

lemma read_e820_cong:
  "(\<And>i. i < 128 \<Longrightarrow> buf i = buf' i) \<Longrightarrow> read_e820 buf cnt m = read_e820 buf' cnt m"
proof (induction buf cnt m rule: read_e820.induct)
  case (1 buf cnt m)
  then show ?case unfolding read_e820.simps [of buf cnt m] read_e820.simps [of buf' cnt m] by (auto simp: fun_upd_def)
qed

lemma boot_info_memory:
  assumes "same_on (mem s) (mem t) 0 0xC0800000" "the_boot_info t = the_boot_info s"
  shows "the_boot_info (boot_info_init sections t) = the_boot_info (boot_info_init sections s)"
proof -
  have "e820_at (mem t) E820_BUFFER_VIRT i = e820_at (mem s) E820_BUFFER_VIRT i" if "i < 128" for i
    using e820_at_same [OF assms(1), of "0xC0009000" i] that by simp
  from read_e820_cong [OF this] show ?thesis by (simp add: boot_info_init_def Let_def split_beta assms(2))
qed

text \<open>From the page tables on.\<close>

lemma init_kernel_to_idle:
  fixes s :: "'a kheap_state_scheme" and sections
  defines "bi \<equiv> the_boot_info (boot_info_init sections s)"
  assumes tables: "phys s = setup_page m" "dir_base s = KERNEL_PAGE_DIR_PHY" "tlb s = (\<lambda>_. None)"
      "\<forall>a. 0x102000 \<le> unat a \<longrightarrow> unat a < 0x200000 \<longrightarrow> m a = 0"
    and disk: "readable disk 9 2048" "loadable (disk_image disk)" "kernel_segments disk"
    and main: "init_guards (mem s)" "\<forall>e \<in> set (entries bi). unat (e_addr e) + unat (e_size e) \<le> 2 ^ 43"
      "unat (highest_end (entries bi)) div 4096 \<le> 1048576"
    and irqs: "\<forall>n < 16. interrupt_handlers s (32 + n) = 0" "timer_callback_sym syms \<noteq> 0" "\<forall>i. lines_ok (irqs i)"
  shows "\<exists>d1 t u. init_kernel disk d s = Some (load32 (disk_image disk) 0xFFF00018, d1, t) \<and> kernel_layout t \<and>
    (\<forall>x. 0xC0800000 \<le> unat x \<longrightarrow> unat x < 0xC0900000 \<longrightarrow>
       mem t x = overlay (disk_image disk) (disk_segments disk) (mem s) x) \<and>
    kernel_main_irqs (handler_code syms others) irqs syms gdt_ptr_addr eax sections t = Some (Inr u) \<and> idling syms u \<and>
    tick u = tick t + of_nat (timer_irqs (concat (map irqs [1..<7])))"
proof -
  from allocate_pages_mmu [OF tables] obtain t0 where
    t0: "allocate_pages_for_kernel s = Some t0" "kernel_layout t0" "t0 = s\<lparr>phys := phys t0\<rparr>" by blast
  from init_kernel_loads [OF t0(1,3) disk] obtain d1 m1 where
    l: "init_kernel disk d s = Some (load32 (disk_image disk) 0xFFF00018, d1, t0\<lparr>mem := m1\<rparr>)"
      "\<forall>x. 0xC0800000 \<le> unat x \<longrightarrow> unat x < 0xC0900000 \<longrightarrow> m1 x = overlay (disk_image disk) (disk_segments disk) (mem s) x"
      "same_on (mem s) m1 0 0xC0800000" "same_on (mem s) m1 0xC0900000 0xFFF00000" by blast
  define t where "t = t0\<lparr>mem := m1\<rparr>"
  have t: "mem t = m1" "the_boot_info t = the_boot_info s" "interrupt_handlers t = interrupt_handlers s"
    unfolding t_def by simp (subst t0(3), simp)+
  have "phys t = phys t0" "cr3 t = cr3 t0" "tlb t = tlb t0" by (simp_all add: t_def)
  from paging_cong [OF this] t0(2) have layout: "kernel_layout t" by simp
  have bi: "the_boot_info (boot_info_init sections t) = bi"
    unfolding bi_def by (rule boot_info_memory) (use t l(3) in simp_all)
  have "init_guards (mem t)" using init_guards_same [OF l(4) main(1)] t(1) by simp
  from kernel_main_irqs_idling [OF this _ _ _ irqs(2), of sections irqs others gdt_ptr_addr eax] main(2,3) irqs(1,3)
  obtain u where "kernel_main_irqs (handler_code syms others) irqs syms gdt_ptr_addr eax sections t = Some (Inr u)" "idling syms u"
    "tick u = tick t + of_nat (timer_irqs (concat (map irqs [1..<7])))" by (auto simp: bi t(3))
  with l(1,2) layout t(1) show ?thesis by (intro exI [of _ d1] exI [of _ t] exI [of _ u]) (simp add: t_def)
qed


end
