(* ===== verification/Loader_start.thy ===== *)
theory Loader_start
  imports Boot
begin

text \<open>
  The loader from its entry on: \<open>loader_start\<close> in real mode, over the services and the memory of theory
  \<open>Boot_sector\<close>, and \<open>init_pm\<close>, which loads the segment registers, shows text, turns paging on and
  loads the kernel. The parts do what they should; the whole stops at the first text, where the video
  segment ends before the screen does.
\<close>

subsection \<open>Real mode\<close>

text \<open>The second call moves the cursor; AX and BX are those of the first but for AH and BH.\<close>

definition loader_cls :: "real_state \<Rightarrow> real_state" where
  "loader_cls s = int10 0x0200 0 0 0 (int10 0x0600 0x0700 0 0x184F s)"

text \<open>With CX and DX as \<open>cls\<close> leaves them.\<close>

partial_function (option) print_bios :: "u16 \<Rightarrow> real_state \<Rightarrow> real_state option" where
  "print_bios bx s =
     (let al = rm_mem s (ucast bx) in
      if al = 0 then Some s else print_bios (bx + 1) (int10 (0x0E00 OR ucast al) bx 0 0 s))"

lemma print_bios_start: "text_at (rm_mem s) bx str \<Longrightarrow> print_bios bx s = print_start 0 0 bx s"
proof (induction str arbitrary: bx s)
  case (Cons c cs)
  then have "print_bios (bx + 1) (int10 (0x0E00 OR ucast c) bx 0 0 s) = print_start 0 0 (bx + 1) (int10 (0x0E00 OR ucast c) bx 0 0 s)"
    by (simp add: int10_def)
  with Cons.prems show ?case by (subst print_bios.simps, subst print_start.simps) simp
qed (simp add: print_bios.simps print_start.simps)

text \<open>\<open>lgdt\<close> with an operand size of 16 bits loads 24 bits of the base.\<close>

definition lgdt16 :: "u32 \<Rightarrow> pm_cpu \<Rightarrow> 'a vmm_state_scheme \<Rightarrow> 'a vmm_state_scheme option" where
  "lgdt16 a c s = do { l \<leftarrow> ld32 c a s; b \<leftarrow> ld32 c (a + 2) s;
     Some (s\<lparr>gdtr := Some \<lparr>gdt_limit = ucast l, gdt_base = b AND 0x00FFFFFF\<rparr>\<rparr>) }"

definition CR0_PE :: u32 where [simp]: "CR0_PE = push_bit 0 1"
definition MBR_BASE_ADDR :: u32 where [simp]: "MBR_BASE_ADDR = 0x7C00"
definition SELECTOR_CODE32 :: u16 where [simp]: "SELECTOR_CODE32 = push_bit 3 1"
definition SELECTOR_DATA32 :: u16 where [simp]: "SELECTOR_DATA32 = push_bit 3 2"

text \<open>A segment register other than GS: its descriptor has to be in the table; it is not kept.\<close>

definition selectable :: "u16 \<Rightarrow> 'a vmm_state_scheme \<Rightarrow> bool" where
  "selectable sel s \<longleftrightarrow> (\<exists>g. gdtr s = Some g \<and> unat (sel AND 0xFFF8) + 7 \<le> unat (gdt_limit g))"

text \<open>
  From \<open>loader_start\<close> to the far jump. \<open>SET_STACK_AT_MBR\<close> loads SP, the low half of ESP. The memory of the
  BIOS is the physical memory.
\<close>

definition loader_start ::
  "u32 \<Rightarrow> u16 \<Rightarrow> real_state \<Rightarrow> pm_cpu \<Rightarrow> 'a vmm_state_scheme \<Rightarrow> (real_state \<times> pm_cpu \<times> 'a vmm_state_scheme) option" where
  "loader_start gd msg t c s = do {
     let s = disable_interrupts s;
     let s = s\<lparr>segs := (segs s)\<lparr>seg_ds := 0, seg_es := 0, seg_fs := 0, seg_gs := 0, seg_ss := 0\<rparr>\<rparr>;
     let c = c\<lparr>esp := (esp c AND 0xFFFF0000) OR MBR_BASE_ADDR\<rparr>;
     t \<leftarrow> print_bios msg (loader_cls t);
     let s = s\<lparr>phys := rm_mem t\<rparr>;
     let s = outb 0x92 (inb 0x92 s OR 2) s;
     s \<leftarrow> lgdt16 gd c s;
     let c = c\<lparr>cr0 := cr0 c OR CR0_PE\<rparr>;
     if selectable SELECTOR_CODE32 s then Some (t, c, s\<lparr>segs := (segs s)\<lparr>seg_cs := SELECTOR_CODE32\<rparr>\<rparr>) else None }"

definition init_segments :: "pm_cpu \<Rightarrow> 'a vmm_state_scheme \<Rightarrow> (pm_cpu \<times> 'a vmm_state_scheme) option" where
  "init_segments c s =
     (if selectable SELECTOR_DATA32 s then do {
        let s = s\<lparr>segs := (segs s)\<lparr>seg_ds := SELECTOR_DATA32, seg_es := SELECTOR_DATA32, seg_fs := SELECTOR_DATA32,
                                  seg_ss := SELECTOR_DATA32\<rparr>\<rparr>;
        (c, s) \<leftarrow> load_gs SELECTOR_VIDEO c s;
        Some (c\<lparr>esp := 0x00090000\<rparr>, s)
      } else None)"

subsection \<open>The loader gets ready for paging\<close>

text \<open>The bytes of \<open>DEFINE_STANDARD_GDT\<close> that are read: the video descriptor and the operand of \<open>lgdt\<close>.\<close>

definition loader_table :: "u32 \<Rightarrow> ram \<Rightarrow> bool" where
  "loader_table gd m \<longleftrightarrow> 0x8020 \<le> unat gd \<and> unat gd + 6 \<le> 0x9000 \<and>
     ucast (load32 m gd) = (31 :: u16) \<and> load32 m (gd + 2) = gd - 32 \<and>
     descriptor (load32 m (gd - 8)) (load32 m (gd - 4)) = video_segment"

lemma base24: "unat b < 16777216 \<Longrightarrow> b AND 0x00FFFFFF = b" for b :: u32
proof -
  assume b: "unat b < 16777216"
  have "unat (b AND mask 24) = unat b" using b by (simp add: take_bit_eq_mask [symmetric] unsigned_take_bit_eq take_bit_nat_eq_self)
  then show ?thesis by (simp add: word_unat_eq_iff mask_eq_exp_minus_1)
qed

theorem loader_gets_ready:
  assumes "loader_table gd (rm_mem t)" "text_at (rm_mem t) msg str" "\<not> bit (cr0 c) 31"
  shows "\<exists>t1 c1 s1 c2 s2. loader_start gd msg t c s = Some (t1, c1, s1) \<and> printed str (loader_cls t) t1 \<and>
    init_segments c1 s1 = Some (c2, s2) \<and> loader_ready gd c2 s2 \<and> phys s2 = rm_mem t \<and> gs_desc c2 = video_segment \<and>
    bit (cr0 c2) 0 \<and> \<not> interrupts_enabled s2 \<and>
    (\<exists>v. io_log s2 = io_log s @ [(0x92, v)] \<and> bit v 1 \<and> (\<forall>n. n \<noteq> 1 \<longrightarrow> bit v n = bit (in_port s 0x92) n))"
proof -
  have g: "0x8020 \<le> unat gd" "unat gd + 6 \<le> 0x9000" "ucast (load32 (rm_mem t) gd) = (31 :: u16)" "load32 (rm_mem t) (gd + 2) = gd - 32"
    "descriptor (load32 (rm_mem t) (gd - 8)) (load32 (rm_mem t) (gd - 4)) = video_segment"
    using assms(1) by (simp_all add: loader_table_def)
  have cls: "rm_mem (loader_cls t) = rm_mem t" by (simp add: loader_cls_def int10_def)
  obtain t1 where t1: "print_bios msg (loader_cls t) = Some t1" "printed str (loader_cls t) t1"
    using print_start_text [of "loader_cls t" msg str 0 0] print_bios_start [of "loader_cls t" msg str] assms(2) cls by auto
  have m: "rm_mem t1 = rm_mem t" using t1(2) cls by (simp add: printed_def)
  have "unat (gd - 32) = unat gd - 32" using g by (simp add: unat_sub word_le_nat_alt)
  then have b: "(gd - 32) AND 0x00FFFFFF = gd - 32" using g by (intro base24) simp
  define v where "v = in_port s 0x92 OR 2"
  define s1 where "s1 = (outb 0x92 v (disable_interrupts s))\<lparr>phys := rm_mem t, gdtr := Some \<lparr>gdt_limit = 31, gdt_base = gd - 32\<rparr>,
      segs := (segs s)\<lparr>seg_ds := 0, seg_es := 0, seg_fs := 0, seg_gs := 0, seg_ss := 0, seg_cs := SELECTOR_CODE32\<rparr>\<rparr>"
  define c1 where "c1 = c\<lparr>esp := (esp c AND 0xFFFF0000) OR MBR_BASE_ADDR, cr0 := cr0 c OR CR0_PE\<rparr>"
  have start: "loader_start gd msg t c s = Some (t1, c1, s1)"
    using assms(3) by (simp add: loader_start_def t1 Let_def lgdt16_def m g b selectable_def s1_def c1_def v_def outb_def inb_def disable_interrupts_def)
  define s2 where "s2 = s1\<lparr>segs := (segs s1)\<lparr>seg_ds := SELECTOR_DATA32, seg_es := SELECTOR_DATA32, seg_fs := SELECTOR_DATA32,
      seg_ss := SELECTOR_DATA32, seg_gs := SELECTOR_VIDEO\<rparr>\<rparr>"
  define c2 where "c2 = c1\<lparr>gs_desc := video_segment, esp := 0x90000\<rparr>"
  have off: "\<not> bit (cr0 c1) 31" using assms(3) by (simp add: c1_def bit_simps)
  have sel: "gd - 32 + 0x18 = gd - 8" "gd - 32 + 0x18 + 4 = gd - 4" by simp_all
  have init: "init_segments c1 s1 = Some (c2, s2)"
    using off g(5) sel by (simp add: init_segments_def load_gs_def selectable_def Let_def s2_def c2_def) (simp add: s1_def)
  have "loader_ready gd c2 s2"
    using g off by (simp add: loader_ready_def s2_def c2_def) (simp add: s1_def)
  moreover have "phys s2 = rm_mem t" "\<not> interrupts_enabled s2" "io_log s2 = io_log s @ [(0x92, v)]"
    by (simp_all add: s2_def s1_def outb_def disable_interrupts_def interrupts_enabled_def bit_simps)
  moreover have "bit v 1" "\<forall>n. n \<noteq> 1 \<longrightarrow> bit v n = bit (in_port s 0x92) n"
    by (auto simp: v_def bit_simps)
  moreover have "bit (cr0 c2) 0" "gs_desc c2 = video_segment" by (simp_all add: c2_def c1_def bit_simps)
  ultimately show ?thesis using start t1(2) init by blast
qed

subsection \<open>The whole of the protected mode\<close>

text \<open>
  \<open>init_pm\<close> up to the jump to the kernel: \<open>prot_msg\<close> and \<open>page_msg\<close> are the bytes of the two messages,
  \<open>r1\<close> and \<open>r2\<close> the return addresses of the calls of \<open>setup_page\<close> and \<open>enable_page\<close>. The screen has a state of its own.
\<close>

definition init_pm ::
  "u32 \<Rightarrow> u32 \<Rightarrow> u32 \<Rightarrow> u8 list \<Rightarrow> u8 list \<Rightarrow> disk \<Rightarrow> ata \<Rightarrow> 'b text_state_scheme \<Rightarrow> pm_cpu \<Rightarrow> 'a vmm_state_scheme \<Rightarrow>
   (u32 \<times> ata \<times> 'b text_state_scheme \<times> pm_cpu \<times> 'a vmm_state_scheme) option" where
  "init_pm gd r1 r2 prot_msg page_msg disk d tx c s = do {
     (c, s) \<leftarrow> init_segments c s;
     tx \<leftarrow> clear_screen (gs_desc c) tx;
     tx \<leftarrow> println (gs_desc c) prot_msg 0x0F tx;
     (eip2, eip1, c, s) \<leftarrow> call_setup_page gd r1 r2 c s;
     tx \<leftarrow> println (gs_desc c) page_msg 0x0F tx;
     (eax, d, s) \<leftarrow> init_kernel disk d s;
     Some (eax, d, tx, c, s) }"

text \<open>With the descriptor table of the repository no state comes out of it.\<close>

theorem init_pm_faults:
  assumes "loader_table gd (rm_mem t)" "text_at (rm_mem t) msg str" "\<not> bit (cr0 c) 31"
  shows "\<exists>t1 c1 s1. loader_start gd msg t c s = Some (t1, c1, s1) \<and> init_pm gd r1 r2 prot_msg page_msg disk d tx c1 s1 = None"
proof -
  from loader_gets_ready [OF assms] obtain t1 c1 s1 c2 s2 where
    "loader_start gd msg t c s = Some (t1, c1, s1)" "init_segments c1 s1 = Some (c2, s2)" "gs_desc c2 = video_segment" by blast
  then show ?thesis by (simp add: init_pm_def loader_clear_screen_faults)
qed

text \<open>
  Without the text, from \<open>loader_start\<close> to the entry of \<open>init_kernel\<close>: the registers and the memory are as
  \<open>setup_page\<close> and \<open>enable_page\<close> need them, and the entries of the memory map that the kernel reads stay.
\<close>

theorem loader_start_to_paging:
  assumes "loader_table gd (rm_mem t)" "text_at (rm_mem t) msg str" "\<not> bit (cr0 c) 31"
    and "\<forall>a. 0x102000 \<le> unat a \<longrightarrow> unat a < 0x200000 \<longrightarrow> rm_mem t a = 0"
  shows "\<exists>t1 c1 s1 c2 s2 c3 s3. loader_start gd msg t c s = Some (t1, c1, s1) \<and> init_segments c1 s1 = Some (c2, s2) \<and>
    call_setup_page gd r1 r2 c2 s2 = Some (r2, r1, c3, s3) \<and> gs_desc c3 = move_video_segment video_segment \<and>
    phys s3 = setup_page (phys s3) \<and> dir_base s3 = KERNEL_PAGE_DIR_PHY \<and> tlb s3 = (\<lambda>_. None) \<and>
    (\<forall>i \<le> 128. e820_at (phys s3) 0x9000 i = e820_at (rm_mem t) 0x9000 i)"
proof -
  from loader_gets_ready [OF assms(1-3), of s] obtain t1 c1 s1 c2 s2 where
    l: "loader_start gd msg t c s = Some (t1, c1, s1)" "init_segments c1 s1 = Some (c2, s2)" "loader_ready gd c2 s2" "phys s2 = rm_mem t" by blast
  from paging_on_zero [OF l(3), of r1 r2] assms(4) l(4) obtain c3 s3 where
    p: "call_setup_page gd r1 r2 c2 s2 = Some (r2, r1, c3, s3)" "gs_desc c3 = move_video_segment video_segment"
      "phys s3 = setup_page (phys s3)" "dir_base s3 = KERNEL_PAGE_DIR_PHY" "tlb s3 = (\<lambda>_. None)"
      "\<forall>x. unat x < 0x100000 \<longrightarrow> unat x \<notin> {unat gd - 4..<unat gd + 6} \<union> {unat (esp c2) - 32..<unat (esp c2)} \<longrightarrow>
         phys s3 x = phys s2 x" by auto
  have r: "unat gd + 6 \<le> 0x9000" "0xA000 \<le> unat (esp c2)" using l(3) by (simp_all add: loader_ready_def)
  have "same_on (rm_mem t) (phys s3) 0x9000 0x9F00"
    unfolding same_on_def using p(6) l(4) r by (auto simp: unat_of_nat_u32)
  from e820_at_same [OF this, of "0x9000"] have "\<forall>i \<le> 128. e820_at (phys s3) 0x9000 i = e820_at (rm_mem t) 0x9000 i" by simp
  with l(1,2) p(1-5) show ?thesis by blast
qed

end
