(* ===== verification/Examples.thy ===== *)
theory Examples
  imports Cstring Vmm Locks
begin

text \<open>
  Concrete states on which the hypotheses of the properties hold: the kernel as the loader leaves
  it (an empty screen, the page directory and tables of \<open>setup_page\<close>, every descriptor zero) with
  4 MiB of memory whose first 2 MiB are reserved, and the properties applied to it.
\<close>

definition low_reserved :: "nat \<Rightarrow> u8" where
  "low_reserved i = (if i < 64 then 255 else 0)"

definition power_on :: vmm_state where
  "power_on =
    \<lparr>mem = (\<lambda>_. 0), in_port = (\<lambda>_. 0), stale_word = 0, io_log = [], eflags = 0x202, cr2 = 0xC0C01234,
     cr3 = 0x101000,
     VGA_BUF = (\<lambda>_. 0), cursor_row = 3, cursor_col = 0, current_color = 0x0F,
     interrupt_handlers = (\<lambda>_. 0), idt = (\<lambda>_. mk_gate 0 0 0), the_idt_ptr = \<lparr>idt_limit = 0, idt_base = 0\<rparr>,
     idtr = None, in_interrupt_context = False,
     tick = 0, seed = 1,
     gdt = (\<lambda>_. empty_gdt_entry), the_gdt_ptr = \<lparr>gdt_limit = 0, gdt_base = 0\<rparr>, tss = empty_tss,
     gdtr = None,
     segs = \<lparr>seg_cs = 8, seg_ds = 16, seg_es = 16, seg_fs = 16, seg_gs = 16, seg_ss = 16, seg_tr = 0\<rparr>,
     the_boot_info = \<lparr>magic = BOOT_INFO_MAGIC, e820_count = 0, e820_map = (\<lambda>_. \<lparr>e_addr = 0, e_size = 0,
       e_type = 0, e_acpi = 0\<rparr>), kernel_sections = \<lparr>text_start = 0, text_end = 0, rodata_start = 0,
       rodata_end = 0, data_start = 0, data_end = 0, bss_start = 0, bss_end = 0, kernel_end = 0,
       kernel_size = 0, kernel_phys_base = 0x200000, kernel_virt_base = 0xC0C00000\<rparr>\<rparr>,
     pmm_bitmap = low_reserved, pmm_bitmap_size_bytes = 128, pmm_total_pages = 1024,
     pmm_max_ram_page = 1024, pmm_free_pages = 512, pmm_last_alloc_index = 512,
     phys = setup_page (\<lambda>_. 0), tlb = (\<lambda>_. None), kernel_directory_phys_addr = 0x101000\<rparr>"

text \<open>The registers of a CPU that faults at \<open>0xC0C01234\<close> (writing), and the frame its stub pushes.\<close>

definition power_on_cpu :: cpu where
  "power_on_cpu = \<lparr>r_gs = 16, r_fs = 16, r_es = 16, r_ds = 16, r_edi = 1, r_esi = 2, r_ebp = 3, r_ebx = 4,
     r_edx = 5, r_ecx = 6, r_eax = 7, r_eip = 0xC0C00100, r_cs = 8, r_eflags = 0x202\<rparr>"

definition fault_frame :: interrupt_frame where
  "fault_frame = frame_at (isr_entry 14 2 power_on_cpu 0 [0, 0])"

lemma power_on_fields [simp]:
  "cursor_row power_on = 3" "cursor_col power_on = 0" "current_color power_on = 0x0F" "cr2 power_on = 0xC0C01234"
  "cr3 power_on = 0x101000"
  "phys power_on = setup_page (\<lambda>_. 0)" "pmm_max_ram_page power_on = 1024" "pmm_total_pages power_on = 1024"
  "pmm_free_pages power_on = 512" "pmm_bitmap power_on = low_reserved" "tlb power_on = (\<lambda>_. None)"
  "interrupt_handlers power_on = (\<lambda>_. 0)"
  by (simp_all add: power_on_def)

lemma power_on_used: "used power_on p \<longleftrightarrow> p < 512"
proof -
  have "p mod 8 < 8" by simp
  then have "bit (255 :: u8) (p mod 8)"
    by (simp add: bit_simps mask_eq_exp_minus_1 [of 8, where 'a = u8, simplified, symmetric])
  then show ?thesis by (auto simp: used_def low_reserved_def)
qed

lemma power_on_pmm: "pmm_ok power_on" "pmm_avail power_on = {512..<1024}"
proof -
  have "free_set power_on = {512..<1024}" by (auto simp: free_set_def power_on_used)
  then show "pmm_ok power_on" by (simp add: pmm_ok_def counted_def)
  show "pmm_avail power_on = {512..<1024}" by (auto simp: pmm_avail_def allocatable_def power_on_used)
qed

lemma power_on_layout: "kernel_layout power_on" "selfmap power_on" "tlb_coherent power_on"
proof -
  show k: "kernel_layout power_on"
    by (rule setup_page_kernel_layout [of _ "\<lambda>_. 0"])
      (simp, simp add: dir_base_def decode_base [unfolded frame_base_decode] word_unat_eq_iff frame_base_decode)
  then show "selfmap power_on" by (rule layout_selfmap)
  show "tlb_coherent power_on" by (simp add: tlb_coherent_def)
qed


subsection \<open>Paging\<close>

lemma power_on_low: "present (pde power_on 0x1000000) \<longleftrightarrow> False"
  using layout_pde(1) [OF power_on_layout(1), of "0x1000000"]
  by (simp add: boot_table_def dir_index_def unat_drop_bit_eq drop_bit_eq_div)

lemma power_on_kernel: "present (pde power_on 0xC0C01000)" "unshared power_on 0xC0C01000"
  using layout_unshared [OF power_on_layout(1), of "0xC0C01000"] by simp_all

theorem vmm_map_page_witness:
  "\<exists>s'. vmm_map_page 0xC0C01000 0x200000 3 power_on = Some (True, s') \<and>
     mmu s' 0xC0C01000 = Some 0x200000"
  using vmm_map_page_correct [OF power_on_layout(2) power_on_kernel power_on_layout(3), of "0x200000" 3]
  by auto


theorem vmm_translate_witness: "vmm_get_phys_addr 0x1000000 power_on = Some 0"
  using vmm_translate [OF power_on_layout(2), of "0x1000000"] power_on_low by (simp add: mmu_def)

theorem vmm_page_fault_maps_witness:
  "\<exists>s' p. vmm_page_fault_handler fault_frame power_on = Some (Inr s') \<and> p \<in> {512..<1024} \<and>
     mmu s' 0xC0C01234 = Some (of_nat (p * 4096) + 0x234)"
  using vmm_page_fault_maps [OF power_on_layout(1,3) power_on_pmm(1), of fault_frame] power_on_pmm(2)
  by auto

theorem setup_page_layout_witness: "kernel_layout power_on \<and> selfmap power_on \<and>
   present (pde power_on 0xC1000000) \<and> unshared power_on 0xC1000000"
  by (rule setup_page_layout [of _ "\<lambda>_. 0"])
    (simp, simp add: dir_base_def word_unat_eq_iff frame_base_decode, simp)

theorem vmm_page_fault_low_panics_witness:
  "\<exists>p. vmm_page_fault_handler fault_frame (power_on\<lparr>cr2 := 0\<rparr>) = Some (Inl p) \<and> \<not> interrupts_enabled p"
  by (rule vmm_page_fault_low_panics) simp

theorem vmm_alloc_and_map_leaks_witness:
  "\<exists>s' p. vmm_alloc_and_map_page 0x1000000 3 power_on = Some (False, s') \<and>
     pmm_avail s' = {512..<1024} - {p} \<and> p \<in> {512..<1024}"
  using vmm_alloc_and_map_leaks [OF power_on_layout(2) power_on_pmm(1), of "0x1000000" 3] power_on_low power_on_pmm(2)
  by auto

subsection \<open>Physical memory\<close>

theorem pmm_alloc_page_witness:
  "let (a, s') = pmm_alloc_page power_on in if a = 0 then pmm_avail power_on = {} else pmm_ok s'"
proof -
  obtain a s' where e: "pmm_alloc_page power_on = (a, s')" by fastforce
  show ?thesis using pmm_alloc_page_correct [OF power_on_pmm(1) e] by (auto simp: e)
qed

theorem pmm_alloc_many_witness: "length (fst (alloc_many pmm_alloc_page 3 power_on)) = 3"
proof -
  obtain as s' where e: "alloc_many pmm_alloc_page 3 power_on = (as, s')" by fastforce
  have "3 \<le> card (pmm_avail power_on)" by (simp add: power_on_pmm(2))
  from pmm_alloc_many_disjoint [OF power_on_pmm(1) this e] show ?thesis by (simp add: e)
qed

theorem pmm_free_page_witness:
  "let (a, s') = pmm_alloc_page power_on in pmm_avail (pmm_free_page a s') = {512..<1024}"
proof -
  obtain a s' where e: "pmm_alloc_page power_on = (a, s')" by fastforce
  have "a \<noteq> 0" using frames.alloc_succeeds [OF power_on_pmm(1)] power_on_pmm(2) e by simp
  from pmm_free_page_restores [OF power_on_pmm(1) e this] show ?thesis by (simp add: e power_on_pmm(2))
qed

definition small_map :: boot_info where
  "small_map = (the_boot_info power_on)\<lparr>e820_count := 1,
     e820_map := (\<lambda>_. \<lparr>e_addr = 0, e_size = 0x400000, e_type = 1, e_acpi = 0\<rparr>)\<rparr>"

lemma small_map_entries:
  "magic small_map = BOOT_INFO_MAGIC" "highest_end (entries small_map) = 0x400000"
  "\<forall>e \<in> set (entries small_map). unat (e_addr e) + unat (e_size e) \<le> 2 ^ 43"
proof -
  show "magic small_map = BOOT_INFO_MAGIC" by (simp add: small_map_def power_on_def)
  have e: "entries small_map = [\<lparr>e_addr = 0, e_size = 0x400000, e_type = 1, e_acpi = 0\<rparr>]"
    by (simp add: small_map_def entries_def)
  show "highest_end (entries small_map) = 0x400000" unfolding e by (simp add: highest_end_def entry_end_def)
  show "\<forall>e \<in> set (entries small_map). unat (e_addr e) + unat (e_size e) \<le> 2 ^ 43" unfolding e by simp
qed



subsection \<open>Interrupts, timer, random numbers\<close>

definition stop_here :: "vmm_state code_map" where
  "stop_here h frame s = Inl s"

definition timer_frame :: interrupt_frame where
  "timer_frame = fault_frame\<lparr>f_int_no := 40\<rparr>"

theorem irq_handler_witness:
  "\<not> isl (irq_handler (\<lambda>h frame s. Inr s) timer_frame (power_on\<lparr>interrupt_handlers := (\<lambda>_. 7)\<rparr>))"
  using irq_handler_registered [of 7 8 "power_on\<lparr>interrupt_handlers := (\<lambda>_. 7)\<rparr>" timer_frame "\<lambda>h frame s. Inr s"]
  by (auto simp: timer_frame_def seq_bind_def)

theorem isr_unhandled_witness:
  "(\<exists>p. isr_handler stop_here (fault_frame\<lparr>f_int_no := 13\<rparr>) power_on = Inl p) \<and>
   (\<exists>s'. isr_handler stop_here (fault_frame\<lparr>f_int_no := 3\<rparr>) power_on = Inr s')"
  using isr_handler_unhandled [of power_on "fault_frame\<lparr>f_int_no := 13\<rparr>" stop_here]
    isr_handler_unhandled [of power_on "fault_frame\<lparr>f_int_no := 3\<rparr>" stop_here]
  by (auto simp: critical_def)

definition symbols0 :: symbols where
  "symbols0 = \<lparr>isr_sym = (\<lambda>n. 0xC0C01000 + 16 * of_nat n), irq_sym = (\<lambda>n. 0xC0C02000 + 16 * of_nat n),
     idt_sym = 0xC0C10000, gdt_sym = 0xC0C11000, tss_sym = 0xC0C12000, timer_callback_sym = 0xC0C03000,
     page_fault_handler_sym = 0xC0C04000\<rparr>"


theorem rand_range_witness: "1 \<le> fst (rand_range 1 1000 power_on) \<and> fst (rand_range 1 1000 power_on) < 1000"
  by (rule rand_range_bounds) simp

subsection \<open>Locks\<close>

definition threads0 :: threads where
  "threads0 = \<lparr>pcs = (\<lambda>_. Idle), running = 0, ifl = True, spl = \<lparr>lock = LOCKED_NO, interrupt_mask = 0\<rparr>\<rparr>"

lemma threads0_reach: "lock_reach mixed threads0"
  by (rule reach_start) (simp add: threads_start_def threads0_def)

definition threads_spin :: threads where
  "threads_spin = goto (Irq_spin True)
     (threads0\<lparr>ifl := False, spl := \<lparr>lock = LOCKED_NO, interrupt_mask = push_bit 9 1\<rparr>\<rparr>)"

definition threads_crit :: threads where
  "threads_crit = goto (Irq_crit True)
     (threads_spin\<lparr>spl := \<lparr>lock = LOCKED_YES, interrupt_mask = push_bit 9 1\<rparr>\<rparr>)"

lemma threads_spin_reach: "lock_reach mixed threads_spin"
proof -
  define s1 where "s1 = goto (Irq_got True) threads0"
  define s2 where "s2 = goto (Irq_cli True) (s1\<lparr>ifl := False\<rparr>)"
  note defs = s1_def s2_def threads0_def
  have "lock_step mixed threads0 s1" using irq_get [of threads0 mixed] by (simp add: defs)
  moreover have "lock_step mixed s1 s2" unfolding s2_def by (rule irq_cli) (simp add: defs)
  moreover have "lock_step mixed s2 threads_spin"
    using irq_mask [of s2 True mixed] by (simp add: defs threads_spin_def goto_def)
  ultimately show ?thesis using threads0_reach by (meson reach_step)
qed

lemma threads_crit_reach: "lock_reach mixed threads_crit"
proof -
  have "lock_step mixed threads_spin threads_crit"
    using irq_xchg [of threads_spin True LOCKED_NO LOCKED_YES mixed]
    by (simp add: threads_crit_def threads_spin_def threads0_def goto_def atomic_exchange_def)
  then show ?thesis using threads_spin_reach by (meson reach_step)
qed

theorem mutual_exclusion_witness: "in_crit (pcs threads_crit 0) \<and> (\<forall>u. in_crit (pcs threads_crit u) = (u = 0))"
proof -
  have c: "in_crit (pcs threads_crit 0)"
    by (simp add: threads_crit_def threads_spin_def threads0_def)
  moreover have "u = 0" if "in_crit (pcs threads_crit u)" for u
    using spinlock_mutual_exclusion [OF threads_crit_reach [of False] that c] .
  ultimately show ?thesis by blast
qed

theorem irqsave_never_spins_witness:
  "pcs threads_spin (running threads_spin) = Irq_spin True \<and> lock (spl threads_spin) = LOCKED_NO"
proof -
  have "pcs threads_spin (running threads_spin) = Irq_spin True"
    by (simp add: threads_spin_def)
  with irqsave_never_spins [OF threads_spin_reach this] show ?thesis by simp
qed



subsection \<open>The screen and the formatted output\<close>

lemma power_on_vga: "vga_ok power_on"
  by (simp add: vga_ok_def)

theorem vga_write_line_witness:
  "VGA_BUF (vga_write (Some ''OK'') power_on) 241 = cell 0x0F CHR ''K'' \<and>
   VGA_BUF (vga_write (Some ''OK'') power_on) 242 = 0"
proof -
  have "list_all printable ''OK''" "unat (cursor_col power_on) + length ''OK'' < 80"
    by (simp_all add: printable_def)
  from vga_write_line [OF power_on_vga this, of 241] vga_write_line [OF power_on_vga this, of 242] show ?thesis
    by (simp add: cursor_index_def power_on_def)
qed

theorem vga_scroll_witness:
  "last (screen_rows (vga_scroll (power_on\<lparr>cursor_row := 25\<rparr>))) = replicate 80 (cell 0x0F CHR '' '')"
  by (subst vga_scroll_rows) simp_all


theorem vga_printf_defined_witness: "\<exists>s'. vga_printf (Some ''%08x %s'') [] power_on = Some s'"
  by (rule vga_printf_defined) simp

theorem vga_itoa_witness: "vga_itoa (- 2147483648) 10 16 [] = ''-2147483648''"
  by (subst vga_itoa_dec) (simp, simp add: numeral_of.simps digit_char_def char_of_def bit_iff_odd)

theorem vga_ulltoa_witness: "parse_num (vga_ulltoa 18446744073709551615 10 24 []) = 18446744073709551615"
proof -
  have "20 < (24 :: nat)" by simp
  from vga_ulltoa_reads_back [OF this, of 18446744073709551615 "[]", THEN conjunct2] show ?thesis
    by (rule trans) simp
qed

theorem vga_human_size_witness:
  "\<exists>k \<le> 4. (k = 4 \<or> (1536 :: nat) < 1024 ^ (k + 1)) \<and> last (vga_human_size 1536 32) = ''BKMGT'' ! k"
  using vga_human_size_spec [of 32 1536] by (auto simp: Let_def)

subsection \<open>Strings\<close>

definition hello :: ram where
  "hello = (\<lambda>_. 0)(16 := 104, 17 := 105, 32 := 104, 33 := 111)"

theorem memmove_witness: "snd (memmove 17 16 2 hello) 18 = 105 \<and> snd (memmove 17 16 2 hello) 16 = 104"
  by (subst (1 2) memmove_spec) (simp_all add: hello_def)

theorem strcmp_witness: "\<exists>r. strcmp hello 16 32 = Some r \<and> sint r < 0"
proof -
  have "cstr hello 16 [104, 105]" "cstr hello 32 [104, 111]" by (simp_all add: hello_def)
  from strcmp_spec [OF this] show ?thesis by auto
qed

theorem strncpy_witness: "strncpy 64 16 4 hello = (64, poke 64 [104, 105, 0, 0] hello)"
proof -
  have "cstr hello 16 [104, 105]" by (simp add: hello_def)
  then have "strncpy 64 16 4 hello = (64, poke 64 (take (unat (4 :: u32)) ([104, 105] @ replicate (unat (4 :: u32)) 0)) hello)"
    by (rule strncpy_spec) simp
  also have "take (unat (4 :: u32)) ([104, 105] @ replicate (unat (4 :: u32)) 0) = [104, 105, 0, 0 :: u8]" by code_simp
  finally show ?thesis .
qed

end
