(* ===== verification/Kheap_examples.thy ===== *)
theory Kheap_examples
  imports Examples Kheap_tests
begin

text \<open>
  The heap of a machine whose memory is zero, right after \<open>init_kheap\<close>, and the properties of the
  heap applied to it.
\<close>

definition heap_on :: kheap_state where
  "heap_on = vmm_state.extend power_on (kheap_state.fields
     \<lparr>kh_index = ordered_array_create 0 0 standard_comparator, kh_start_address = 0, kh_end_address = 0, kh_size = 0,
       kh_max_address = 0, kh_supervisor = 0, kh_readonly = 0\<rparr> \<lparr>lock = 0\<rparr>)"

definition heap0 :: kheap_state where
  "heap0 = projr (init_kheap heap_on)"

lemma heap_on_guards: "init_guards (mem heap_on)"
proof -
  have "mem heap_on = (\<lambda>_. 0)" by (simp add: heap_on_def power_on_def vmm_state.defs)
  then show ?thesis by (simp add: init_guards_def load32_def KHEAP_MAGIC_def)
qed

lemma heap0:
  "init_kheap heap_on = Inr heap0" "represents {} heap0" "capacity heap0 = 0x1FFFB"
  "heap_ok [(0xC0C80000, 0x280000 - 17, True)] heap0"
  "unat (kh_end_address (kheap heap0)) = 0xC0F00000" "unat (kh_max_address (kheap heap0)) = 0xE0000000"
  "lock (kheap_lock heap0) = 0"
proof -
  obtain s' where s': "init_kheap heap_on = Inr s'" "represents {} s'" "capacity s' = 0x1FFFB"
    "heap_ok [(0xC0C80000, 0x280000 - 17, True)] s'" "kh_end_address (kheap s') = 0xC0F00000"
    "kh_max_address (kheap s') = KHEAP_MAX" using init_kheap_ok [OF heap_on_guards] by blast
  then have "heap0 = s'" by (simp add: heap0_def)
  with s' show "init_kheap heap_on = Inr heap0" "represents {} heap0" "capacity heap0 = 0x1FFFB"
    "heap_ok [(0xC0C80000, 0x280000 - 17, True)] heap0"
    "unat (kh_end_address (kheap heap0)) = 0xC0F00000" "unat (kh_max_address (kheap heap0)) = 0xE0000000"
    "lock (kheap_lock heap0) = 0" by (simp_all add: KHEAP_MAX_def represents_def)
qed

lemma heap0_fits:
  "sz \<le> 1000 \<Longrightarrow> \<not> unat (kh_max_address (kheap heap0)) < unat (kh_end_address (kheap heap0)) + growth al sz"
  using growth_small [of sz al] by (simp add: heap0)

lemma heap0_found: "sz \<le> 1000 \<Longrightarrow> find_hole (addr sz) 0 heap0 \<noteq> None"
  using fit_found [OF heap0(4), where sz = sz and al = 0 and a = "0xC0C80000" and n = "0x280000 - 17"] by (simp add: fit_def)

text \<open>A block of at least 100 bytes, allocated in the fresh heap.\<close>

lemma heap0_kmalloc:
  obtains a n s' where "kmalloc 100 heap0 = Some (Inr (addr (a + 9), s'))" "granted 0 100 {} heap0 (addr (a + 9)) {(a, n)} s'"
    "block_of (addr (a + 9)) s' = (a, n)"
proof -
  obtain p A' s' where g: "kmalloc 100 heap0 = Some (Inr (p, s'))" "granted 0 100 {} heap0 p A' s'"
    using kmalloc_grants [OF heap0(2), of 100] heap0_fits [of 100 0] by (auto simp: heap0)
  then obtain a n where an: "p = addr (a + 9)" "A' = {(a, n)}" by (auto simp: granted_def)
  then have "represents {(a, n)} s'" using g(2) by (simp add: granted_def)
  from block_of_represents [OF this, of a n] show ?thesis using that g an by auto
qed

theorem alloc_correct_witness:
  "\<exists>a n bs' s'. alloc 100 0 heap0 = Some (Inr (addr (a + 9), s')) \<and> heap_ok bs' s' \<and> 100 \<le> n \<and>
     allocated bs' = {(a, n)}"
  using alloc_correct [OF heap0(4), of 100 0] heap0_fits [of 100 0] by (auto simp: heap0)



theorem alloc_free_restores_witness:
  "\<exists>p s' s''. alloc 100 0 heap0 = Some (Inr (p, s')) \<and> free p s' = Inr s'' \<and>
     heap_ok [(0xC0C80000, 0x280000 - 17, True)] s''"
  using alloc_free_restores [OF heap0(4), of 100 0] heap0_found [of 100] by (simp add: heap0)


theorem init_kheap_establishes_witness: "\<exists>s'. init_kheap heap_on = Inr s' \<and> represents {} s'"
  using init_kheap_establishes [OF heap_on_guards] by blast

theorem kmalloc_returns_witness: "\<exists>a s'. kmalloc 100 heap0 = Some (Inr (addr (a + 9), s'))"
  using kmalloc_returns [OF heap0(2), of 100] heap0_fits [of 100 0] by (auto simp: heap0 growth_def)

theorem kfree_coalesces_witness:
  "\<exists>p s1 s2 bs. kmalloc 100 heap0 = Some (Inr (p, s1)) \<and> kfree p s1 = Some (Inr s2) \<and> heap_ok bs s2 \<and> allocated bs = {}"
proof -
  obtain a n s1 where k: "kmalloc 100 heap0 = Some (Inr (addr (a + 9), s1))"
    "granted 0 100 {} heap0 (addr (a + 9)) {(a, n)} s1" using heap0_kmalloc by blast
  then obtain bs where bs: "heap_ok bs s1" "allocated bs = {(a, n)}" "lock (kheap_lock s1) = LOCKED_NO" "capacity s1 = 0x1FFFB"
    by (auto simp: granted_def represents_def heap0)
  from kfree_coalesces [OF bs(1,3), of a n] show ?thesis using k(1) bs(2,4) by auto
qed

theorem kheap_killer_passes_witness: "\<exists>s'. kheap_killer heap0 = Some (Inr s') \<and> represents {} s'"
  by (rule kheap_killer_passes) (simp_all add: heap0)

theorem kmalloc_huge_never_returns_witness: "kmalloc 0xFFFFFFEF heap0 = None"
  by (rule kmalloc_huge_never_returns [OF heap0(4)]) (simp_all add: heap0)

theorem index_well_formed_witness:
  "\<exists>ix1 m1. ordered_array_insert (ordered_array_create 0xC0C00000 0x20000 kheap_block_comparator) 0xC0C80000 (\<lambda>_. 0)
     = (1, ix1, m1) \<and> index_ok ix1 m1 {0xC0C80000}"
  using index_well_formed [OF index_ok_empty [of "0xC0C00000" "0x20000" "\<lambda>_. 0"], of "0xC0C80000"]
  by (auto simp: ordered_array_create_def)

end
