(* ===== verification/Chapters.thy ===== *)
theory Chapters
  imports Timer
begin

text \<open>
  The screen drivers of the earlier chapters, \<open>05.hello-kernel/kernel.c\<close>,
  \<open>06.refactoring/kernel/drivers/vga.c\<close> and \<open>07.kernel-idt/kernel/drivers/vga.c\<close>, where they differ
  from the driver of \<open>08.kernel-mm\<close>, and the handler registration of \<open>07.kernel-idt\<close>. Proved: the
  versions print the same on the formats that all of them support.
\<close>

subsection \<open>The first kernel\<close>

definition WHITE_ON_BLACK :: u8 where [simp]: "WHITE_ON_BLACK = 0x0F"

text \<open>The pointer \<open>vga\<close> starts at the first cell and advances with every character.\<close>

fun hello_print :: "nat \<Rightarrow> string \<Rightarrow> (nat \<Rightarrow> u16) \<Rightarrow> nat \<Rightarrow> u16" where
  "hello_print vga [] buf = buf"
| "hello_print vga (c # cs) buf =
     (if c = CHR 0x00 then buf else hello_print (vga + 1) cs (buf(vga := cell WHITE_ON_BLACK c)))"

definition hello_clear_screen :: "(nat \<Rightarrow> u16) \<Rightarrow> nat \<Rightarrow> u16" where
  "hello_clear_screen buf = fill_cells 0 (VGA_WIDTH * VGA_HEIGHT) (cell WHITE_ON_BLACK CHR '' '') buf"

definition hello_main :: "(nat \<Rightarrow> u16) \<Rightarrow> nat \<Rightarrow> u16" where
  "hello_main buf = hello_print 0 ''Hello OS'' (hello_clear_screen buf)"

lemma hello_print_nth:
  "CHR 0x00 \<notin> set str \<Longrightarrow> hello_print vga str buf j =
     (if vga \<le> j \<and> j < vga + length str then cell WHITE_ON_BLACK (str ! (j - vga)) else buf j)"
  by (induction vga str buf rule: hello_print.induct) (auto simp: nth_Cons')

theorem hello_screen:
  "hello_main buf j =
     (if j < 8 then cell WHITE_ON_BLACK (''Hello OS'' ! j)
      else if j < 2000 then cell WHITE_ON_BLACK CHR '' '' else buf j)"
proof -
  define str where "str = ''Hello OS''"
  have "CHR 0x00 \<notin> set str" "length str = 8" by (simp_all add: str_def)
  then show ?thesis
    unfolding hello_main_def str_def [symmetric] by (simp add: hello_print_nth hello_clear_screen_def fill_cells_nth)
qed

subsection \<open>The driver of chapters 06 and 07\<close>

definition vga_move_cursor_07 :: "u8 \<Rightarrow> u8 \<Rightarrow> 'a vga_state_scheme \<Rightarrow> 'a vga_state_scheme" where
  "vga_move_cursor_07 row col s =
     (if unat row < VGA_HEIGHT \<and> unat col < VGA_WIDTH then s\<lparr>cursor_row := row, cursor_col := col\<rparr> else s)"

definition vga_emit_07 :: "char \<Rightarrow> 'a vga_state_scheme \<Rightarrow> 'a vga_state_scheme" where
  "vga_emit_07 c s =
     (if c = CHR 0x0A then s\<lparr>cursor_row := cursor_row s + 1, cursor_col := 0\<rparr>
      else
        let s = s\<lparr>VGA_BUF := (VGA_BUF s)(cursor_index s := cell (current_color s) c)\<rparr>
        in wrap_col (s\<lparr>cursor_col := cursor_col s + 1\<rparr>))"

definition vga_putc_07 :: "char \<Rightarrow> 'a vga_state_scheme \<Rightarrow> 'a vga_state_scheme" where
  "vga_putc_07 c s = vga_sync_cursor (vga_scroll (vga_emit_07 c s))"

fun vga_write_07 :: "string \<Rightarrow> 'a vga_state_scheme \<Rightarrow> 'a vga_state_scheme" where
  "vga_write_07 [] s = s"
| "vga_write_07 (c # cs) s = (if c = CHR 0x00 then s else vga_write_07 cs (vga_putc_07 c s))"

text \<open>
  The digit loop of chapter 06 writes without a bound; the recursion ends because the base is at
  least 2, and \<open>None\<close> stands for a base with which the C loop does not end or divides by zero.
\<close>

function itoa_loop_06 :: "u32 \<Rightarrow> u32 \<Rightarrow> string \<Rightarrow> string option" where
  "itoa_loop_06 base v acc =
     (if base = 0 \<or> base = 1 then None
      else let acc = acc @ [digit_char (unat (v mod base))]; v' = v div base
           in if v' \<noteq> 0 then itoa_loop_06 base v' acc else Some acc)"
  by pat_completeness auto
termination
proof (relation "measure (\<lambda>(base, v, acc). unat v)", simp, clarsimp)
  fix base v :: u32
  assume b: "base \<noteq> 0" "base \<noteq> 1" and v: "v div base \<noteq> 0"
  then have "1 < unat base" by (metis One_nat_def Suc_lessI unat_1 unat_eq_0 neq0_conv word_unat_eq_iff)
  moreover have "v \<noteq> 0" using v by auto
  then have "0 < unat v" by (simp add: unat_gt_0)
  ultimately show "unat (v div base) < unat v" by (simp add: unat_div)
qed

declare itoa_loop_06.simps [simp del]

definition vga_itoa_06 :: "u32 \<Rightarrow> u32 \<Rightarrow> string option" where
  "vga_itoa_06 value base =
     (let v = (if base = 10 \<and> sint value < 0 then - value else value)
      in map_option (\<lambda>acc. reverse_buf (if base = 10 \<and> sint value < 0 then acc @ ''-'' else acc))
           (itoa_loop_06 base v ''''))"

text \<open>In chapter 07 the loop and the sign respect the last byte of the buffer.\<close>

function itoa_loop_07 :: "nat \<Rightarrow> u32 \<Rightarrow> u32 \<Rightarrow> string \<Rightarrow> string option" where
  "itoa_loop_07 cap base v acc =
     (if length acc \<ge> cap then Some acc
      else if base = 0 then None
      else let acc = acc @ [digit_char (unat (v mod base))]; v' = v div base
           in if v' \<noteq> 0 then itoa_loop_07 cap base v' acc else Some acc)"
  by pat_completeness auto
termination
  by (relation "measure (\<lambda>(cap, base, v, acc). cap - length acc)") auto

declare itoa_loop_07.simps [simp del]

definition vga_itoa_07 :: "u32 \<Rightarrow> u32 \<Rightarrow> nat \<Rightarrow> string \<Rightarrow> string option" where
  "vga_itoa_07 value base buf_size old =
     (if buf_size = 0 then Some old
      else let cap = buf_size - 1;
               v = (if base = 10 \<and> sint value < 0 then - value else value)
           in map_option (\<lambda>acc. reverse_buf
                (if base = 10 \<and> sint value < 0 \<and> length acc < cap then acc @ ''-'' else acc))
                (itoa_loop_07 cap base v ''''))"

definition print_int_07 :: "u32 \<Rightarrow> u32 \<Rightarrow> 'a vga_state_scheme \<Rightarrow> 'a vga_state_scheme" where
  "print_int_07 v base s = (case vga_itoa_07 v base 64 [] of None \<Rightarrow> s | Some buf \<Rightarrow> vga_write_07 buf s)"

text \<open>
  The loop over the format. A \<open>%\<close> at its very end makes the switch see the terminating NUL, which
  the default branch prints, and the loop's increment steps past it: \<open>None\<close>.
\<close>

fun printf_07 :: "string \<Rightarrow> va list \<Rightarrow> 'a vga_state_scheme \<Rightarrow> 'a vga_state_scheme option" where
  "printf_07 [] args s = Some s"
| "printf_07 [c] args s = (if c \<noteq> CHR ''%'' then Some (vga_putc_07 c s) else None)"
| "printf_07 (c # d # ds) args s =
     (if c \<noteq> CHR ''%'' then printf_07 (d # ds) args (vga_putc_07 c s)
      else if d = CHR ''c'' then
        let (v, args) = va_u32 s args in printf_07 ds args (vga_putc_07 (char_of (unat (ucast v :: u8))) s)
      else if d = CHR ''s'' then
        let (p, args) = va_str s args
        in printf_07 ds args (vga_write_07 (case p of None \<Rightarrow> ''(null)'' | Some str \<Rightarrow> str) s)
      else if d = CHR ''d'' \<or> d = CHR ''i'' then
        let (v, args) = va_u32 s args in printf_07 ds args (print_int_07 v 10 s)
      else if d = CHR ''x'' \<or> d = CHR ''X'' then
        let (v, args) = va_u32 s args in printf_07 ds args (print_int_07 v 16 s)
      else if d = CHR ''%'' then printf_07 ds args (vga_putc_07 CHR ''%'' s)
      else printf_07 ds args (vga_putc_07 d (vga_putc_07 CHR ''%'' s)))"

text \<open>The loop of chapter 06 differs in the conversion of integers only, which knows no buffer size.\<close>

definition print_int_06 :: "u32 \<Rightarrow> u32 \<Rightarrow> 'a vga_state_scheme \<Rightarrow> 'a vga_state_scheme" where
  "print_int_06 v base s = (case vga_itoa_06 v base of None \<Rightarrow> s | Some buf \<Rightarrow> vga_write_07 buf s)"

fun printf_06 :: "string \<Rightarrow> va list \<Rightarrow> 'a vga_state_scheme \<Rightarrow> 'a vga_state_scheme option" where
  "printf_06 [] args s = Some s"
| "printf_06 [c] args s = (if c \<noteq> CHR ''%'' then Some (vga_putc_07 c s) else None)"
| "printf_06 (c # d # ds) args s =
     (if c \<noteq> CHR ''%'' then printf_06 (d # ds) args (vga_putc_07 c s)
      else if d = CHR ''c'' then
        let (v, args) = va_u32 s args in printf_06 ds args (vga_putc_07 (char_of (unat (ucast v :: u8))) s)
      else if d = CHR ''s'' then
        let (p, args) = va_str s args
        in printf_06 ds args (vga_write_07 (case p of None \<Rightarrow> ''(null)'' | Some str \<Rightarrow> str) s)
      else if d = CHR ''d'' \<or> d = CHR ''i'' then
        let (v, args) = va_u32 s args in printf_06 ds args (print_int_06 v 10 s)
      else if d = CHR ''x'' \<or> d = CHR ''X'' then
        let (v, args) = va_u32 s args in printf_06 ds args (print_int_06 v 16 s)
      else if d = CHR ''%'' then printf_06 ds args (vga_putc_07 CHR ''%'' s)
      else printf_06 ds args (vga_putc_07 d (vga_putc_07 CHR ''%'' s)))"

definition printk_07 :: "string \<Rightarrow> va list \<Rightarrow> 'a vga_state_scheme \<Rightarrow> 'a vga_state_scheme" where
  "printk_07 fmt args s = (case printf_07 fmt args s of None \<Rightarrow> s | Some s' \<Rightarrow> s')"

text \<open>The registration of chapter 07 tests the slot after it has written it.\<close>

definition register_interrupt_handler_07 ::
  "u8 \<Rightarrow> u32 \<Rightarrow> 'a intr_state_scheme \<Rightarrow> 'a intr_state_scheme" where
  "register_interrupt_handler_07 vector handler s =
     (let s = (if unat vector < IDT_ENTRIES
               then s\<lparr>interrupt_handlers := (interrupt_handlers s)(unat vector := handler)\<rparr> else s)
      in if interrupt_handlers s (unat vector) \<noteq> 0
         then printk_07 ''[WARN] Overwriting handler for vector %d\<newline>'' [Word (ucast vector)] s else s)"

subsection \<open>The versions agree\<close>

lemma div_mod_u32: "unat (v div b) = unat v div unat b" "unat (v mod b) = unat v mod unat (b :: u32)"
  by (simp_all add: unat_div unat_mod)

lemma last_digit:
  assumes "1 < unat (base :: u32)"
  shows "rev (numeral_of (unat base) (unat v)) =
    digit_char (unat (v mod base)) # (if v div base \<noteq> 0 then rev (numeral_of (unat base) (unat (v div base))) else [])"
proof (cases "v div base = 0")
  case True
  then have "unat v div unat base = 0" using div_mod_u32(1) [of v base] by simp
  then have "unat v < unat base" using assms by (simp add: div_eq_0_iff)
  with True show ?thesis by (simp add: num_small div_mod_u32)
next
  case False
  then have "unat v div unat base \<noteq> 0" using div_mod_u32(1) [of v base] by (metis unat_eq_0)
  then have "unat base \<le> unat v" by (metis div_less not_le)
  with False assms show ?thesis by (simp add: num_step div_mod_u32)
qed

lemma itoa_loop_06_spec:
  "1 < unat base \<Longrightarrow> itoa_loop_06 base v acc = Some (acc @ rev (numeral_of (unat base) (unat v)))"
proof (induction base v acc rule: itoa_loop_06.induct)
  case (1 base v acc)
  then have "base \<noteq> 0" "base \<noteq> 1" by auto
  with 1 show ?case
    by (subst itoa_loop_06.simps) (simp add: Let_def last_digit [of base v])
qed

lemma itoa_loop_07_spec:
  "1 < unat base \<Longrightarrow> length acc \<le> cap \<Longrightarrow>
   itoa_loop_07 cap base v acc = Some (take cap (acc @ rev (numeral_of (unat base) (unat v))))"
proof (induction cap base v acc rule: itoa_loop_07.induct)
  case (1 cap base v acc)
  have b: "base \<noteq> 0" using 1(2) by auto
  show ?case
  proof (cases "cap \<le> length acc")
    case False
    with 1 b show ?thesis
      by (subst itoa_loop_07.simps) (simp add: Let_def last_digit [of base v])
  qed (use 1 in \<open>simp add: itoa_loop_07.simps\<close>)
qed

text \<open>The sign and the numeral that all versions print.\<close>

definition int_text :: "u32 \<Rightarrow> u32 \<Rightarrow> string" where
  "int_text v base =
     (if base = 10 \<and> sint v < 0 then CHR ''-'' # numeral_of 10 (nat (- sint v)) else numeral_of (unat base) (unat v))"

lemma length_text: "base = 10 \<or> base = 16 \<Longrightarrow> length (numeral_of (unat (base :: u32)) (unat (v :: u32))) \<le> 10"
  using unat_u32_bound [of v] by (elim disjE) (auto intro!: length_num)

lemma itoa_versions:
  assumes "base = 10 \<or> base = 16"
  shows "vga_itoa_06 v base = Some (int_text v base)" "vga_itoa_07 v base 64 old = Some (int_text v base)"
    "vga_itoa v (unat base) 64 old = int_text v base"
proof -
  have b: "1 < unat base" using assms by auto
  have l: "length (numeral_of (unat base) (unat w)) \<le> 10" for w :: u32 by (rule length_text [OF assms])
  show "vga_itoa_06 v base = Some (int_text v base)"
    using assms by (auto simp: vga_itoa_06_def Let_def itoa_loop_06_spec int_text_def sint_u32_cases)
  show "vga_itoa_07 v base 64 old = Some (int_text v base)"
    using assms l [of v] l [of "- v"] by (auto simp: vga_itoa_07_def Let_def itoa_loop_07_spec int_text_def sint_u32_cases)
  show "vga_itoa v (unat base) 64 old = int_text v base"
    using assms
  proof
    assume "base = 10"
    then show ?thesis by (simp add: vga_itoa_dec int_text_def sint_u32_cases)
  next
    assume "base = 16"
    then show ?thesis using l [of v] by (simp add: vga_itoa_def vga_utoa_hex int_text_def)
  qed
qed

text \<open>The refactorings of the number conversion keep its result, and the buffer of 64 bytes never fills.\<close>

theorem itoa_versions_agree:
  assumes "base = 10 \<or> base = 16"
  shows "vga_itoa_06 v base = Some (vga_itoa v (unat base) 64 old) \<and>
     vga_itoa_07 v base 64 old = Some (vga_itoa v (unat base) 64 old)"
  using itoa_versions [OF assms] by simp

text \<open>So the refactoring did not change what any format prints.\<close>

theorem printf_06_07: "printf_06 fmt args s = printf_07 fmt args s"
proof -
  have "print_int_06 v base s = print_int_07 v base s" if "base = 10 \<or> base = 16" for v base and s :: "'a vga_state_scheme"
    using itoa_versions [OF that] by (simp add: print_int_06_def print_int_07_def)
  then show ?thesis
    by (induction fmt args s rule: printf_07.induct) (simp_all split: prod.split)
qed

text \<open>Carriage return, tab and backspace move the cursor in \<open>08.kernel-mm\<close> only.\<close>

definition plain :: "char \<Rightarrow> bool" where
  "plain c \<longleftrightarrow> c \<noteq> CHR 0x0D \<and> c \<noteq> CHR 0x09 \<and> c \<noteq> CHR 0x08"

lemma putc_versions: "plain c \<Longrightarrow> vga_putc_07 c s = vga_putc c s"
  by (simp add: vga_putc_07_def vga_putc_def vga_emit_07_def vga_emit_def plain_def)

lemma write_versions: "list_all plain str \<Longrightarrow> vga_write_07 str s = vga_write (Some str) s"
  unfolding vga_write_def option.case
  by (induction str s rule: vga_write_07.induct) (simp_all add: putc_versions)

lemma plain_digit: "d < 16 \<Longrightarrow> plain (digit_char d)"
proof -
  have "list_all (\<lambda>d. plain (digit_char d)) [0..<16]" by code_simp
  then show "d < 16 \<Longrightarrow> plain (digit_char d)" by (simp add: list_all_iff)
qed

lemma plain_text: "base = 10 \<or> base = 16 \<Longrightarrow> list_all plain (int_text v base)"
  using set_num [of 10] set_num [of 16]
  by (fastforce simp: int_text_def list_all_iff plain_def [of "CHR ''-''"] intro: plain_digit)

lemma print_int_versions:
  "print_int_07 v 10 s = print_i32 v s" "print_int_07 v 16 s = print_u32 v 16 s"
proof -
  have "vga_utoa v 16 64 [] = int_text v 16"
    using length_text [of 16 v] by (simp add: vga_utoa_hex int_text_def)
  then show "print_int_07 v 10 s = print_i32 v s" "print_int_07 v 16 s = print_u32 v 16 s"
    using itoa_versions [of 10 v] itoa_versions [of 16 v] plain_text [of 10 v] plain_text [of 16 v]
    by (simp_all add: print_int_07_def print_i32_def print_u32_def write_versions)
qed

text \<open>Formats and arguments with the conversions of both versions, and no control character that only one of them knows.\<close>

fun common_format :: "string \<Rightarrow> va list \<Rightarrow> bool" where
  "common_format [] args = True"
| "common_format [c] args = (c \<noteq> CHR ''%'' \<and> plain c)"
| "common_format (c # d # ds) args =
     (if c \<noteq> CHR ''%'' then plain c \<and> common_format (d # ds) args
      else if d \<in> {CHR ''c'', CHR ''s'', CHR ''d'', CHR ''i'', CHR ''x'', CHR ''X''} then
        (case args of
           [] \<Rightarrow> False
         | Word w # args \<Rightarrow> d \<noteq> CHR ''s'' \<and> (d = CHR ''c'' \<longrightarrow> plain (char_of (unat (ucast w :: u8)))) \<and> common_format ds args
         | Str p # args \<Rightarrow> d = CHR ''s'' \<and> list_all plain (case p of None \<Rightarrow> [] | Some str \<Rightarrow> str) \<and> common_format ds args)
      else d \<notin> {CHR ''u'', CHR ''h'', CHR ''l'', CHR ''p''} \<and> plain d \<and> common_format ds args)"

lemma plain_percent: "plain CHR ''%''"
  by (simp add: plain_def)

lemma write_null: "vga_write_07 ''(null)'' s = vga_write (Some ''(null)'') s"
  by (rule write_versions) (simp add: plain_def)

lemma printf_versions:
  fixes s :: "'a vga_state_scheme"
  shows "common_format fmt args \<Longrightarrow> length fmt \<le> fuel \<Longrightarrow> printf_07 fmt args s = printf_loop fuel fmt args s"
proof (induction fuel arbitrary: fmt args s)
  case (Suc n)
  show ?case
  proof (cases fmt rule: remdups_adj.cases)
    case (2 c)
    with Suc show ?thesis by (simp add: putc_versions)
  next
    case (3 c d ds)
    have len: "length (d # ds) \<le> n" "length ds \<le> n" using Suc(3) 3 by simp_all
    show ?thesis
    proof (cases "c = CHR ''%''")
      case False
      then show ?thesis using Suc.IH [OF _ len(1)] Suc(2) 3 by (simp add: putc_versions)
    next
      case True
      have IH: "common_format ds as \<Longrightarrow> printf_07 ds as t = printf_loop n ds as t" for as and t :: "'a vga_state_scheme"
        by (rule Suc.IH [OF _ len(2)])
      note pct = True 3 and fmt = Suc(2)
      show ?thesis
      proof (cases "d \<in> {CHR ''c'', CHR ''s'', CHR ''d'', CHR ''i'', CHR ''x'', CHR ''X''}")
        case True
        then obtain a as where args: "args = a # as" using fmt pct by (cases args) auto
        show ?thesis
        proof (cases a)
          case (Word w)
          then show ?thesis
            using True fmt
            by (elim insertE emptyE) (simp_all add: pct args printf_conv_def IH putc_versions print_int_versions)
        next
          case (Str p)
          then have d: "d = CHR ''s''" "list_all plain (case p of None \<Rightarrow> '''' | Some str \<Rightarrow> str)" "common_format ds as"
            using True fmt by (simp_all add: pct args split: if_splits)
          from d(2) have "vga_write_07 (case p of None \<Rightarrow> ''(null)'' | Some str \<Rightarrow> str) s =
              vga_write (Some (case p of None \<Rightarrow> ''(null)'' | Some str \<Rightarrow> str)) s"
            by (cases p; simp only: option.case write_null write_versions)
          with d show ?thesis by (simp add: pct args Str printf_conv_def IH)
        qed
      next
        case False
        then show ?thesis
          using fmt by (simp add: pct printf_conv_def IH putc_versions plain_percent)
      qed
    qed
  qed simp
qed simp

text \<open>On the common formats, \<open>vga_printf\<close> of \<open>07.kernel-idt\<close> and of \<open>08.kernel-mm\<close> print the same.\<close>

text \<open>C40: On formats with the conversions that both versions know and without the control
  characters that only the later one interprets, vga_printf of chapter 07 and the rewritten
  one of chapter 08 have the same effect on the screen, the cursor and the ports.\<close>

theorem printf_versions_agree:
  assumes "common_format fmt args"
  shows "printf_07 fmt args s = vga_printf (Some fmt) args s"
  using printf_versions [OF assms order_refl] by (simp add: vga_printf_def)

subsection \<open>What the later versions repaired\<close>

theorem printf_07_reads_past_end: "printf_07 ''100%'' args s = None" "vga_printf (Some ''100%'') args s \<noteq> None"
  by (simp_all add: vga_printf_def)

theorem register_07_always_warns:
  assumes "handler \<noteq> 0"
  shows "register_interrupt_handler_07 vector handler s =
     printk_07 ''[WARN] Overwriting handler for vector %d\<newline>'' [Word (ucast vector)]
       (s\<lparr>interrupt_handlers := (interrupt_handlers s)(unat vector := handler)\<rparr>)"
proof -
  have "unat vector < 256" using unsigned_less [of vector] by simp
  then show ?thesis using assms by (simp add: register_interrupt_handler_07_def Let_def)
qed

end
