(* ===== verification/Chapter07.thy ===== *)
theory Chapter07
  imports Chapters Gdt
begin

text \<open>
  The kernel of \<open>07.kernel-idt\<close> on its own driver: \<open>interrupt/interrupt.c\<close>, \<open>interrupt/timer.c\<close>,
  \<open>mm/gdt.c\<close> and \<open>kernel.c\<close>. The functions that print go through \<open>printk_07\<close>; everything that does not
  is the text of \<open>08.kernel-mm\<close> and is taken from there. Proved: table setup and dispatch are those of
  \<open>08.kernel-mm\<close>, and from the end of \<open>main\<close> on every timer interrupt is counted, printed and
  acknowledged.
\<close>

subsection \<open>Interrupts\<close>

definition pic_init_07 :: "u8 \<Rightarrow> u8 \<Rightarrow> 'a vga_state_scheme \<Rightarrow> 'a vga_state_scheme" where
  "pic_init_07 offset_vector_master offset_vector_slave s =
     (let mask1 = inb PIC1_DATA s;
          mask2 = inb PIC2_DATA s;
          s = io_wait (outb PIC1_CMD (PIC_ICW1_INIT OR PIC_ICW1_ICW4) s);
          s = io_wait (outb PIC2_CMD (PIC_ICW1_INIT OR PIC_ICW1_ICW4) s);
          s = io_wait (outb PIC1_DATA offset_vector_master s);
          s = io_wait (outb PIC2_DATA offset_vector_slave s);
          s = io_wait (outb PIC1_DATA PIC_MASTER_ICW3_IRQ2 s);
          s = io_wait (outb PIC2_DATA PIC_SLAVE_ICW3_ID s);
          s = io_wait (outb PIC1_DATA PIC_ICW4_8086_MODE s);
          s = io_wait (outb PIC2_DATA PIC_ICW4_8086_MODE s);
          s = outb PIC1_DATA mask1 s;
          s = outb PIC2_DATA mask2 s
      in printk_07 ''[PIC] Initialized: master offset=0x%x, slave offset=0x%x\<newline>''
           [Word (ucast offset_vector_master), Word (ucast offset_vector_slave)] s)"

definition idt_init_07 :: "symbols \<Rightarrow> 'a intr_state_scheme \<Rightarrow> 'a intr_state_scheme" where
  "idt_init_07 syms s =
     (let s = s\<lparr>the_idt_ptr := \<lparr>idt_limit = of_nat (8 * IDT_ENTRIES - 1), idt_base = idt_sym syms\<rparr>\<rparr>;
          s = fold clear_gate [0..<IDT_ENTRIES] s;
          s = fold (SET_ISR syms) [0..<32] s;
          s = fold (SET_IRQ syms) [0..<16] s;
          s = pic_init_07 PIC1_VECTOR_OFFSET PIC2_VECTOR_OFFSET s;
          s = s\<lparr>idtr := Some (the_idt_ptr s)\<rparr>
      in printk_07 ''[IDT] Initialized with %d entries.\<newline>'' [Word (of_nat IDT_ENTRIES)] s)"

definition isr_unhandled_07 ::
  "interrupt_frame \<Rightarrow> 'a intr_state_scheme \<Rightarrow> ('a intr_state_scheme, 'a intr_state_scheme) outcome"
  where
  "isr_unhandled_07 frame s =
     (if f_int_no frame < 32 then
        let s = printk_07 ''\<newline>Unhandled Exception: %s (0x%x)\<newline>''
                  [Str (Some (exception_names ! unat (f_int_no frame))), Word (f_int_no frame)] s;
            s = printk_07 ''Error Code: 0x%x\<newline>'' [Word (f_err_code frame)] s;
            s = printk_07 ''EIP: 0x%x, CS: 0x%x, EFLAGS: 0x%x\<newline>''
                  [Word (f_eip frame), Word (f_cs frame), Word (f_eflags frame)] s
        in if f_int_no frame = 8 \<or> f_int_no frame = 13 \<or> f_int_no frame = 14
           then Inl (disable_interrupts
                  (printk_07 ''System halted due to critical exception.\<newline>'' [] s))
           else Inr s
      else Inr (printk_07 ''\<newline>Unhandled Interrupt: 0x%x\<newline>'' [Word (f_int_no frame)] s))"

definition isr_handler_07 ::
  "'a intr_state_scheme code_map \<Rightarrow> interrupt_frame \<Rightarrow> 'a intr_state_scheme \<Rightarrow>
     ('a intr_state_scheme, 'a intr_state_scheme) outcome" where
  "isr_handler_07 code frame s =
     (let s = s\<lparr>in_interrupt_context := True\<rparr>;
          handler = interrupt_handlers s (unat (f_int_no frame))
      in seq_bind (if handler \<noteq> 0 then code handler frame s else isr_unhandled_07 frame s)
           (\<lambda>s. Inr (s\<lparr>in_interrupt_context := False\<rparr>)))"

definition irq_handler_07 ::
  "'a intr_state_scheme code_map \<Rightarrow> interrupt_frame \<Rightarrow> 'a intr_state_scheme \<Rightarrow>
     ('a intr_state_scheme, 'a intr_state_scheme) outcome" where
  "irq_handler_07 code frame s =
     (let s = s\<lparr>in_interrupt_context := True\<rparr>;
          irq = ucast (f_int_no frame - 32) :: u8;
          s = pic_send_eoi irq s;
          handler = interrupt_handlers s (unat (f_int_no frame))
      in seq_bind (if handler \<noteq> 0 then code handler frame s
                   else Inr (printk_07 ''\<newline>Unhandled IRQ: 0x%x\<newline>'' [Word (f_int_no frame)] s))
           (\<lambda>s. Inr (s\<lparr>in_interrupt_context := False\<rparr>)))"

subsection \<open>The timer\<close>

definition IRQ0_INT_NUM :: u8 where [simp]: "IRQ0_INT_NUM = 32"
definition CLOCK_TICK_RATE :: u32 where [simp]: "CLOCK_TICK_RATE = 1193180"

definition timer_callback_07 :: "interrupt_frame \<Rightarrow> 'a timer_state_scheme \<Rightarrow> 'a timer_state_scheme" where
  "timer_callback_07 regs s =
     (let s = s\<lparr>tick := tick s + 1\<rparr> in printk_07 ''tick=%d\<newline>'' [Word (tick s)] s)"

definition divisor_07 :: "u32 \<Rightarrow> u32" where
  "divisor_07 frequency =
     (let frequency = (if frequency = 0 then 1 else frequency)
      in (CLOCK_TICK_RATE + frequency div 2) div frequency)"

definition init_timer_07 :: "symbols \<Rightarrow> u32 \<Rightarrow> 'a timer_state_scheme \<Rightarrow> 'a timer_state_scheme" where
  "init_timer_07 syms frequency s =
     program_pit (divisor_07 frequency)
       (register_interrupt_handler_07 IRQ0_INT_NUM (timer_callback_sym syms) s)"

subsection \<open>The descriptor table and the dump\<close>

definition print_gdt_entry_07 :: "nat \<Rightarrow> gdt_entry \<Rightarrow> 'a vga_state_scheme \<Rightarrow> 'a vga_state_scheme" where
  "print_gdt_entry_07 i e s =
     (let base = entry_base e; limit = entry_limit e; acc = access e; gran = granularity e;
          s = printk_07 ''GDT[%d]: Base=0x%x, Limit=0x%x, Access=0x%x, Gran=0x%x\<newline>''
                [Word (of_nat i), Word base, Word limit, Word (ucast acc), Word (ucast gran)] s
      in printk_07 ''        -> Type: %s, DPL=%d, Granularity=%s, Size=%s\<newline>''
           [Str (Some (get_access_type_str acc)), Word (drop_bit 5 (ucast acc) AND 0x3),
            Str (Some (if gran AND 0x80 \<noteq> 0 then ''4K'' else ''1B'')),
            Str (Some (if gran AND 0x40 \<noteq> 0 then ''32-bit'' else ''16-bit''))] s)"

definition gdt_dump_07 :: "'a gdt_state_scheme \<Rightarrow> 'a gdt_state_scheme" where
  "gdt_dump_07 s =
     (let s = printk_07 ''\<newline>--- GDT Dump ---\<newline>'' [] s;
          s = printk_07 ''GDT Base: 0x%x, Limit: 0x%x\<newline>''
                [Word (gdt_base (the_gdt_ptr s)), Word (ucast (gdt_limit (the_gdt_ptr s)))] s;
          s = fold (\<lambda>i s. print_gdt_entry_07 i (gdt s i) s) [0..<GDT_ENTRY_COUNT] s;
          s = printk_07 ''\<newline>--- CPU Segment Registers ---\<newline>'' [] s;
          r = segs s;
          s = printk_07 ''CS: 0x%x, DS: 0x%x, ES: 0x%x\<newline>''
                [Word (ucast (seg_cs r)), Word (ucast (seg_ds r)), Word (ucast (seg_es r))] s;
          s = printk_07 ''FS: 0x%x, GS: 0x%x, SS: 0x%x\<newline>''
                [Word (ucast (seg_fs r)), Word (ucast (seg_gs r)), Word (ucast (seg_ss r))] s
      in printk_07 ''--------------------\<newline>'' [] s)"

text \<open>The table is dumped before it is loaded.\<close>

definition gdt_init_07 :: "symbols \<Rightarrow> u32 \<Rightarrow> u32 \<Rightarrow> 'a gdt_state_scheme \<Rightarrow> 'a gdt_state_scheme" where
  "gdt_init_07 syms gdt_ptr_addr eax s =
     (let s = s\<lparr>gdt := (\<lambda>i. if i < GDT_ENTRY_COUNT then empty_gdt_entry else gdt s i)\<rparr>;
          s = s\<lparr>tss := empty_tss\<rparr>;
          s = s\<lparr>the_gdt_ptr := \<lparr>gdt_limit = of_nat (8 * GDT_ENTRY_COUNT - 1), gdt_base = gdt_sym syms\<rparr>\<rparr>;
          s = gdt_set_gate 0 0 0 0 0 s;
          s = gdt_set_gate 1 0 0xFFFFF GDT_CODE_KERNEL GDT_FLAGS_KERNEL s;
          s = gdt_set_gate 2 0 0xFFFFF GDT_DATA_KERNEL GDT_FLAGS_KERNEL s;
          s = gdt_set_gate 3 0x000B8000 0x07FFF GDT_DATA_KERNEL GDT_FLAGS_VEDIO s;
          s = gdt_set_gate 4 0 0xFFFFF GDT_CODE_USER GDT_FLAGS_USER s;
          s = gdt_set_gate 5 0 0xFFFFF GDT_DATA_USER GDT_FLAGS_USER s;
          base = tss_sym syms;
          limit = of_nat (sizeof_tss - 1);
          s = gdt_set_gate 6 base limit GDT_TSS_AVAIL GDT_FLAGS_TSS s;
          s = s\<lparr>tss := (tss s)\<lparr>tss_cs := ucast GDT_KERNEL_CODE_SEL,
                tss_ss := GDT_KERNEL_DATA_SEL, tss_ds := GDT_KERNEL_DATA_SEL,
                tss_es := GDT_KERNEL_DATA_SEL, tss_fs := GDT_KERNEL_DATA_SEL,
                tss_gs := GDT_KERNEL_DATA_SEL, tss_ss0 := GDT_KERNEL_DATA_SEL,
                tss_esp0 := GDT_TSS_ESP0, tss_iomap_base := of_nat sizeof_tss\<rparr>\<rparr>;
          s = gdt_dump_07 s;
          s = gdt_flush gdt_ptr_addr eax s;
          s = tss_flush s
      in printk_07 ''[GDT] Initialized.\<newline>'' [] s)"

subsection \<open>main\<close>

text \<open>\<open>main\<close> of chapter 07, up to the endless loop, and of chapter 06.\<close>

definition kernel_main_07 :: "symbols \<Rightarrow> u32 \<Rightarrow> u32 \<Rightarrow> 'a gdt_state_scheme \<Rightarrow> 'a gdt_state_scheme" where
  "kernel_main_07 syms gdt_ptr_addr eax s =
     (let s = s\<lparr>mem := store32 (mem s) (0xF0000000 - 4) 0xDEADBEEF\<rparr>;
          s = vga_clear s;
          s = printk_07 ''Hello, kernel world!\<newline>'' [] s;
          s = printk_07 ''Value: %d, Hex: 0x%x, Char: %c, String: %s\<newline>''
                [Word 1234, Word 1234, Word 65, Str (Some ''VGA printf OK!'')] s;
          s = gdt_init_07 syms gdt_ptr_addr eax s;
          s = idt_init_07 syms s;
          s = enable_interrupts s
      in init_timer_07 syms TIMER_FREQUENCY s)"

definition kernel_main_06 :: "'a vga_state_scheme \<Rightarrow> 'a vga_state_scheme option" where
  "kernel_main_06 s =
     Option.bind (printf_06 ''Hello, kernel world!\<newline>'' [] (vga_clear s))
       (printf_06 ''Value: %d, Hex: 0x%x, Char: %c, String: %s\<newline>''
          [Word 1234, Word 1234, Word 65, Str (Some ''VGA printf OK!'')])"

text \<open>The code behind the handler addresses, as for \<open>08.kernel-mm\<close>.\<close>

definition handler_code_07 :: "symbols \<Rightarrow> 'a timer_state_scheme code_map \<Rightarrow> 'a timer_state_scheme code_map" where
  "handler_code_07 syms others h frame s =
     (if h = timer_callback_sym syms then Inr (timer_callback_07 frame s) else others h frame s)"

subsection \<open>The same as in the last chapter\<close>

lemma printk_versions: "common_format fmt args \<Longrightarrow> printk_07 fmt args s = printk fmt args s"
  using printf_versions [of fmt args "length fmt" s] by (simp add: printk_07_def printk_def vga_printf_def)

lemma plain_names: "n < 32 \<Longrightarrow> list_all plain (exception_names ! n)"
proof -
  have "list_all (list_all plain) exception_names" "length exception_names = 32" by code_simp+
  then show "n < 32 \<Longrightarrow> list_all plain (exception_names ! n)" by (simp add: list_all_length)
qed

lemma plain_types: "list_all plain (get_access_type_str acc)"
  by (simp add: get_access_type_str_def plain_def)

lemma messages_07:
  "printk_07 ''[PIC] Initialized: master offset=0x%x, slave offset=0x%x\<newline>'' [Word w1, Word w2] =
     printk ''[PIC] Initialized: master offset=0x%x, slave offset=0x%x\<newline>'' [Word w1, Word w2]"
  "printk_07 ''[IDT] Initialized with %d entries.\<newline>'' [Word w1] = printk ''[IDT] Initialized with %d entries.\<newline>'' [Word w1]"
  "printk_07 ''Error Code: 0x%x\<newline>'' [Word w1] = printk ''Error Code: 0x%x\<newline>'' [Word w1]"
  "printk_07 ''EIP: 0x%x, CS: 0x%x, EFLAGS: 0x%x\<newline>'' [Word w1, Word w2, Word w3] =
     printk ''EIP: 0x%x, CS: 0x%x, EFLAGS: 0x%x\<newline>'' [Word w1, Word w2, Word w3]"
  "printk_07 ''System halted due to critical exception.\<newline>'' [] = printk ''System halted due to critical exception.\<newline>'' []"
  "printk_07 ''\<newline>Unhandled Interrupt: 0x%x\<newline>'' [Word w1] = printk ''\<newline>Unhandled Interrupt: 0x%x\<newline>'' [Word w1]"
  "printk_07 ''\<newline>Unhandled IRQ: 0x%x\<newline>'' [Word w1] = printk ''\<newline>Unhandled IRQ: 0x%x\<newline>'' [Word w1]"
  "printk_07 ''tick=%d\<newline>'' [Word w1] = printk ''tick=%d\<newline>'' [Word w1]"
  "printk_07 ''[GDT] Initialized.\<newline>'' [] = printk ''[GDT] Initialized.\<newline>'' []"
  "printk_07 ''Hello, kernel world!\<newline>'' [] = printk ''Hello, kernel world!\<newline>'' []"
  "printk_07 ''[WARN] Overwriting handler for vector %d\<newline>'' [Word w1] =
     printk ''[WARN] Overwriting handler for vector %d\<newline>'' [Word w1]"
  by (rule ext, rule printk_versions, simp add: plain_def)+

lemma message_07_exception:
  "list_all plain name \<Longrightarrow> printk_07 ''\<newline>Unhandled Exception: %s (0x%x)\<newline>'' [Str (Some name), Word w] s =
     printk ''\<newline>Unhandled Exception: %s (0x%x)\<newline>'' [Str (Some name), Word w] s"
  by (rule printk_versions) (simp add: plain_def)

lemma interrupt_versions:
  "pic_init_07 m v s0 = pic_init m v s0" "idt_init_07 syms s = idt_init syms s"
  "isr_unhandled_07 frame s = isr_unhandled frame s" "isr_handler_07 code frame s = isr_handler code frame s"
  "irq_handler_07 code frame s = irq_handler code frame s"
proof -
  show p: "pic_init_07 m v s = pic_init m v s" for m v and s :: "'c vga_state_scheme"
    by (simp only: pic_init_07_def pic_init_def messages_07)
  show "idt_init_07 syms s = idt_init syms s"
    by (simp only: idt_init_07_def idt_init_def p messages_07)
  show u: "isr_unhandled_07 frame s = isr_unhandled frame s" for s :: "'b intr_state_scheme"
  proof (cases "f_int_no frame < 32")
    case True
    then have "list_all plain (exception_names ! unat (f_int_no frame))"
      by (intro plain_names) (simp add: word_less_nat_alt)
    note m = message_07_exception [OF this]
    show ?thesis by (simp only: isr_unhandled_07_def isr_unhandled_def messages_07 m)
  next
    case False
    then show ?thesis by (simp only: isr_unhandled_07_def isr_unhandled_def messages_07 if_False)
  qed
  show "isr_handler_07 code frame s = isr_handler code frame s"
    by (simp only: isr_handler_07_def isr_handler_def u)
  show "irq_handler_07 code frame s = irq_handler code frame s"
    by (simp only: irq_handler_07_def irq_handler_def messages_07)
qed

lemma gdt_messages_07:
  "printk_07 ''\<newline>--- GDT Dump ---\<newline>'' [] = printk ''\<newline>--- GDT Dump ---\<newline>'' []"
  "printk_07 ''GDT Base: 0x%x, Limit: 0x%x\<newline>'' [Word w1, Word w2] =
     printk ''GDT Base: 0x%x, Limit: 0x%x\<newline>'' [Word w1, Word w2]"
  "printk_07 ''\<newline>--- CPU Segment Registers ---\<newline>'' [] = printk ''\<newline>--- CPU Segment Registers ---\<newline>'' []"
  "printk_07 ''CS: 0x%x, DS: 0x%x, ES: 0x%x\<newline>'' [Word w1, Word w2, Word w3] =
     printk ''CS: 0x%x, DS: 0x%x, ES: 0x%x\<newline>'' [Word w1, Word w2, Word w3]"
  "printk_07 ''FS: 0x%x, GS: 0x%x, SS: 0x%x\<newline>'' [Word w1, Word w2, Word w3] =
     printk ''FS: 0x%x, GS: 0x%x, SS: 0x%x\<newline>'' [Word w1, Word w2, Word w3]"
  "printk_07 ''--------------------\<newline>'' [] = printk ''--------------------\<newline>'' []"
  "printk_07 ''GDT[%d]: Base=0x%x, Limit=0x%x, Access=0x%x, Gran=0x%x\<newline>'' [Word w1, Word w2, Word w3, Word w4, Word w5] =
     printk ''GDT[%d]: Base=0x%x, Limit=0x%x, Access=0x%x, Gran=0x%x\<newline>'' [Word w1, Word w2, Word w3, Word w4, Word w5]"
  by (rule ext, rule printk_versions, simp add: plain_def)+

lemma message_07_type:
  "list_all plain a \<Longrightarrow> list_all plain b \<Longrightarrow> list_all plain c \<Longrightarrow>
   printk_07 ''        -> Type: %s, DPL=%d, Granularity=%s, Size=%s\<newline>'' [Str (Some a), Word w, Str (Some b), Str (Some c)] =
     printk ''        -> Type: %s, DPL=%d, Granularity=%s, Size=%s\<newline>'' [Str (Some a), Word w, Str (Some b), Str (Some c)]"
  by (rule ext, rule printk_versions) (simp add: plain_def)

lemma gdt_versions: "print_gdt_entry_07 i e s0 = print_gdt_entry i e s0" "gdt_dump_07 s = gdt_dump s"
proof -
  show p: "print_gdt_entry_07 i e s = print_gdt_entry i e s" for i e and s :: "'c vga_state_scheme"
  proof -
    have "list_all plain (if b then ''4K'' else ''1B'')" "list_all plain (if b then ''32-bit'' else ''16-bit'')" for b
      by (simp_all add: plain_def)
    note m = message_07_type [OF plain_types this]
    show ?thesis by (simp only: print_gdt_entry_07_def print_gdt_entry_def gdt_messages_07 m)
  qed
  show "gdt_dump_07 s = gdt_dump s"
    by (simp only: gdt_dump_07_def gdt_dump_def p gdt_messages_07)
qed

lemma screen_only_dump: "screen_only s (gdt_dump s)"
proof -
  have e: "screen_only s (print_gdt_entry i e s)" for i e and s :: "'b vga_state_scheme"
    unfolding print_gdt_entry_def Let_def by (rule screen_only_trans [OF printk_screen_only printk_screen_only])
  have f: "screen_only s (fold (\<lambda>i s. print_gdt_entry i (gdt s i) s) xs s)" for xs and s :: "'a gdt_state_scheme"
    by (induction xs arbitrary: s) (auto intro: screen_only_trans [OF e])
  note pk = screen_only_trans [OF _ printk_screen_only]
  show ?thesis
    unfolding gdt_dump_def Let_def by (intro pk) (rule screen_only_trans [OF pk [OF printk_screen_only] f])
qed

text \<open>The dump before the table is loaded is all that chapter 07 does more.\<close>

lemma gdt_init_versions:
  "\<exists>g. gdt_init syms p eax s = printk ''[GDT] Initialized.\<newline>'' [] (tss_flush (gdt_flush p eax g)) \<and>
     gdt_init_07 syms p eax s = printk ''[GDT] Initialized.\<newline>'' [] (tss_flush (gdt_flush p eax (gdt_dump g))) \<and>
     mem g = mem s \<and> eflags g = eflags s \<and> tick g = tick s \<and> device_io g = device_io s \<and>
     interrupt_handlers g = interrupt_handlers s \<and> vga_ok g = vga_ok s"
  unfolding gdt_init_def gdt_init_07_def Let_def messages_07 gdt_versions
  by (rule exI, rule conjI, rule refl, rule conjI, rule refl) (simp add: gdt_set_gate_def device_io_def vga_ok_def)

subsection \<open>The divisor\<close>

lemma rounding_bound:
  "n + h + 1 \<le> p + f \<Longrightarrow> p \<le> n + h \<Longrightarrow> 2 * h \<le> f \<Longrightarrow> f \<le> 2 * h + 1 \<Longrightarrow> 2 * \<bar>p - n\<bar> \<le> (f :: int)"
  by arith

lemma nearest_multiple:
  assumes "0 < f"
  shows "2 * \<bar>int ((n + f div 2) div f) * int f - int n\<bar> \<le> int f"
proof -
  define q where "q = (n + f div 2) div f"
  have "n + f div 2 = q * f + (n + f div 2) mod f" by (simp add: q_def)
  moreover have "(n + f div 2) mod f < f" using assms by simp
  ultimately have "n + f div 2 + 1 \<le> q * f + f" "q * f \<le> n + f div 2" by linarith+
  then have "int n + int (f div 2) + 1 \<le> int q * int f + int f" "int q * int f \<le> int n + int (f div 2)"
    by (simp_all flip: of_nat_mult of_nat_add of_nat_Suc)
  moreover have "2 * int (f div 2) \<le> int f" "int f \<le> 2 * int (f div 2) + 1" by linarith+
  ultimately show ?thesis unfolding q_def [symmetric] by (rule rounding_bound)
qed

text \<open>The divisor of \<open>07.kernel-idt\<close> is the nearest integer, and is defined for every frequency.\<close>

theorem divisor_07_nearest:
  assumes "0 < unat f" "unat f < 4000000000"
  shows "2 * \<bar>int (unat (divisor_07 f)) * int (unat f) - 1193180\<bar> \<le> int (unat f)"
proof -
  have "unat (CLOCK_TICK_RATE + f div 2) = 1193180 + unat f div 2"
    using assms(2) by (subst unat_add_u32) (auto simp: unat_div)
  moreover have "f \<noteq> 0" using assms(1) by auto
  ultimately have d: "unat (divisor_07 f) = (1193180 + unat f div 2) div unat f"
    by (simp add: divisor_07_def unat_div del: CLOCK_TICK_RATE_def)
  show ?thesis using nearest_multiple [of "unat f" 1193180] assms(1) unfolding d by simp
qed

subsection \<open>Ticks\<close>

text \<open>What every step of \<open>main\<close> and of the timer keeps.\<close>

definition running_07 :: "symbols \<Rightarrow> 'a timer_state_scheme \<Rightarrow> bool" where
  "running_07 syms s \<longleftrightarrow> interrupts_enabled s \<and> idtr s = Some \<lparr>idt_limit = 2047, idt_base = idt_sym syms\<rparr> \<and>
     interrupt_handlers s 32 = timer_callback_sym syms \<and> vga_ok s"

lemma vga_ok_printk: "vga_ok s \<Longrightarrow> vga_ok (printk fmt args s)"
  using printk_safe [of s fmt args] by (simp add: vga_safe_def)

text \<open>One tick: counted, printed, acknowledged.\<close>

lemma tick_07:
  fixes s :: "'a timer_state_scheme"
  assumes "running_07 syms s" "timer_callback_sym syms \<noteq> 0"
  shows "\<exists>t. deliver_irq (irq_handler_07 (handler_code_07 syms others)) 0 x s = Inr t \<and> running_07 syms t \<and>
    tick t = tick s + 1 \<and> mem t = mem s \<and> device_io t = device_io s @ [(PIC1_CMD, PIC_EOI)]"
proof -
  obtain c esp st where x: "x = (c, esp, st)" by (cases x)
  define s1 where "s1 = (pic_send_eoi 0 ((disable_interrupts s)\<lparr>in_interrupt_context := True\<rparr>))\<lparr>tick := tick s + 1\<rparr>"
  define t where "t = (printk ''tick=%d\<newline>'' [Word (tick s + 1)] s1)\<lparr>in_interrupt_context := False, eflags := eflags s\<rparr>"
  have s1: "vga_ok s1" "idtr s1 = idtr s" "interrupt_handlers s1 = interrupt_handlers s" "tick s1 = tick s + 1" "mem s1 = mem s"
    "device_io s1 = device_io s @ [(PIC1_CMD, PIC_EOI)]"
    using assms(1) by (simp_all add: s1_def running_07_def vga_ok_def pic_send_eoi_def outb_def disable_interrupts_def device_io_def)
  have "deliver_irq (irq_handler_07 (handler_code_07 syms others)) 0 x s = Inr t"
    using assms
    by (simp add: x deliver_irq_def stub_restores irq_vector interrupt_versions(5) irq_handler_def handler_code_07_def
        timer_callback_07_def messages_07 running_07_def Let_def t_def s1_def pic_send_eoi_def outb_def disable_interrupts_def)
  moreover have "running_07 syms t"
    using assms(1) vga_ok_printk [OF s1(1)] s1(2,3) by (simp add: running_07_def t_def vga_ok_def interrupts_enabled_def)
  moreover have "device_io (u\<lparr>in_interrupt_context := b, eflags := e\<rparr>) = device_io u" for u :: "'a timer_state_scheme" and b e
    by (simp add: device_io_def)
  ultimately show ?thesis using s1(4-6) by (simp add: t_def)
qed

lemma ticks_07:
  fixes s :: "'a timer_state_scheme"
  shows "running_07 syms s \<Longrightarrow> timer_callback_sym syms \<noteq> 0 \<Longrightarrow>
   \<exists>t. deliver_irqs (irq_handler_07 (handler_code_07 syms others)) 0 xs s = Inr t \<and> running_07 syms t \<and>
    tick t = tick s + of_nat (length xs) \<and> mem t = mem s \<and> device_io t = device_io s @ replicate (length xs) (PIC1_CMD, PIC_EOI)"
proof (induction xs arbitrary: s)
  case (Cons x xs)
  from tick_07 [OF Cons.prems, where others = others and x = x] obtain t where
    t: "deliver_irq (irq_handler_07 (handler_code_07 syms others)) 0 x s = Inr t" "running_07 syms t" "tick t = tick s + 1"
      "mem t = mem s" "device_io t = device_io s @ [(PIC1_CMD, PIC_EOI)]" by blast
  from Cons.IH [OF t(2) Cons.prems(2)] t show ?case by (auto simp: add.assoc)
qed simp

subsection \<open>From the start\<close>

lemma register_07_fields:
  fixes s :: "'a timer_state_scheme"
  defines "t \<equiv> \<lambda>v h. register_interrupt_handler_07 v h s"
  shows "interrupt_handlers (t v h) = (interrupt_handlers s)(unat v := h)" "mem (t v h) = mem s" "eflags (t v h) = eflags s" "tick (t v h) = tick s"
    "idtr (t v h) = idtr s" "vga_ok s \<Longrightarrow> vga_ok (t v h)"
proof -
  have v: "unat v < 256" using unsigned_less [of v] by simp
  have ok: "vga_ok s \<Longrightarrow> vga_ok (s\<lparr>interrupt_handlers := g\<rparr>)" for g by (simp add: vga_ok_def)
  show "interrupt_handlers (t v h) = (interrupt_handlers s)(unat v := h)" "mem (t v h) = mem s" "eflags (t v h) = eflags s" "tick (t v h) = tick s"
    "idtr (t v h) = idtr s" "vga_ok s \<Longrightarrow> vga_ok (t v h)"
    using v ok by (simp_all add: t_def register_interrupt_handler_07_def Let_def messages_07 vga_ok_printk)
qed

lemma program_pit_fields:
  fixes s :: "'a timer_state_scheme"
  shows "interrupt_handlers (program_pit d s) = interrupt_handlers s" "mem (program_pit d s) = mem s"
    "eflags (program_pit d s) = eflags s" "tick (program_pit d s) = tick s" "idtr (program_pit d s) = idtr s"
    "vga_ok (program_pit d s) = vga_ok s"
  by (simp_all add: program_pit_def outb_def Let_def vga_ok_def)

lemma vga_ok_dump: "vga_ok s \<Longrightarrow> vga_ok (gdt_dump s)"
proof -
  have e: "vga_ok s \<Longrightarrow> vga_ok (print_gdt_entry i e s)" for i e and s :: "'b vga_state_scheme"
    unfolding print_gdt_entry_def Let_def by (intro vga_ok_printk)
  have f: "vga_ok s \<Longrightarrow> vga_ok (fold (\<lambda>i s. print_gdt_entry i (gdt s i) s) xs s)" for xs and s :: "'a gdt_state_scheme"
    by (induction xs arbitrary: s) (auto intro: e)
  show "vga_ok s \<Longrightarrow> vga_ok (gdt_dump s)"
    unfolding gdt_dump_def Let_def by (intro vga_ok_printk f)
qed

lemma gdt_init_07_fields:
  fixes s :: "'a gdt_state_scheme"
  defines "t \<equiv> \<lambda>syms p eax. gdt_init_07 syms p eax s"
  shows "gdt (t syms p eax) = gdt (gdt_init syms p eax s)" "gdtr (t syms p eax) = gdtr (gdt_init syms p eax s)"
    "mem (t syms p eax) = mem s" "tick (t syms p eax) = tick s" "vga_ok s \<Longrightarrow> vga_ok (t syms p eax)"
proof -
  obtain g where g: "gdt_init syms p eax s = printk ''[GDT] Initialized.\<newline>'' [] (tss_flush (gdt_flush p eax g))"
    "gdt_init_07 syms p eax s = printk ''[GDT] Initialized.\<newline>'' [] (tss_flush (gdt_flush p eax (gdt_dump g)))"
    "mem g = mem s" "tick g = tick s" "vga_ok g = vga_ok s" using gdt_init_versions [of syms p eax s] by blast
  have d: "vga_state.more (gdt_dump g) = vga_state.more g" "mem (gdt_dump g) = mem g"
    using screen_only_dump [of g] by (simp_all add: screen_only_def)
  have ok: "vga_ok (tss_flush (gdt_flush p eax u)) = vga_ok u" for u :: "'a gdt_state_scheme"
    by (simp add: tss_flush_def gdt_flush_def vga_ok_def)
  show "gdt (t syms p eax) = gdt (gdt_init syms p eax s)" "gdtr (t syms p eax) = gdtr (gdt_init syms p eax s)"
    "mem (t syms p eax) = mem s" "tick (t syms p eax) = tick s"
    using gdt_more_eqD [OF d(1)] timer_more_eqD [OF d(1)] d(2) g(3,4)
    by (simp_all add: t_def g(1,2) tss_flush_def gdt_flush_def)
  show "vga_ok s \<Longrightarrow> vga_ok (t syms p eax)" unfolding t_def g(2) using g(5) by (simp add: vga_ok_printk ok vga_ok_dump)
qed

lemma idt_init_fields:
  fixes s :: "'a timer_state_scheme"
  shows "mem (idt_init syms s) = mem s" "tick (idt_init syms s) = tick s" "vga_ok s \<Longrightarrow> vga_ok (idt_init syms s)"
proof -
  define keep where "keep = (\<lambda>t :: 'a timer_state_scheme. (mem t, tick t, vga_ok t))"
  have g: "keep (fold clear_gate xs t) = keep t" "keep (fold (SET_ISR syms) xs t) = keep t" "keep (fold (SET_IRQ syms) xs t) = keep t" for xs t
    by (rule fold_keeps, simp add: keep_def clear_gate_def SET_ISR_def SET_IRQ_def idt_set_gate_def vga_ok_def)+
  have r: "keep (t\<lparr>the_idt_ptr := x\<rparr>) = keep t" "keep (t\<lparr>idtr := y\<rparr>) = keep t" for t x y
    by (simp_all add: keep_def vga_ok_def)
  have p: "mem (pic_init m v t) = mem t" "tick (pic_init m v t) = tick t" "vga_ok t \<Longrightarrow> vga_ok (pic_init m v t)" for m v and t :: "'a timer_state_scheme"
    by (simp_all add: pic_init_def io_wait_def outb_def Let_def) (rule vga_ok_printk, simp add: vga_ok_def)
  define u where "u = fold (SET_IRQ syms) [0..<16] (fold (SET_ISR syms) [0..<32] (fold clear_gate [0..<IDT_ENTRIES]
    (s\<lparr>the_idt_ptr := \<lparr>idt_limit = of_nat (8 * IDT_ENTRIES - 1), idt_base = idt_sym syms\<rparr>\<rparr>)))"
  have u: "mem u = mem s" "tick u = tick s" "vga_ok u = vga_ok s"
    using g r unfolding u_def keep_def by (simp_all only: prod.inject)
  have i: "idt_init syms s = printk ''[IDT] Initialized with %d entries.\<newline>'' [Word (of_nat IDT_ENTRIES)]
      ((pic_init PIC1_VECTOR_OFFSET PIC2_VECTOR_OFFSET u)\<lparr>idtr := Some (the_idt_ptr (pic_init PIC1_VECTOR_OFFSET PIC2_VECTOR_OFFSET u))\<rparr>)"
    by (simp only: idt_init_def Let_def u_def)
  have "vga_ok (w\<lparr>idtr := y\<rparr>) = vga_ok w" for w :: "'a timer_state_scheme" and y by (simp add: vga_ok_def)
  then show "mem (idt_init syms s) = mem s" "tick (idt_init syms s) = tick s" "vga_ok s \<Longrightarrow> vga_ok (idt_init syms s)"
    unfolding i using u p(3) [of u] by (simp_all add: p(1,2) vga_ok_printk del: IDT_ENTRIES_def PIC1_VECTOR_OFFSET_def PIC2_VECTOR_OFFSET_def)
qed

text \<open>The state at the endless loop of \<open>main\<close>.\<close>

lemma main_07_running:
  fixes s :: "'a gdt_state_scheme"
  shows "running_07 syms (kernel_main_07 syms p eax s)" "tick (kernel_main_07 syms p eax s) = tick s"
    "load32 (mem (kernel_main_07 syms p eax s)) 0xEFFFFFFC = 0xDEADBEEF"
    "pit_run (io_log (kernel_main_07 syms p eax s)) q =
       \<lparr>pit_low_next = True, pit_mode = PIT_MODE3, pit_bcd = True, pit_reload = 23864\<rparr>"
proof -
  define s1 where "s1 = printk ''Hello, kernel world!\<newline>'' [] (vga_clear (s\<lparr>mem := store32 (mem s) (0xF0000000 - 4) 0xDEADBEEF\<rparr>))"
  define s2 where "s2 = printk_07 ''Value: %d, Hex: 0x%x, Char: %c, String: %s\<newline>''
    [Word 1234, Word 1234, Word 65, Str (Some ''VGA printf OK!'')] s1"
  define s3 where "s3 = idt_init syms (gdt_init_07 syms p eax s2)"
  define s4 where "s4 = register_interrupt_handler_07 32 (timer_callback_sym syms) (enable_interrupts s3)"
  have s2_eq: "s2 = printk ''Value: %d, Hex: 0x%x, Char: %c, String: %s\<newline>''
    [Word 1234, Word 1234, Word 65, Str (Some ''VGA printf OK!'')] s1"
    unfolding s2_def by (rule printk_versions) code_simp
  have main: "kernel_main_07 syms p eax s = program_pit (divisor_07 TIMER_FREQUENCY) s4"
    by (simp only: kernel_main_07_def init_timer_07_def messages_07 interrupt_versions s1_def s2_def s3_def s4_def Let_def IRQ0_INT_NUM_def)
  have "vga_ok (vga_clear t)" "mem (vga_clear t) = mem t" "tick (vga_clear t) = tick t" for t :: "'a gdt_state_scheme"
    by (simp_all add: vga_clear_def vga_sync_cursor_def outb_def vga_ok_def Let_def)
  then have s2: "vga_ok s2" "mem s2 = store32 (mem s) 0xEFFFFFFC 0xDEADBEEF" "tick s2 = tick s"
    unfolding s2_eq s1_def by (simp_all add: vga_ok_printk)
  have s3: "vga_ok s3" "mem s3 = mem s2" "tick s3 = tick s2" "idtr s3 = Some \<lparr>idt_limit = 2047, idt_base = idt_sym syms\<rparr>"
    unfolding s3_def using s2(1) by (simp_all add: idt_init_fields gdt_init_07_fields idt_init_loads)
  have e: "vga_ok (enable_interrupts s3)" "mem (enable_interrupts s3) = mem s3" "tick (enable_interrupts s3) = tick s3" "idtr (enable_interrupts s3) = idtr s3"
    using s3(1) by (simp_all add: enable_interrupts_def vga_ok_def)
  have s4: "interrupts_enabled s4" "idtr s4 = idtr s3" "interrupt_handlers s4 32 = timer_callback_sym syms" "vga_ok s4" "tick s4 = tick s" "mem s4 = mem s2"
    unfolding s4_def using e s2(3) s3(2,3) interrupts_enabled_simps(1) [of s3]
    by (simp_all add: register_07_fields interrupts_enabled_def)
  show "running_07 syms (kernel_main_07 syms p eax s)" "tick (kernel_main_07 syms p eax s) = tick s"
    "load32 (mem (kernel_main_07 syms p eax s)) 0xEFFFFFFC = 0xDEADBEEF"
    unfolding main running_07_def using s4 s3(4) s2(2) by (simp_all add: program_pit_fields interrupts_enabled_def)
  have "(ucast (divisor_07 TIMER_FREQUENCY) :: u16) = 23864" by code_simp
  then show "pit_run (io_log (kernel_main_07 syms p eax s)) q =
       \<lparr>pit_low_next = True, pit_mode = PIT_MODE3, pit_bcd = True, pit_reload = 23864\<rparr>"
    unfolding main by (simp only: program_pit_programs)
qed


text \<open>\<open>main\<close> of chapter 06 reaches its loop with the same two lines on the screen as the later driver prints.\<close>

theorem main_06_prints:
  "\<exists>t. kernel_main_06 s = Some t \<and> vga_ok t \<and>
    t = printk ''Value: %d, Hex: 0x%x, Char: %c, String: %s\<newline>''
      [Word 1234, Word 1234, Word 65, Str (Some ''VGA printf OK!'')] (printk ''Hello, kernel world!\<newline>'' [] (vga_clear s))"
proof -
  have p: "printf_06 fmt args u = Some (printk fmt args u)" if "common_format fmt args" "\<not> dangling fmt" for fmt args and u :: "'a vga_state_scheme"
    using printf_versions [OF that(1) order_refl, of u] printf_loop_defined [OF that(2), of "length fmt" args u]
    by (auto simp: printf_06_07 printk_def vga_printf_def)
  have "vga_ok (vga_clear s)" by (simp add: vga_clear_def vga_sync_cursor_def outb_def vga_ok_def Let_def)
  moreover have f: "common_format ''Hello, kernel world!\<newline>'' []" "\<not> dangling ''Hello, kernel world!\<newline>''"
    "common_format ''Value: %d, Hex: 0x%x, Char: %c, String: %s\<newline>'' [Word 1234, Word 1234, Word 65, Str (Some ''VGA printf OK!'')]"
    "\<not> dangling ''Value: %d, Hex: 0x%x, Char: %c, String: %s\<newline>''" by code_simp+
  ultimately show ?thesis
    unfolding kernel_main_06_def p [OF f(1,2)] bind.bind_lunit p [OF f(3,4)] by (blast intro: vga_ok_printk)
qed

end
