(* ===== verification/Kernel_examples.thy ===== *)
theory Kernel_examples
  imports Kheap_examples Boot Chapter07
begin

text \<open>
  The boot of a machine with 16 MiB of memory: the loader has left one E820 entry at \<open>0xC0009000\<close>
  and the kernel occupies the third MiB.
\<close>

definition boot_ram :: ram where
  "boot_ram = (\<lambda>_. 0)(0xC000900B := 1, 0xC0009010 := 1)"

definition machine_on :: kheap_state where
  "machine_on = heap_on\<lparr>mem := boot_ram\<rparr>"

definition boot_sections :: kernel_section_info where
  "boot_sections = \<lparr>text_start = 0xC0200000, text_end = 0xC0210000, rodata_start = 0xC0210000, rodata_end = 0xC0220000,
     data_start = 0xC0220000, data_end = 0xC0230000, bss_start = 0xC0230000, bss_end = 0xC0300000,
     kernel_end = 0xC0300000, kernel_size = 0x100000, kernel_phys_base = 0x200000, kernel_virt_base = 0xC0200000\<rparr>"

definition boot_symbols :: symbols where
  "boot_symbols = \<lparr>isr_sym = (\<lambda>n. 0xC0201000 + 16 * of_nat n), irq_sym = (\<lambda>n. 0xC0202000 + 16 * of_nat n),
     idt_sym = 0xC0231000, gdt_sym = 0xC0232000, tss_sym = 0xC0233000, timer_callback_sym = 0xC0203000,
     page_fault_handler_sym = 0xC0204000\<rparr>"

lemma mem_machine_on: "mem machine_on = boot_ram" "the_boot_info machine_on = the_boot_info heap_on"
  by (simp_all add: machine_on_def)

lemma boot_ram_zero: "same_on (\<lambda>_. 0) boot_ram 0xC0010000 4294967296"
  unfolding same_on_def
proof (intro allI impI)
  fix x :: nat assume "0xC0010000 \<le> x" "x < 4294967296"
  then have "unat (word_of_nat x :: u32) = x" "x \<noteq> 0xC000900B" "x \<noteq> 0xC0009010" by (simp_all add: unat_of_nat_u32)
  then have "word_of_nat x \<noteq> (0xC000900B :: u32)" "word_of_nat x \<noteq> (0xC0009010 :: u32)" by auto
  then show "boot_ram (word_of_nat x) = 0" by (simp add: boot_ram_def)
qed

lemma machine_on_guards: "init_guards (mem machine_on)"
proof -
  have z: "load32 boot_ram (word_of_nat a) = 0" if "0xC0010000 \<le> a" "a + 4 \<le> 4294967296" for a
    using load32_same_on [OF boot_ram_zero that] by (simp add: load32_def)
  show ?thesis using z [where a = "0xC0C7FFF8"] by (simp add: mem_machine_on init_guards_def z addr_def KHEAP_MAGIC_def)
qed

lemma boot_entry:
  "e820_at boot_ram 0xC0009000 0 = \<lparr>e_addr = 0, e_size = 0x1000000, e_type = 1, e_acpi = 0\<rparr>"
  "e820_end_mark (e820_at boot_ram 0xC0009000 (Suc 0))"
  by (simp_all add: e820_at_def e820_end_mark_def load64_def load32_def boot_ram_def)

lemma boot_map:
  "entries (the_boot_info (boot_info_init boot_sections machine_on)) =
     [\<lparr>e_addr = 0, e_size = 0x1000000, e_type = 1, e_acpi = 0\<rparr>]"
proof -
  have "\<not> e820_end_mark (e820_at boot_ram 0xC0009000 0)" by (simp add: boot_entry e820_end_mark_def)
  then have "read_e820 (e820_at boot_ram 0xC0009000) 0 m = (1, m(0 := e820_at boot_ram 0xC0009000 0))" for m
    using boot_entry(2) by (subst read_e820.simps, simp) (subst read_e820.simps, simp)
  then show ?thesis by (simp add: boot_info_init_def Let_def mem_machine_on entries_def boot_entry)
qed

lemma boot_facts:
  defines "bi \<equiv> the_boot_info (boot_info_init boot_sections machine_on)"
  shows "\<forall>e \<in> set (entries bi). unat (e_addr e) + unat (e_size e) \<le> 2 ^ 43"
    "unat (highest_end (entries bi)) div 4096 = 4096" "kernel_sections bi = boot_sections"
  by (simp_all add: bi_def boot_map highest_end_def entry_end_def) (simp add: boot_info_init_def Let_def split_beta)

lemma boot_free: "{..<4096} - Pmm.reserved (the_boot_info (boot_info_init boot_sections machine_on)) = {768..<4096}"
  by (auto simp: Pmm.reserved_def boot_map boot_facts(3)) (auto simp: region_pages_def boot_sections_def)

lemma machine_on_layout: "kernel_layout machine_on" "tlb_coherent machine_on"
proof -
  have "phys machine_on = phys power_on" "cr3 machine_on = cr3 power_on" "tlb machine_on = tlb power_on"
    by (simp_all add: machine_on_def heap_on_def vmm_state.defs power_on_def)
  from paging_cong [OF this] power_on_layout show "kernel_layout machine_on" "tlb_coherent machine_on" by simp_all
qed

lemmas machine_boots = machine_on_guards boot_facts(1) eq_refl [OF boot_facts(2), THEN order_trans] machine_on_layout


theorem idle_serves_ticks_witness:
  "\<exists>s1 s2. kernel_main boot_symbols 0xC0232100 0xC0232100 boot_sections machine_on = Some (Inr s1) \<and>
     take_irqs (handler_code boot_symbols (\<lambda>h f. Inr)) 0 [(power_on_cpu, 0, []), (power_on_cpu, 0, [])] s1 = Inr s2 \<and>
     tick s2 = tick s1 + 2"
proof -
  obtain s1 where s1: "kernel_main boot_symbols 0xC0232100 0xC0232100 boot_sections machine_on = Some (Inr s1)"
    using kernel_main_idling [OF machine_boots, of boot_symbols "0xC0232100" "0xC0232100"] by auto
  have "timer_callback_sym boot_symbols \<noteq> 0" by (simp add: boot_symbols_def)
  with idle_serves_ticks [OF machine_boots s1, of "\<lambda>h f. Inr" "[(power_on_cpu, 0, []), (power_on_cpu, 0, [])]"]
  obtain s2 where "take_irqs (handler_code boot_symbols (\<lambda>h f. Inr)) 0 [(power_on_cpu, 0, []), (power_on_cpu, 0, [])] s1 = Inr s2"
    "tick s2 = tick s1 + 2" by auto
  with s1 show ?thesis by blast
qed

text \<open>Four accesses to three pages of the heap.\<close>

theorem demand_paging_witness:
  "\<exists>s'. touch_all fault_frame [0xC0C00000, 0xC0C01234, 0xC0C01000, 0xD0000000] power_on = Some (Inr s') \<and>
     (\<forall>va \<in> {0xC0C00000, 0xC0C01234, 0xC0C01000, 0xD0000000}. mmu s' va \<noteq> None) \<and> privately_grown power_on s'"
proof -
  let ?vas = "[0xC0C00000, 0xC0C01234, 0xC0C01000, 0xD0000000] :: u32 list"
  have "card (fresh_pages power_on ?vas) \<le> card {va \<in> set ?vas. mmu power_on va = None}"
    unfolding fresh_pages_def by (rule card_image_le) simp
  also have "\<dots> \<le> card (set ?vas)" by (rule card_mono) auto
  also have "\<dots> \<le> 4" by (rule order_trans [OF card_length]) simp
  also have "4 \<le> card (pmm_avail power_on)" by (simp add: power_on_pmm)
  finally show ?thesis
    using demand_paging_private [OF power_on_layout(1,3) power_on_pmm(1), of ?vas fault_frame] by auto
qed

lemma power_on_private: "private_area power_on"
proof -
  have "phys power_on = setup_page (\<lambda>_. 0)" by simp
  moreover have "dir_base power_on = KERNEL_PAGE_DIR_PHY" using power_on_layout(1) by (simp add: kernel_layout_def)
  ultimately have "mmu power_on va = None" if "heap_area va" for va
    using setup_page_tables_as_found(2) [of power_on "\<lambda>_. 0" va] area_kernel [OF that] by simp
  then show ?thesis by (simp add: private_area_def)
qed

theorem paged_memory_flat_witness:
  "\<exists>s'. paged_run fault_frame [Store 0xC0C80009 18, Store 0xD0000000 7, Load 0xC0C80009] power_on = Some ([18, 7, 18], s')"
proof -
  let ?as = "[Store 0xC0C80009 18, Store 0xD0000000 7, Load 0xC0C80009]"
  have "card (fresh_pages power_on (map access_addr ?as)) \<le> card (set (map access_addr ?as))"
    unfolding fresh_pages_def by (rule order_trans [OF card_image_le card_mono]) auto
  also have "\<dots> \<le> card (pmm_avail power_on)" by (rule order_trans [OF card_length]) (simp add: power_on_pmm)
  finally have c: "card (fresh_pages power_on (map access_addr ?as)) \<le> card (pmm_avail power_on)" .
  have "\<forall>a \<in> set ?as. heap_area (access_addr a)" by (simp add: heap_area_def KHEAP_START_def KHEAP_MAX_def)
  with paged_memory_flat [OF power_on_layout(1,3) power_on_pmm(1) power_on_private _ c, of fault_frame] show ?thesis by auto
qed

text \<open>The line that the kernel of chapter 07 prints at its start.\<close>

theorem printf_versions_witness:
  "printf_07 ''Value: %d, Hex: 0x%x, Char: %c, String: %s\<newline>''
     [Word 1234, Word 1234, Word 65, Str (Some ''VGA printf OK!'')] machine_on =
   vga_printf (Some ''Value: %d, Hex: 0x%x, Char: %c, String: %s\<newline>'')
     [Word 1234, Word 1234, Word 65, Str (Some ''VGA printf OK!'')] machine_on"
  by (rule printf_versions_agree) code_simp

text \<open>The loader on empty memory maps the page after the third of the kernel to the frame after \<open>0x202\<close>.\<close>

theorem loader_maps_witness:
  "\<exists>t. allocate_pages_for_kernel power_on = Some t \<and> mmu t 0xC0803004 = Some 0x203004 \<and> mmu t 0xEFFFEFFC = None \<and>
     private_area t"
proof -
  have "dir_base power_on = KERNEL_PAGE_DIR_PHY" using power_on_layout(1) by (simp add: kernel_layout_def)
  from loader_maps [of power_on "\<lambda>_. 0", OF _ this] obtain t where t: "allocate_pages_for_kernel power_on = Some t" "private_area t"
    "\<And>va. KERNEL_LOAD_VIRTUAL_ADDR \<le> va \<Longrightarrow>
       mmu t va = map_option (\<lambda>f. word_of_nat (f * 4096) + (va AND 0xFFF)) (loader_frame (page_no va))" by auto
  have "mmu t 0xC0803004 = Some 0x203004" "mmu t 0xEFFFEFFC = None"
    by (subst t(3); simp add: loader_frame_def page_no_def)+
  with t show ?thesis by blast
qed

text \<open>An image with one segment of three bytes, its program header behind the ELF header.\<close>

definition tiny_image :: ram where
  "tiny_image = (\<lambda>_. 0)(0xFFF0001A := 0x80, 0xFFF0001B := 0xC0, 0xFFF0001C := 52, 0xFFF0002A := 32, 0xFFF0002C := 1,
     0xFFF00034 := 1, 0xFFF00039 := 0x10, 0xFFF0003E := 0x80, 0xFFF0003F := 0xC0, 0xFFF00044 := 3,
     0xFFF01000 := 0xFA, 0xFFF01001 := 0xEB, 0xFFF01002 := 0xFE)"

definition tiny_segment :: program_header where
  "tiny_segment = \<lparr>p_type = 1, p_offset = 0x1000, p_vaddr = 0xC0800000, p_filesz = 3\<rparr>"

lemma tiny_image_fields: "e_phnum tiny_image = 1" "e_phoff tiny_image = 52" "e_phentsize tiny_image = 32"
  by (simp_all add: e_phnum_def e_phoff_def e_phentsize_def load16_def load32_def tiny_image_def)

lemma tiny_image_segments: "segments tiny_image = [tiny_segment]"
  by (simp add: segments_def tiny_image_fields) (simp add: program_header_at_def load32_def tiny_image_def tiny_segment_def)

theorem do_load_kernel_witness:
  "fst (do_load_kernel tiny_image) = 0xC0800000 \<and> snd (do_load_kernel tiny_image) 0xC0800001 = 0xEB"
proof -
  have "loadable tiny_image"
    by (simp add: loadable_def tiny_image_fields tiny_image_segments) (simp add: tiny_segment_def)
  from do_load_kernel_overlay [OF this] show ?thesis
    by (simp add: tiny_image_segments overlay_def covers_def) (simp add: tiny_segment_def tiny_image_def load32_def)
qed


text \<open>The 16 MiB machine from the loader's tables to its second tick.\<close>

theorem boot_to_ticks_witness:
  "\<exists>t s1 s2. allocate_pages_for_kernel machine_on = Some t \<and>
     kernel_main boot_symbols 0xC0232100 0xC0232100 boot_sections t = Some (Inr s1) \<and>
     take_irqs (handler_code boot_symbols (\<lambda>h f. Inr)) 0 [(power_on_cpu, 0, []), (power_on_cpu, 0, [])] s1 = Inr s2 \<and>
     tick s2 = tick s1 + 2"
proof -
  have p: "phys machine_on = setup_page (\<lambda>_. 0)" "cr3 machine_on = cr3 power_on" "tlb machine_on = (\<lambda>_. None)"
    by (simp_all add: machine_on_def heap_on_def vmm_state.defs power_on_def)
  then have d: "dir_base machine_on = KERNEL_PAGE_DIR_PHY"
    using power_on_layout(1) by (simp add: kernel_layout_def dir_base_def)
  have "timer_callback_sym boot_symbols \<noteq> 0" by (simp add: boot_symbols_def)
  from boot_to_ticks [OF p(1) d p(3) _ machine_boots(1,2,3) this, of "0xC0232100" "0xC0232100" "\<lambda>h f. Inr"
      "[(power_on_cpu, 0, []), (power_on_cpu, 0, [])]"]
  show ?thesis by auto
qed

end
