(* ===== verification/Boot_examples.thy ===== *)
theory Boot_examples
  imports Kernel_examples
begin

text \<open>
  The boot properties at a concrete machine: a disk that holds \<open>tiny_image\<close> from sector 9 on and is busy
  for some polls before each sector, and a BIOS with a map of two entries.
\<close>

subsection \<open>A disk\<close>

definition image_word :: "nat \<Rightarrow> u16" where
  "image_word n = ucast (tiny_image (word_of_nat (0xFFF00000 + 2 * n))) OR
     push_bit 8 (ucast (tiny_image (word_of_nat (0xFFF00000 + 2 * n + 1))))"

definition tiny_disk :: disk where
  "tiny_disk = \<lparr>sector = (\<lambda>i. Some (map (\<lambda>j. image_word (256 * (i - 9) + j)) [0..<256])), latency = (\<lambda>i. i mod 7), floating = 0xFFFF\<rparr>"

definition drive_on :: ata where
  "drive_on = \<lparr>ata_seccount = 0, ata_lba0 = 0, ata_lba1 = 0, ata_lba2 = 0, ata_drive = 0, ata_sector = 0, ata_left = 0, ata_phase = Ata_idle\<rparr>"

lemma tiny_disk_readable: "readable tiny_disk lba n"
  by (simp add: readable_def tiny_disk_def)

lemma image_word_bytes:
  "ucast (image_word n) = tiny_image (word_of_nat (0xFFF00000 + 2 * n))"
  "ucast (drop_bit 8 (image_word n)) = tiny_image (word_of_nat (0xFFF00000 + 2 * n + 1))"
  unfolding image_word_def by (rule bit_word_eqI, auto simp: bit_simps dest: bit_imp_le_length)+

lemma tiny_disk_word: "i < 256 * 2048 \<Longrightarrow> disk_words tiny_disk 9 2048 ! i = image_word i"
  by (subst disk_words_nth [OF tiny_disk_readable]) (simp_all add: tiny_disk_def)

lemma tiny_disk_image: "same_on tiny_image (disk_image tiny_disk) 0xFFF00000 4294967296"
  unfolding same_on_def
proof (intro allI impI)
  fix x :: nat assume x: "0xFFF00000 \<le> x" "x < 4294967296"
  define k where "k = x - 0xFFF00000"
  have "unat (word_of_nat x - 0xFFF00000 :: u32) = k" using x by (simp add: unat_sub_u32 unat_of_nat_u32 k_def)
  moreover have "k div 2 < 256 * 2048" using x by (simp add: k_def)
  moreover have "0xFFF00000 + 2 * (k div 2) = x" if "even k" using that x by (simp add: k_def)
  moreover have "0xFFF00000 + 2 * (k div 2) + 1 = x" if "odd k"
    using that x odd_two_times_div_two_succ [of k] by (simp add: k_def)
  ultimately show "disk_image tiny_disk (word_of_nat x) = tiny_image (word_of_nat x)"
    unfolding disk_image_def word_byte_def by (simp only: tiny_disk_word image_word_bytes) (simp del: of_nat_add of_nat_mult)
qed

lemma tiny_loadable: "loadable tiny_image"
  by (simp add: loadable_def tiny_image_fields tiny_image_segments) (simp add: tiny_segment_def)

lemma tiny_disk_loads:
  "loadable (disk_image tiny_disk)" "disk_segments tiny_disk = [tiny_segment]" "kernel_segments tiny_disk"
  using loadable_same [OF tiny_disk_image tiny_loadable] tiny_image_segments
  by (simp_all add: disk_segments_def kernel_segments_def) (simp add: tiny_segment_def)


subsection \<open>The boot of the machine\<close>

text \<open>
  Before \<open>init_timer\<close> a tick and a key, after it a tick, and when \<open>main\<close> idles another tick and an interrupt
  of the second controller: two ticks are counted.
\<close>

definition some_irqs :: "nat \<Rightarrow> irq list" where
  "some_irqs i = (if i = 0 then [(0, power_on_cpu, 0, []), (1, power_on_cpu, 0, [])] else if i = 1 then [(0, power_on_cpu, 0, [])]
     else if i = 6 then [(0, power_on_cpu, 0, []), (14, power_on_cpu, 0, [])] else [])"

lemma some_irqs_facts: "\<forall>i. lines_ok (some_irqs i)" "timer_irqs (concat (map some_irqs [1..<7])) = 2"
proof -
  have "[1..<7] = [1, 2, 3, 4, 5, 6 :: nat]" by code_simp
  then show "timer_irqs (concat (map some_irqs [1..<7])) = 2" by (simp add: timer_irqs_def some_irqs_def)
qed (auto simp: lines_ok_def some_irqs_def)

lemma machine_on_handlers: "\<forall>n < 16. interrupt_handlers machine_on (32 + n) = 0" "timer_callback_sym boot_symbols \<noteq> 0"
  by (simp_all add: machine_on_def heap_on_def vmm_state.defs power_on_def boot_symbols_def)


text \<open>In protected mode and without paging, with the video descriptor at \<open>0x801A\<close>.\<close>

definition flat_machine :: kheap_state where
  "flat_machine = machine_on\<lparr>phys := store32 (store32 (\<lambda>_. 0) 0x801A 0x800007FF) 0x801E 0x0000920B,
     gdtr := Some \<lparr>gdt_limit = 31, gdt_base = 0x8002\<rparr>\<rparr>"

definition flat_cpu :: pm_cpu where
  "flat_cpu = \<lparr>cr0 = 0x11, esp = 0x90000, gs_desc = video_segment\<rparr>"

lemma flat_ready: "loader_ready 0x8022 flat_cpu flat_machine"
  "\<forall>a. 0x102000 \<le> unat a \<longrightarrow> unat a < 0x200000 \<longrightarrow> phys flat_machine a = 0"
proof -
  have "load32 (store32 (store32 (\<lambda>_. 0) 0x801A 0x800007FF) 0x801E 0x0000920B) 0x801A = 0x800007FF"
    by (subst load32_at) simp_all
  moreover have "descriptor 0x800007FF 0x0000920B = video_segment"
    by (simp add: descriptor_def video_segment_def DEFINE_STANDARD_GDT_def GDT_ENTRY_def ACCESS_DATA32_KERNEL_def FLAGS_G_BYTE_def)
  moreover have "\<not> bit (0x11 :: u32) 31" by simp
  ultimately show "loader_ready 0x8022 flat_cpu flat_machine" by (simp add: loader_ready_def flat_machine_def flat_cpu_def)
  have "store32 (store32 (\<lambda>_. 0) 0x801A 0x800007FF) 0x801E 0x0000920B a = 0" if "0x102000 \<le> unat a" for a
    using that by (simp add: store32_at)
  then show "\<forall>a. 0x102000 \<le> unat a \<longrightarrow> unat a < 0x200000 \<longrightarrow> phys flat_machine a = 0" by (simp add: flat_machine_def)
qed



subsection \<open>A BIOS\<close>

text \<open>One that answers from a list of two entries and fills every sector it reads with \<open>0x90\<close>.\<close>

definition two_entries :: "e820_entry list" where
  "two_entries = [\<lparr>e_addr = 0, e_size = 0x9FC00, e_type = 1, e_acpi = 0\<rparr>, \<lparr>e_addr = 0x100000, e_size = 0xF00000, e_type = 1, e_acpi = 0\<rparr>]"

definition put_entry :: "nat \<Rightarrow> e820_entry \<Rightarrow> ram \<Rightarrow> ram" where
  "put_entry a e m =
     store32 (store32 (store32 (store32 (store32 m (word_of_nat a) (ucast (e_addr e))) (word_of_nat (a + 4)) (ucast (drop_bit 32 (e_addr e))))
       (word_of_nat (a + 8)) (ucast (e_size e))) (word_of_nat (a + 12)) (ucast (drop_bit 32 (e_size e)))) (word_of_nat (a + 16)) (e_type e)"

definition small_bios :: bios where
  "small_bios = \<lparr>int15 = (\<lambda>eax ebx ecx edx di m.
       if ebx < 2 then (False, edx, if ebx = 0 then 1 else 0, put_entry (unat di) (two_entries ! unat ebx) m) else (True, 0, 0, m)),
     int13 = (\<lambda>ax bx cx dx m. (False, ax AND 0x00FF, dx,
       (\<lambda>x. if unat bx \<le> unat x \<and> unat x < unat bx + 512 * unat (ax AND 0x00FF) then 0x90 else m x)))\<rparr>"

lemma u64_halves: "ucast (ucast w :: u32) OR push_bit 32 (ucast (ucast (drop_bit 32 w) :: u32)) = (w :: u64)"
proof (rule bit_word_eqI)
  fix n assume "n < LENGTH(64)"
  then show "bit (ucast (ucast w :: u32) OR push_bit 32 (ucast (ucast (drop_bit 32 w) :: u32)) :: u64) n = bit w n"
    by (cases "n < 32") (auto simp: bit_simps)
qed

lemma put_entry_spec:
  assumes "a + 24 \<le> 65536"
  shows "e820_core (e820_at (put_entry a e m) (word_of_nat a) 0) = e820_core e" "only_in {a..<a + 24} m (put_entry a e m)"
proof -
  let ?m = "put_entry a e m"
  have "load32 ?m (word_of_nat a) = ucast (e_addr e)" "load32 ?m (word_of_nat (a + 4)) = ucast (drop_bit 32 (e_addr e))"
    "load32 ?m (word_of_nat (a + 8)) = ucast (e_size e)" "load32 ?m (word_of_nat (a + 12)) = ucast (drop_bit 32 (e_size e))"
    "load32 ?m (word_of_nat (a + 16)) = e_type e"
    using assms unfolding put_entry_def by (simp_all add: load32_store32_other del: of_nat_add)
  then show "e820_core (e820_at ?m (word_of_nat a) 0) = e820_core e"
    by (simp add: e820_core_def e820_at_def load64_def u64_halves add.commute)
  show "only_in {a..<a + 24} m ?m"
    unfolding put_entry_def by (intro only_in_store32 only_in_refl) (use assms in auto)
qed

lemma small_bios_service: "e820_service small_bios (\<lambda>i. if i = 1 then 1 else 0) two_entries"
proof -
  have "\<exists>m'. int15 small_bios 0xE820 (if i = 1 then 1 else 0) 24 E820_SIGNATURE di m =
      (False, E820_SIGNATURE, if Suc i = 1 then 1 else 0, m') \<and>
      e820_core (e820_at m' (ucast di) 0) = e820_core (two_entries ! i) \<and> only_in {unat di..<unat di + 24} m m'"
    if "i < 2" "unat di + 24 \<le> 65536" for i di m
  proof -
    have "ucast di = (word_of_nat (unat di) :: u32)" by simp
    moreover have "i = 0 \<or> i = 1" using that(1) by auto
    then have "int15 small_bios 0xE820 (if i = 1 then 1 else 0) 24 E820_SIGNATURE di m =
        (False, E820_SIGNATURE, if Suc i = 1 then 1 else 0, put_entry (unat di) (two_entries ! i) m)"
      by (elim disjE) (simp_all add: small_bios_def)
    ultimately show ?thesis
      using put_entry_spec [OF that(2), where e = "two_entries ! i" and m = m] by (intro exI conjI) simp_all
  qed
  moreover have "length two_entries = 2" by (simp add: two_entries_def)
  ultimately show ?thesis unfolding e820_service_def by simp
qed

lemma small_bios_disk: "disk_service small_bios (\<lambda>_. 0x90)"
proof -
  have "unat (word_of_nat (0x8000 + i) :: u32) = 0x8000 + i" if "i < 4096" for i using that by (intro unat_of_nat_u32) simp
  then show ?thesis by (auto simp: disk_service_def small_bios_def only_in_def simp del: of_nat_add)
qed

text \<open>The message of the boot sector is at \<open>0x7C80\<close>; the kernel finds the two entries.\<close>

definition real_on :: real_state where
  "real_on = \<lparr>rm_mem = (\<lambda>_. 0)(0x7C80 := 72, 0x7C81 := 73), video_calls = []\<rparr>"

definition real_labels :: mbr_labels where
  "real_labels = \<lparr>hello_msg = 0x7C80, disk_error_msg = 0x7C90, sectors_error_msg = 0x7CA0, hex_out_label = 0x7CB0\<rparr>"


end
