(* ===== verification/Spec2Isabelle.thy ===== *)
theory Spec2Isabelle
  imports Mathlib Bitmap Boot_chars Macros Loader_start Boot_examples
begin

text \<open>
  \<^bold>\<open>Verification of the kernel of \<open>os-learning\<close>.\<close> The repository builds a small i386 kernel in eight
  chapters. The last one, \<open>08.kernel-mm\<close>, holds everything the earlier ones introduce and is the
  subject of this development; of the chapters before it, the code that differs is modelled too.

  \<^bold>\<open>The program.\<close> The boot sector and the loader (\<open>boot/mbr.S\<close>, \<open>boot/loader.S\<close>) read the E820 map and
  the kernel image, build page tables and enter the kernel at \<open>main\<close> (\<open>kernel/kernel.c\<close>). \<open>main\<close> clears
  the screen, loads the segment and interrupt tables, programs the interrupt controllers and the
  interval timer, copies the memory map, initialises the physical page allocator and the virtual
  memory manager, creates the heap, runs the heap's stress test and then idles while interrupts
  arrive. The parts meet in three places: all of them print through \<open>vga_printf\<close>; the interrupt table
  calls the handlers that timer and virtual memory manager register; and the heap touches memory
  that no one has mapped, so that the page fault handler takes frames from the page allocator.

  \<^bold>\<open>State.\<close> The state is one record that grows component by component: \<open>machine\<close> (memory, ports, flags,
  control registers), then \<open>vga_state\<close>, \<open>intr_state\<close>, \<open>timer_state\<close>, \<open>rand_state\<close>, \<open>gdt_state\<close>,
  \<open>boot_state\<close>, \<open>pmm_state\<close>, \<open>vmm_state\<close> and \<open>kheap_state\<close>, each of which adds the static variables of one
  C file. An operation is a function on the record of its own component and everything above it, so that it
  applies unchanged to the state of the whole kernel. \<open>io_log\<close> is the sequence of port writes; what
  an input port returns is a field about which nothing is assumed. Operations that can panic return
  \<open>Inl\<close> (the state at the panic) or \<open>Inr\<close>; those that may not return, an \<open>option\<close>; those with both
  (\<open>run\<close>), an option of a sum. Machine integers are words of their width, pointers are \<open>32 word\<close>.

  \<^bold>\<open>Theories, in the order of their imports, with the sources under \<open>src/\<close> that they model.\<close>
  \<^item> \<open>Prelude\<close>, \<open>Ram\<close>: words, outcomes, byte memory with 32-bit loads and stores, and their laws
    (\<open>named_theorems\<close> \<open>addr_simps\<close> and \<open>mem_frame\<close>). \<open>Machine\<close>: \<open>include/io.h\<close>, \<open>sti\<close> and \<open>cli\<close>. \<open>Macros\<close>: the
    macros of \<open>include/types.h\<close> that compute, and the wide ports of \<open>include/io.h\<close>.
  \<^item> \<open>Cstring\<close>: \<open>lib/string.c\<close>. \<open>Mathlib\<close>: \<open>lib/math.c\<close>. \<open>Bitmap\<close>: \<open>include/bitmap.h\<close>. \<open>Rand\<close>: \<open>lib/rand.c\<close>.
  \<^item> \<open>Vga\<close>, \<open>Printf\<close>: \<open>drivers/vga.c\<close>, screen and formatted output. \<open>Panic\<close>: \<open>include/kernel.h\<close>.
  \<^item> \<open>Interrupt\<close>: \<open>interrupt/interrupt.c\<close> and the stubs \<open>interrupt/interrupt.S\<close>, against state machines
    of the 8259; \<open>Timer\<close>: \<open>interrupt/timer.c\<close>, against one of the 8254.
  \<^item> \<open>Gdt\<close>: \<open>mem/gdt.c\<close>, \<open>mem/gdt.S\<close>. \<open>Boot_info\<close>: \<open>mem/boot_info.c\<close>. \<open>Pmm\<close>: \<open>mem/pmm.c\<close>.
  \<^item> \<open>Vmm\<close>: \<open>mem/vmm.c\<close> and \<open>setup_page\<close> of \<open>boot/loader.S\<close>, against a model of the two-level walk of the
    processor with its TLB; \<open>Paging\<close>: accesses that fault and are repeated; \<open>Paged_memory\<close>: the
    heap's addresses behind the page tables as one flat memory.
  \<^item> \<open>Boot_sector\<close>: \<open>boot/mbr.S\<close>, over a record of the services of the BIOS. \<open>Boot_text\<close>, \<open>Boot_chars\<close>: the
    descriptor table of \<open>common/bootmacros.inc\<close> and the text routines of \<open>common/lib/pm_utils.S\<close>; \<open>Disk\<close>: its
    \<open>read_disk\<close>, against a model of the ATA drive, and \<open>load_hd_kernel_image\<close>; \<open>Elf\<close>, \<open>Loader\<close>:
    \<open>do_load_kernel\<close> and the mappings of \<open>boot/loader.S\<close>; \<open>Mode_switch\<close>: how it turns paging on (the rest of
    \<open>setup_page\<close> and \<open>enable_page\<close>, with stack, descriptor table and returns); \<open>Loader_start\<close>: \<open>loader_start\<close> in
    real mode and \<open>init_pm\<close>, the whole of the loader.
  \<^item> \<open>Locks\<close>: \<open>sync/lock.S\<close>, \<open>sync/spinlock.c\<close>, \<open>sync/yieldlock.c\<close>, and an inductive relation of the
    interleavings of threads on one processor.
  \<^item> \<open>Ordered_array\<close>: \<open>lib/ordered_array.c\<close>. \<open>Kheap\<close>: \<open>mem/kheap.c\<close>; \<open>Kheap_blocks\<close>, \<open>Kheap_alloc\<close>,
    \<open>Kheap_free\<close>, \<open>Kheap_spec\<close>, \<open>Kheap_check\<close>, \<open>Kheap_client\<close>, \<open>Kheap_tests\<close>: what its operations do, up to
    the abstract allocator and the stress test.
  \<^item> \<open>Kernel\<close>: \<open>main\<close>; \<open>Idle\<close>: the timer interrupts after it; \<open>Boot_irqs\<close>: \<open>main\<close> with hardware interrupts of any
    line between its calls; \<open>Boot\<close>: \<open>init_kernel\<close> of the loader, disk, \<open>main\<close> and interrupts together.
  \<^item> \<open>Chapters\<close>, \<open>Chapter07\<close>: the kernels of \<open>05.hello-kernel\<close>, \<open>06.refactoring\<close> and \<open>07.kernel-idt\<close>.
  \<^item> \<open>Examples\<close>, \<open>Kheap_examples\<close>, \<open>Kernel_examples\<close>, \<open>Boot_examples\<close>: concrete states, and the properties at them.

  \<^bold>\<open>Interfaces.\<close> Six locales state what one part promises another, each interpreted on the model's
  definitions: \<open>key_comparator\<close> (the comparator of the ordered array, for the plain one and for the
  block sizes of the heap), \<open>frame_allocator\<close> (the page allocator as a set of available frames),
  \<open>mutex\<close> (both locks) with its extension \<open>try_mutex\<close>, \<open>refinement\<close> (from one step of the heap to sequences of clients' calls) and
  \<open>outside_heap\<close> (state that the heap leaves alone, used for what holds when \<open>main\<close> idles).

  \<^bold>\<open>What is shown.\<close>
  \<^item> Heap: \<open>represents A s\<close> says that memory holds a list of blocks that tiles the heap, that the index
    lists exactly its holes in order of size, and that \<open>A\<close> is the set of allocated blocks. \<open>alloc\<close>,
    \<open>free\<close> and their wrappers keep it and do to \<open>A\<close> what an abstract allocator does; holes are chosen by
    best fit, never touch one another, and freeing undoes allocating. The stress test passes.
  \<^item> Paging: \<open>vmm_map_page\<close> and \<open>vmm_unmap_page\<close> change the translation of one page and leave no stale
    TLB entry; every access to kernel addresses is served as long as there are frames, with a frame
    of its own for every page, and for the heap's addresses the result is that of a flat memory.
  \<^item> Frames: the bitmap is the set of free frames, from \<open>pmm_init\<close> on.
  \<^item> Boot: the memory map from the BIOS to the kernel entry by entry, the switch to paging under the loader's
    feet, its mapping page by page, the
    kernel image from the disk and its ELF segments byte by byte, \<open>main\<close> up to its idle loop whatever
    interrupts arrive, and which of them count as ticks; every timer interrupt in chapter 07 as well.
  \<^item> Tables and devices: descriptors as the processor decodes them, and the port writes as the
    devices interpret them. The stubs restore what they saved.
  \<^item> Output: formatted output stays on the screen and terminates, numerals read back as the number,
    and the versions of the driver agree where both are defined.
  \<^item> Locks: mutual exclusion in all interleavings, and which mixtures of the operations can deadlock.
  Where the code does something else than its comments or its purpose, the theorem states what it does:
  huge requests to \<open>kmalloc\<close>, a sector that cannot be read, the seed of \<open>rand\<close>, the frame of an IRQ, the BCD mode of the timer, the
  video segment of the loader (on a processor that enforces its limit \<open>init_pm\<close> does not get past \<open>clear_screen\<close>;
  the theorems on paging and on the boot from the disk leave the text out), the page tables it does not clear.

  \<^bold>\<open>Bounds, fuel, hypotheses.\<close> \<open>printf_loop\<close> has the length of the format as fuel, one unit per character
  it looks at; running out is excluded by the theorem that it returns on every format that does not
  end inside a conversion. Loops that need not end (\<open>alloc\<close>, which calls itself after an expansion, the search
  for a NUL, spinning, the polling of the drive) are \<open>partial_function\<close>s, and that they return is a theorem with its
  condition. Theorems about \<open>main\<close> assume the layout of \<open>setup_page\<close> (\<open>kernel_layout\<close>, shown for
  \<open>setup_page\<close> itself and kept by the loader), an empty or coherent TLB, E820 entries below \<open>2^43\<close> bytes whose
  end fits the bitmap of 4 GiB, and \<open>init_guards\<close>: \<open>free\<close> reads the words before the first block and behind the last one as a footer and a header,
  and these must not hold the magic number by accident. With interrupts, the table of handlers must start
  empty. Of the BIOS and of the drive the theorems assume what their documentation promises: \<open>e820_service\<close> and
  \<open>disk_service\<close>, and \<open>readable\<close> for the sectors that are read.

  \<^bold>\<open>Not modelled.\<close> The code of the BIOS; the floating point unit; \<open>common/lib/real_print.S\<close>, which no file includes; boot sectors and loaders of the earlier chapters.
  Constants of \<open>include/ports.h\<close> for devices the kernel has no driver for (keyboard, CMOS, DMA, serial lines),
  macros that compute nothing, and prototypes without a definition (\<open>linked_list.h\<close>, \<open>memory.h\<close>). Functions of
  chapters 06 and 07 whose text is that of chapter 08 are modelled once. Interrupts arrive between the calls of
  \<open>main\<close>, not inside them, and the compiler's choice of registers enters only where assembly reads one (\<open>gdt_flush\<close>).
  Timing, caches other than the TLB and the memory order of several processors are outside the model; the kernel
  runs on one processor.
\<close>

end
